(* ===== verification/Prelude.thy ===== *)
theory Prelude
  imports Main "HOL-Library.Sublist"
begin

text \<open>
  What every component of the model shares: Go's byte strings and the functions of
  package \<^verbatim>\<open>strings\<close> that the program calls, sorted association lists as the
  observable order of Go's maps, and the generic facts about lists, options and maps that
  carry the component proofs.

  A Go \<^verbatim>\<open>string\<close> is a sequence of bytes, so it is \<open>string\<close> (a list of 8-bit
  characters), and \<open>length\<close> counts bytes as \<^verbatim>\<open>len\<close> does.
\<close>

named_theorems str_simps \<open>equations for the functions of package strings\<close>
named_theorems guard_simps \<open>unfoldings that expose the guards of an operation\<close>

section \<open>Results\<close>

type_synonym ('e, 'a) result = "'e + 'a"

abbreviation Ok :: "'a \<Rightarrow> ('e, 'a) result" where
  "Ok \<equiv> Inr"

abbreviation Fail :: "'e \<Rightarrow> ('e, 'a) result" where
  "Fail \<equiv> Inl"

section \<open>Go strings\<close>

subsection \<open>Prefixes, suffixes and substrings\<close>

definition has_prefix :: "string \<Rightarrow> string \<Rightarrow> bool" where
  \<comment> \<open>strings.HasPrefix\<close>
  "has_prefix s p = prefix p s"

definition has_suffix :: "string \<Rightarrow> string \<Rightarrow> bool" where
  \<comment> \<open>strings.HasSuffix\<close>
  "has_suffix s p = suffix p s"

definition cut_prefix :: "string \<Rightarrow> string \<Rightarrow> string option" where
  \<comment> \<open>strings.CutPrefix: \<open>None\<close> is found = false\<close>
  "cut_prefix s p = (if has_prefix s p then Some (drop (length p) s) else None)"

definition cut_suffix :: "string \<Rightarrow> string \<Rightarrow> string option" where
  \<comment> \<open>strings.CutSuffix: \<open>None\<close> is found = false\<close>
  "cut_suffix s p = (if has_suffix s p then Some (take (length s - length p) s) else None)"

definition trim_suffix :: "string \<Rightarrow> string \<Rightarrow> string" where
  \<comment> \<open>strings.TrimSuffix\<close>
  "trim_suffix s p = (if has_suffix s p then take (length s - length p) s else s)"

fun str_index :: "string \<Rightarrow> string \<Rightarrow> nat option" where
  \<comment> \<open>strings.Index \<open>s sub\<close>: \<open>None\<close> is -1\<close>
  "str_index [] sub = (if sub = [] then Some 0 else None)"
| "str_index (c # cs) sub =
     (if prefix sub (c # cs) then Some 0 else map_option Suc (str_index cs sub))"

definition contains :: "string \<Rightarrow> string \<Rightarrow> bool" where
  \<comment> \<open>strings.Contains\<close>
  "contains s sub = (str_index s sub \<noteq> None)"

definition contains_any :: "string \<Rightarrow> char list \<Rightarrow> bool" where
  \<comment> \<open>strings.ContainsAny, for ASCII character sets\<close>
  "contains_any s cs = list_ex (\<lambda>c. c \<in> set cs) s"

definition cut :: "string \<Rightarrow> string \<Rightarrow> (string \<times> string) option" where
  \<comment> \<open>strings.Cut: \<open>None\<close> is found = false\<close>
  "cut s sep = (case str_index s sep of
      None \<Rightarrow> None
    | Some i \<Rightarrow> Some (take i s, drop (i + length sep) s))"

fun split_char :: "char \<Rightarrow> string \<Rightarrow> string list" where
  \<comment> \<open>strings.Split with a one-byte separator\<close>
  "split_char sep [] = [[]]"
| "split_char sep (c # cs) =
     (if c = sep then [] # split_char sep cs
      else (case split_char sep cs of [] \<Rightarrow> [[c]] | w # ws \<Rightarrow> (c # w) # ws))"

fun join_with :: "string \<Rightarrow> string list \<Rightarrow> string" where
  \<comment> \<open>strings.Join\<close>
  "join_with sep [] = []"
| "join_with sep [w] = w"
| "join_with sep (w # v # ws) = w @ sep @ join_with sep (v # ws)"

lemma has_prefix_append [simp]: "has_prefix (p @ s) p"
  by (simp add: has_prefix_def)

lemma has_prefix_Nil [simp]: "has_prefix s []"
  by (simp add: has_prefix_def)

lemma has_suffix_append [simp]: "has_suffix (s @ p) p"
  by (auto simp: has_suffix_def suffix_def)

lemma cut_prefix_Some: "cut_prefix s p = Some r \<longleftrightarrow> s = p @ r"
  by (auto simp: cut_prefix_def has_prefix_def prefix_def)

lemma cut_suffix_Some: "cut_suffix s p = Some r \<longleftrightarrow> s = r @ p"
  by (auto simp: cut_suffix_def has_suffix_def suffix_def)

lemma cut_suffix_None: "cut_suffix s p = None \<longleftrightarrow> \<not> has_suffix s p"
  by (simp add: cut_suffix_def)

lemma cut_suffix_append [simp]: "cut_suffix (s @ p) p = Some s"
  by (simp add: cut_suffix_Some)

lemma str_index_single:
  "str_index s [c] = None \<longleftrightarrow> c \<notin> set s"
  by (induction s) (auto simp: prefix_def)

lemma contains_single [simp]: "contains s [c] \<longleftrightarrow> c \<in> set s"
  by (simp add: contains_def str_index_single)

lemma contains_any_iff: "contains_any s cs \<longleftrightarrow> set s \<inter> set cs \<noteq> {}"
  by (auto simp: contains_any_def list_ex_iff)

lemma str_index_Some_split:
  "str_index s sub = Some i \<Longrightarrow> \<exists>rest. s = take i s @ sub @ rest \<and> i + length sub \<le> length s"
proof (induction s arbitrary: i)
  case Nil
  then show ?case by (simp split: if_splits)
next
  case (Cons c cs)
  show ?case
  proof (cases "prefix sub (c # cs)")
    case True
    with Cons.prems have i: "i = 0" by simp
    from True obtain rest where rest: "c # cs = sub @ rest" by (auto simp: prefix_def)
    then have "length sub \<le> length (c # cs)"
      by (metis length_append le_add1)
    with i rest show ?thesis by auto
  next
    case False
    with Cons.prems obtain j where j: "str_index cs sub = Some j" and i: "i = Suc j"
      by auto
    from Cons.IH[OF j] i show ?thesis by auto
  qed
qed

lemma cut_Some_append: "cut s sep = Some (a, b) \<Longrightarrow> s = a @ sep @ b"
proof -
  assume "cut s sep = Some (a, b)"
  then obtain i where i: "str_index s sep = Some i"
    and a: "a = take i s" and b: "b = drop (i + length sep) s"
    by (auto simp: cut_def split: option.splits)
  from str_index_Some_split[OF i] obtain rest where s: "s = take i s @ sep @ rest"
    and len: "i + length sep \<le> length s" by blast
  have "length (take i s) = i" using len by simp
  then have "drop (i + length sep) s = rest"
    by (metis s append_assoc append_eq_conv_conj length_append)
  with s a b show ?thesis by simp
qed

subsection \<open>White space\<close>

text \<open>
  \<^verbatim>\<open>strings.TrimSpace\<close> removes the code points of \<^verbatim>\<open>unicode.IsSpace\<close>. In UTF-8
  these are exactly the following byte sequences: six ASCII bytes, then U+0085, U+00A0,
  U+1680, U+2000 to U+200A, U+2028, U+2029, U+202F, U+205F and U+3000. A decoder stops at a
  white-space code point exactly when one of the sequences stands there, so removing the
  sequences from both ends is what the library does, also on bytes that are not UTF-8.
\<close>

definition ascii_space :: "char list" where
  "ascii_space = [CHR 0x20, CHR 0x09, CHR 0x0A, CHR 0x0B, CHR 0x0C, CHR 0x0D]"

definition space_seqs :: "string list" where
  "space_seqs = map (\<lambda>c. [c]) ascii_space @
     [[CHR 0xC2, CHR 0x85], [CHR 0xC2, CHR 0xA0], [CHR 0xE1, CHR 0x9A, CHR 0x80],
      [CHR 0xE2, CHR 0x80, CHR 0x80], [CHR 0xE2, CHR 0x80, CHR 0x81],
      [CHR 0xE2, CHR 0x80, CHR 0x82], [CHR 0xE2, CHR 0x80, CHR 0x83],
      [CHR 0xE2, CHR 0x80, CHR 0x84], [CHR 0xE2, CHR 0x80, CHR 0x85],
      [CHR 0xE2, CHR 0x80, CHR 0x86], [CHR 0xE2, CHR 0x80, CHR 0x87],
      [CHR 0xE2, CHR 0x80, CHR 0x88], [CHR 0xE2, CHR 0x80, CHR 0x89],
      [CHR 0xE2, CHR 0x80, CHR 0x8A], [CHR 0xE2, CHR 0x80, CHR 0xA8],
      [CHR 0xE2, CHR 0x80, CHR 0xA9], [CHR 0xE2, CHR 0x80, CHR 0xAF],
      [CHR 0xE2, CHR 0x81, CHR 0x9F], [CHR 0xE3, CHR 0x80, CHR 0x80]]"

fun strip_first :: "string list \<Rightarrow> string \<Rightarrow> string option" where
  \<comment> \<open>the string without the first of the (non-empty) sequences that it starts with\<close>
  "strip_first [] s = None"
| "strip_first (w # ws) s =
     (if w \<noteq> [] \<and> prefix w s then Some (drop (length w) s) else strip_first ws s)"

lemma strip_first_length: "strip_first ws s = Some r \<Longrightarrow> length r < length s"
proof (induction ws)
  case Nil
  then show ?case by simp
next
  case (Cons w ws)
  show ?case
  proof (cases "w \<noteq> [] \<and> prefix w s")
    case True
    then have "0 < length w" and "length w \<le> length s"
      by (auto simp: prefix_length_le)
    then have "length s - length w < length s" by linarith
    with True Cons.prems show ?thesis by auto
  next
    case False
    with Cons.prems have "strip_first ws s = Some r" by simp
    then show ?thesis by (rule Cons.IH)
  qed
qed

function strip_all :: "string list \<Rightarrow> string \<Rightarrow> string" where
  "strip_all ws s = (case strip_first ws s of None \<Rightarrow> s | Some r \<Rightarrow> strip_all ws r)"
  by pat_completeness auto
termination
  by (relation "measure (\<lambda>(ws, s). length s)") (auto dest: strip_first_length)

declare strip_all.simps [simp del]

definition trim_left_space :: "string \<Rightarrow> string" where
  "trim_left_space s = strip_all space_seqs s"

definition trim_right_space :: "string \<Rightarrow> string" where
  "trim_right_space s = rev (strip_all (map rev space_seqs) (rev s))"

definition trim_space :: "string \<Rightarrow> string" where
  \<comment> \<open>strings.TrimSpace\<close>
  "trim_space s = trim_right_space (trim_left_space s)"

lemma strip_all_None: "strip_first ws s = None \<Longrightarrow> strip_all ws s = s"
  by (simp add: strip_all.simps)

lemma strip_all_fixed: "strip_first ws (strip_all ws s) = None"
proof (induction ws s rule: strip_all.induct)
  case (1 ws s)
  show ?case
  proof (cases "strip_first ws s")
    case None
    then show ?thesis by (simp add: strip_all_None)
  next
    case (Some r)
    with "1.IH" have "strip_first ws (strip_all ws r) = None" by simp
    with Some show ?thesis by (simp add: strip_all.simps[of ws s])
  qed
qed

lemma strip_first_suffix: "strip_first ws s = Some r \<Longrightarrow> suffix r s"
  by (induction ws) (auto simp: suffix_drop split: if_splits)

lemma strip_all_suffix: "suffix (strip_all ws s) s"
proof (induction ws s rule: strip_all.induct)
  case (1 ws s)
  show ?case
  proof (cases "strip_first ws s")
    case None
    then show ?thesis by (simp add: strip_all_None)
  next
    case (Some r)
    with "1.IH" have "suffix (strip_all ws r) r" by simp
    moreover from Some have "suffix r s" by (rule strip_first_suffix)
    ultimately show ?thesis
      using Some by (simp add: strip_all.simps[of ws s] suffix_order.order_trans)
  qed
qed

lemma trim_left_space_suffix: "suffix (trim_left_space s) s"
  by (simp add: trim_left_space_def strip_all_suffix)

lemma trim_right_space_prefix: "prefix (trim_right_space s) s"
  using strip_all_suffix[of "map rev space_seqs" "rev s"]
  by (simp add: trim_right_space_def suffix_to_prefix)

lemma trim_space_sublist: "\<exists>a b. s = a @ trim_space s @ b"
proof -
  obtain a where a: "s = a @ trim_left_space s"
    using trim_left_space_suffix[of s] by (auto simp: suffix_def)
  obtain b where b: "trim_left_space s = trim_space s @ b"
    using trim_right_space_prefix[of "trim_left_space s"]
    by (auto simp: prefix_def trim_space_def)
  from a b have "s = a @ trim_space s @ b" by simp
  then show ?thesis by blast
qed

lemma set_trim_space: "set (trim_space s) \<subseteq> set s"
proof -
  obtain a b where "s = a @ trim_space s @ b" using trim_space_sublist by blast
  then have "set s = set a \<union> set (trim_space s) \<union> set b"
    by (metis set_append sup_assoc)
  then show ?thesis by blast
qed

lemma strip_first_None_iff:
  "strip_first ws s = None \<longleftrightarrow> (\<forall>w\<in>set ws. w = [] \<or> \<not> prefix w s)"
  by (induction ws) auto

lemma space_seqs_nonempty: "[] \<notin> set space_seqs"
  by (auto simp: space_seqs_def)

text \<open>
  A trimmed string does not start with white space, and trimming again changes nothing. The
  right trim cannot uncover white space at the left end: it only removes a suffix.
\<close>

lemma trim_space_left_fixed: "strip_first space_seqs (trim_space s) = None"
proof -
  have "strip_first space_seqs (trim_left_space s) = None"
    by (simp add: trim_left_space_def strip_all_fixed)
  moreover have "prefix (trim_space s) (trim_left_space s)"
    by (simp add: trim_space_def trim_right_space_prefix)
  ultimately show ?thesis
    unfolding strip_first_None_iff using prefix_order.order_trans by blast
qed

lemma trim_space_right_fixed: "strip_first (map rev space_seqs) (rev (trim_space s)) = None"
  by (simp add: trim_space_def trim_right_space_def strip_all_fixed)

lemma trim_space_fixedI:
  "strip_first space_seqs s = None \<Longrightarrow> strip_first (map rev space_seqs) (rev s) = None
    \<Longrightarrow> trim_space s = s"
  by (simp add: trim_space_def trim_left_space_def trim_right_space_def strip_all_None)

lemma trim_space_idem [simp]: "trim_space (trim_space s) = trim_space s"
  by (rule trim_space_fixedI) (rule trim_space_left_fixed trim_space_right_fixed)+

lemma trim_space_Nil [simp]: "trim_space [] = []"
  by (rule trim_space_fixedI) (auto simp: strip_first_None_iff)

text \<open>A string whose first and last byte are ordinary ASCII is its own trim.\<close>

definition plain_char :: "char \<Rightarrow> bool" where
  "plain_char c = (c \<notin> set ascii_space \<and> (of_char c :: nat) < 128)"

lemma space_seqs_check:
  "list_all (\<lambda>w. w \<noteq> [] \<and> list_all (\<lambda>c. \<not> plain_char c) w) space_seqs"
  by code_simp

lemma space_seqs_no_plain: "w \<in> set space_seqs \<Longrightarrow> c \<in> set w \<Longrightarrow> \<not> plain_char c"
  using space_seqs_check by (auto simp: list_all_iff)

lemma space_seqs_plain:
  assumes "w \<in> set space_seqs"
  shows "w \<noteq> [] \<and> \<not> plain_char (hd w) \<and> \<not> plain_char (last w)"
  using space_seqs_check assms space_seqs_no_plain[OF assms] by (auto simp: list_all_iff)

lemma trim_space_plain:
  assumes "s \<noteq> []" and "plain_char (hd s)" and "plain_char (last s)"
  shows "trim_space s = s"
proof (rule trim_space_fixedI)
  show "strip_first space_seqs s = None"
    unfolding strip_first_None_iff
  proof
    fix w assume w: "w \<in> set space_seqs"
    have "\<not> prefix w s"
    proof
      assume "prefix w s"
      then have "hd w = hd s" using space_seqs_plain[OF w] by (auto simp: prefix_def)
      with space_seqs_plain[OF w] assms(2) show False by simp
    qed
    then show "w = [] \<or> \<not> prefix w s" by simp
  qed
next
  show "strip_first (map rev space_seqs) (rev s) = None"
    unfolding strip_first_None_iff
  proof
    fix w assume "w \<in> set (map rev space_seqs)"
    then obtain v where v: "v \<in> set space_seqs" and w: "w = rev v" by auto
    have "\<not> prefix w (rev s)"
    proof
      assume "prefix w (rev s)"
      then have "hd w = hd (rev s)"
        using space_seqs_plain[OF v] w by (auto simp: prefix_def)
      then have "last v = last s" using w assms(1) space_seqs_plain[OF v] by (simp add: hd_rev)
      with space_seqs_plain[OF v] assms(3) show False by simp
    qed
    then show "w = [] \<or> \<not> prefix w (rev s)" by simp
  qed
qed

text \<open>No sequence of white space holds an ordinary byte, so trimming keeps every one of them.\<close>

lemma strip_first_keeps:
  assumes "strip_first ws s = Some r" and "\<forall>w\<in>set ws. \<forall>d\<in>set w. \<not> plain_char d"
    and "plain_char c" and "c \<in> set s"
  shows "c \<in> set r"
  using assms
proof (induction ws)
  case Nil
  then show ?case by simp
next
  case (Cons w ws)
  show ?case
  proof (cases "w \<noteq> [] \<and> prefix w s")
    case True
    then obtain t where t: "s = w @ t" by (auto simp: prefix_def)
    with True Cons.prems(1) have "r = t" by simp
    with t Cons.prems show ?thesis by auto
  next
    case False
    with Cons show ?thesis by simp
  qed
qed

lemma strip_all_keeps:
  "\<forall>w\<in>set ws. \<forall>d\<in>set w. \<not> plain_char d \<Longrightarrow> plain_char c \<Longrightarrow> c \<in> set s
    \<Longrightarrow> c \<in> set (strip_all ws s)"
proof (induction ws s rule: strip_all.induct)
  case (1 ws s)
  show ?case
  proof (cases "strip_first ws s")
    case None
    with "1.prems" show ?thesis by (simp add: strip_all_None)
  next
    case (Some r)
    have "c \<in> set r" using strip_first_keeps[OF Some] "1.prems" by blast
    with "1.IH"[OF Some] "1.prems" Some show ?thesis by (simp add: strip_all.simps[of ws s])
  qed
qed

lemma trim_space_keeps: "plain_char c \<Longrightarrow> c \<in> set s \<Longrightarrow> c \<in> set (trim_space s)"
  unfolding trim_space_def trim_left_space_def trim_right_space_def
  using space_seqs_no_plain by (auto intro!: strip_all_keeps)

lemma trim_space_nonempty: "plain_char c \<Longrightarrow> c \<in> set s \<Longrightarrow> trim_space s \<noteq> []"
  using trim_space_keeps[of c s] by auto

lemma str_index_first: "c \<notin> set a \<Longrightarrow> str_index (a @ c # b) [c] = Some (length a)"
  by (induction a) auto

section \<open>Options, lists and maps\<close>

lemma case_option_Some_iff:
  "(case x of None \<Rightarrow> a | Some y \<Rightarrow> f y) = b \<longleftrightarrow>
     (x = None \<and> a = b) \<or> (\<exists>y. x = Some y \<and> f y = b)"
  by (cases x) auto

lemma find_None_iff': "find P xs = None \<longleftrightarrow> (\<forall>x\<in>set xs. \<not> P x)"
  by (auto simp: find_None_iff)

lemma list_ex_append_iff [simp]: "list_ex P (xs @ ys) \<longleftrightarrow> list_ex P xs \<or> list_ex P ys"
  by (simp add: list_ex_iff) blast

lemma distinct_concat_map:
  assumes "distinct ks" "\<And>k. k \<in> set ks \<Longrightarrow> distinct (f k)"
    and "\<And>k k'. k \<in> set ks \<Longrightarrow> k' \<in> set ks \<Longrightarrow> k \<noteq> k' \<Longrightarrow> set (f k) \<inter> set (f k') = {}"
  shows "distinct (concat (map f ks))"
  using assms
proof (induction ks)
  case (Cons k ks)
  have "set (f k) \<inter> (\<Union>k'\<in>set ks. set (f k')) = {}"
    using Cons.prems(1) Cons.prems(3)[of k] by (auto simp: disjoint_iff)
  moreover have "distinct (concat (map f ks))"
    using Cons by simp
  ultimately show ?case using Cons.prems by simp
qed simp

end
