(* ===== verification/PermRules.thy ===== *)
theory PermRules
  imports Prelude
begin

text \<open>
  The permission rule grammar and its evaluator, \<^verbatim>\<open>internal/perm/rules.go\<close>: parsing
  of rule lines, the three ordered lists, glob matching, the quote-aware split of compound
  shell commands and the substitution guard of the allow list. Error texts built with
  \<^verbatim>\<open>fmt.Errorf\<close> are values of a datatype that carries the same payload.
\<close>

section \<open>Data\<close>

datatype effect = EffectNone | EffectDeny | EffectAsk | EffectAllow

datatype verdict = Unmatched | VerdictAllow | VerdictAsk | VerdictDeny

record rule =
  rule_tool :: string
  rule_pattern :: string
  rule_effect :: effect

datatype rule_error =
    ErrEmptyRule string
  | ErrUnbalancedParens string
  | ErrEmptySpecifier string
  | ErrBadToolName string
  | ErrParensSpecifier string

datatype warn_reason = ParseFailed rule_error | UnanchoredAllow | MidStarTool

record perm_warning =
  warn_rule :: string
  warn_why :: warn_reason

record rule_set =
  rs_deny :: "rule list"
  rs_ask :: "rule list"
  rs_allow :: "rule list"

abbreviation mcp_prefix :: string where
  "mcp_prefix \<equiv> ''mcp__''"

abbreviation mcp_sep :: string where
  "mcp_sep \<equiv> ''__''"

abbreviation compound_tool :: string where
  "compound_tool \<equiv> ''Bash''"

section \<open>Parsing\<close>

definition tool_char :: "char \<Rightarrow> bool" where
  "tool_char c = (c \<in> set ''abcdefghijklmnopqrstuvwxyzABCDEFGHIJKLMNOPQRSTUVWXYZ0123456789_*'')"

text \<open>
  The loop of \<^verbatim>\<open>validToolName\<close> ranges over code points. Every accepted code point is one
  ASCII byte, and a byte of a longer or of a broken encoding is never one of them, so the loop
  over bytes accepts the same strings.
\<close>

definition valid_tool_name :: "string \<Rightarrow> bool" where
  "valid_tool_name tool = (tool \<noteq> [] \<and> list_all tool_char tool)"

definition parse_rule :: "string \<Rightarrow> (rule_error, rule) result" where
  "parse_rule line =
     (let s = trim_space line in
      if s = [] then Fail (ErrEmptyRule s)
      else
        (let split =
           (case str_index s ''('' of
              Some open \<Rightarrow>
                if \<not> has_suffix s '')'' then Fail (ErrUnbalancedParens s)
                else
                  (let tool = take open s;
                       pattern = take (length s - 1 - (open + 1)) (drop (open + 1) s)
                   in if contains_any tool ''()'' then Fail (ErrUnbalancedParens s)
                      else if contains_any pattern ''()'' then Fail (ErrParensSpecifier s)
                      else if trim_space pattern = [] then Fail (ErrEmptySpecifier s)
                      else Ok (tool, pattern))
            | None \<Rightarrow>
                if contains s '')'' then Fail (ErrUnbalancedParens s) else Ok (s, []))
         in case split of
              Fail e \<Rightarrow> Fail e
            | Ok (tool, pattern) \<Rightarrow>
                if \<not> valid_tool_name tool then Fail (ErrBadToolName tool)
                else Ok \<lparr>rule_tool = tool,
                         rule_pattern = (case cut_suffix pattern '':*'' of
                             Some base \<Rightarrow> base @ '' *''
                           | None \<Rightarrow> pattern),
                         rule_effect = EffectNone\<rparr>))"

definition unanchored_allow_glob :: "string \<Rightarrow> bool" where
  "unanchored_allow_glob tool =
     (case cut tool ''*'' of
        None \<Rightarrow> False
      | Some (pre, _) \<Rightarrow>
          \<not> has_prefix pre mcp_prefix \<or> \<not> contains (drop (length mcp_prefix) pre) mcp_sep)"

definition mid_star :: "string \<Rightarrow> bool" where
  "mid_star tool = (case str_index tool ''*'' of None \<Rightarrow> False | Some i \<Rightarrow> i \<noteq> length tool - 1)"

definition place_line :: "effect \<Rightarrow> string \<Rightarrow> (warn_reason, rule) result" where
  \<comment> \<open>the body of the loop of \<^verbatim>\<open>parseList\<close>\<close>
  "place_line eff line =
     (case parse_rule line of
        Fail e \<Rightarrow> Fail (ParseFailed e)
      | Ok r \<Rightarrow>
          if mid_star (rule_tool r) then Fail MidStarTool
          else if eff = EffectAllow \<and> unanchored_allow_glob (rule_tool r) then Fail UnanchoredAllow
          else Ok (r\<lparr>rule_effect := eff\<rparr>))"

fun parse_list :: "string list \<Rightarrow> effect \<Rightarrow> perm_warning list \<Rightarrow> rule list \<times> perm_warning list" where
  "parse_list [] eff ws = ([], ws)"
| "parse_list (line # lines) eff ws =
     (case place_line eff line of
        Fail why \<Rightarrow> parse_list lines eff (ws @ [\<lparr>warn_rule = line, warn_why = why\<rparr>])
      | Ok r \<Rightarrow> (let (rules, ws') = parse_list lines eff ws in (r # rules, ws')))"

definition new_rule_set ::
    "string list \<Rightarrow> string list \<Rightarrow> string list \<Rightarrow> rule_set \<times> perm_warning list" where
  "new_rule_set deny ask allow =
     (let (d, ws1) = parse_list deny EffectDeny [];
          (q, ws2) = parse_list ask EffectAsk ws1;
          (a, ws3) = parse_list allow EffectAllow ws2
      in (\<lparr>rs_deny = d, rs_ask = q, rs_allow = a\<rparr>, ws3))"

definition mcp_name :: "string \<Rightarrow> string \<Rightarrow> string" where
  "mcp_name server tool = mcp_prefix @ server @ mcp_sep @ tool"

definition split_mcp_name :: "string \<Rightarrow> (string \<times> string) option" where
  "split_mcp_name name =
     (case cut_prefix name mcp_prefix of
        None \<Rightarrow> None
      | Some rest \<Rightarrow>
          (case cut rest mcp_sep of
             None \<Rightarrow> None
           | Some (server, tool) \<Rightarrow>
               if server = [] \<or> tool = [] then None else Some (server, tool)))"

section \<open>Scanning shell commands\<close>

text \<open>
  Both scans of the source run an index over the bytes with one byte of state, the active
  quote. Here the state is the first argument and the index is the remaining input.
\<close>

abbreviation squote :: char where "squote \<equiv> CHR 0x27"
abbreviation dquote :: char where "dquote \<equiv> CHR 0x22"
abbreviation backslash :: char where "backslash \<equiv> CHR 0x5C"
abbreviation backtick :: char where "backtick \<equiv> CHR 0x60"
abbreviation newline :: char where "newline \<equiv> CHR 0x0A"

definition sep_chars :: "char list" where
  "sep_chars = [CHR '';'', CHR ''|'', CHR ''&'', newline]"

fun separator_len :: "string \<Rightarrow> nat" where
  \<comment> \<open>the length of the separator at the head of the remaining input\<close>
  "separator_len [] = 0"
| "separator_len (c # cs) =
     (if take 2 (c # cs) \<in> set [''|&'', ''&&'', ''||''] then 2
      else if c \<in> set sep_chars then 1 else 0)"

definition flush_sub :: "string \<Rightarrow> string list" where
  \<comment> \<open>the trimmed segment, dropped when nothing is left\<close>
  "flush_sub seg = (let sub = trim_space seg in if sub \<noteq> [] then [sub] else [])"

function split_scan :: "char option \<Rightarrow> string \<Rightarrow> string \<Rightarrow> string list" where
  "split_scan q seg [] = flush_sub seg"
| "split_scan None seg (c # cs) =
     (if c = squote \<or> c = dquote then split_scan (Some c) (seg @ [c]) cs
      else if 0 < separator_len (c # cs)
      then flush_sub seg @ split_scan None [] (drop (separator_len (c # cs) - 1) cs)
      else split_scan None (seg @ [c]) cs)"
| "split_scan (Some qc) seg (c # cs) =
     split_scan (if c = qc then None else Some qc) (seg @ [c]) cs"
  by pat_completeness auto
termination
  by (relation "measure (\<lambda>(q, seg, cs). length cs)") auto

definition split_compound :: "string \<Rightarrow> string list" where
  "split_compound cmd = split_scan None [] cmd"

function subst_scan :: "char option \<Rightarrow> string \<Rightarrow> bool" where
  "subst_scan q [] = False"
| "subst_scan (Some qc) (c # cs) =
     (if qc = squote then subst_scan (if c = squote then None else Some qc) cs
      else if c = dquote then subst_scan None cs
      else if c = backslash then subst_scan (Some qc) (drop 1 cs)
      else if c = backtick then True
      else if c = CHR ''$'' \<and> cs \<noteq> [] \<and> hd cs = CHR ''('' then True
      else subst_scan (Some qc) cs)"
| "subst_scan None (c # cs) =
     (if c = squote then subst_scan (Some squote) cs
      else if c = dquote then subst_scan (Some dquote) cs
      else if c = backslash then subst_scan None (drop 1 cs)
      else if c = backtick then True
      else if c = CHR ''$'' \<and> cs \<noteq> [] \<and> hd cs = CHR ''('' then True
      else subst_scan None cs)"
  by pat_completeness auto
termination
  by (relation "measure (\<lambda>(q, cs). length cs)") auto

definition has_substitution :: "string \<Rightarrow> bool" where
  "has_substitution cmd = subst_scan None cmd"

section \<open>Evaluation\<close>

definition match_glob :: "string \<Rightarrow> string \<Rightarrow> bool" where
  "match_glob pattern subject =
     (case cut_suffix pattern ''*'' of
        Some base \<Rightarrow> has_prefix subject base
      | None \<Rightarrow> pattern = subject)"

definition matches_tool :: "rule \<Rightarrow> string \<Rightarrow> bool" where
  "matches_tool r name =
     (case cut_suffix (rule_tool r) ''*'' of
        Some base \<Rightarrow> has_prefix name base
      | None \<Rightarrow>
          if rule_tool r = name then True
          else has_prefix (rule_tool r) mcp_prefix \<and> has_prefix name (rule_tool r @ mcp_sep))"

definition rule_matches :: "rule \<Rightarrow> string \<Rightarrow> string \<Rightarrow> bool" where
  "rule_matches r tool arg =
     (if \<not> matches_tool r tool then False
      else if rule_pattern r = [] then True
      else match_glob (rule_pattern r) arg)"

definition evaluate_single :: "rule_set \<Rightarrow> string \<Rightarrow> string \<Rightarrow> verdict" where
  "evaluate_single rs tool arg =
     (if list_ex (\<lambda>r. rule_matches r tool arg) (rs_deny rs) then VerdictDeny
      else if list_ex (\<lambda>r. rule_matches r tool arg) (rs_ask rs) then VerdictAsk
      else if has_substitution arg then Unmatched
      else if list_ex (\<lambda>r. rule_matches r tool arg) (rs_allow rs) then VerdictAllow
      else Unmatched)"

fun compound_scan ::
    "rule_set \<Rightarrow> string \<Rightarrow> bool \<Rightarrow> bool \<Rightarrow> bool \<Rightarrow> string list \<Rightarrow> verdict" where
  "compound_scan rs tool saw_ask saw_unmatched saw_allow [] =
     (if saw_ask then VerdictAsk
      else if saw_unmatched then Unmatched
      else if saw_allow then VerdictAllow
      else Unmatched)"
| "compound_scan rs tool saw_ask saw_unmatched saw_allow (sub # subs) =
     (case evaluate_single rs tool sub of
        VerdictDeny \<Rightarrow> VerdictDeny
      | VerdictAsk \<Rightarrow> compound_scan rs tool True saw_unmatched saw_allow subs
      | VerdictAllow \<Rightarrow> compound_scan rs tool saw_ask saw_unmatched True subs
      | Unmatched \<Rightarrow> compound_scan rs tool saw_ask True saw_allow subs)"

definition evaluate_compound :: "rule_set \<Rightarrow> string \<Rightarrow> string list \<Rightarrow> verdict" where
  "evaluate_compound rs tool subs = compound_scan rs tool False False False subs"

definition evaluate :: "rule_set \<Rightarrow> string \<Rightarrow> string \<Rightarrow> verdict" where
  "evaluate rs tool arg =
     (if tool = compound_tool \<and> 1 < length (split_compound arg)
      then evaluate_compound rs tool (split_compound arg)
      else evaluate_single rs tool arg)"

section \<open>Evaluation: what each verdict means\<close>

definition some_rule :: "rule list \<Rightarrow> string \<Rightarrow> string \<Rightarrow> bool" where
  "some_rule rules tool arg = (\<exists>r\<in>set rules. rule_matches r tool arg)"

definition subjects :: "string \<Rightarrow> string \<Rightarrow> string list" where
  \<comment> \<open>the strings that are matched independently for one call\<close>
  "subjects tool arg =
     (if tool = compound_tool \<and> 1 < length (split_compound arg)
      then split_compound arg else [arg])"

lemma list_ex_some_rule [simp]:
  "list_ex (\<lambda>r. rule_matches r tool arg) rules = some_rule rules tool arg"
  by (auto simp: some_rule_def list_ex_iff)

lemma evaluate_single_Deny:
  "evaluate_single rs tool arg = VerdictDeny \<longleftrightarrow> some_rule (rs_deny rs) tool arg"
  by (simp add: evaluate_single_def)

lemma evaluate_single_Ask:
  "evaluate_single rs tool arg = VerdictAsk \<longleftrightarrow>
     \<not> some_rule (rs_deny rs) tool arg \<and> some_rule (rs_ask rs) tool arg"
  by (simp add: evaluate_single_def)

lemma evaluate_single_Allow:
  "evaluate_single rs tool arg = VerdictAllow \<longleftrightarrow>
     \<not> some_rule (rs_deny rs) tool arg \<and> \<not> some_rule (rs_ask rs) tool arg \<and>
     \<not> has_substitution arg \<and> some_rule (rs_allow rs) tool arg"
  by (simp add: evaluate_single_def)

lemmas evaluate_single_iffs = evaluate_single_Deny evaluate_single_Ask evaluate_single_Allow

lemma compound_scan_Deny:
  "compound_scan rs tool a u l subs = VerdictDeny \<longleftrightarrow>
     (\<exists>sub\<in>set subs. evaluate_single rs tool sub = VerdictDeny)"
  by (induction subs arbitrary: a u l) (auto split: verdict.splits)

lemma compound_scan_Ask:
  "compound_scan rs tool a u l subs = VerdictAsk \<longleftrightarrow>
     (\<forall>sub\<in>set subs. evaluate_single rs tool sub \<noteq> VerdictDeny) \<and>
     (a \<or> (\<exists>sub\<in>set subs. evaluate_single rs tool sub = VerdictAsk))"
  by (induction subs arbitrary: a u l) (auto split: verdict.splits)

lemma compound_scan_Allow:
  "compound_scan rs tool a u l subs = VerdictAllow \<longleftrightarrow>
     \<not> a \<and> \<not> u \<and> (l \<or> subs \<noteq> []) \<and>
     (\<forall>sub\<in>set subs. evaluate_single rs tool sub = VerdictAllow)"
  by (induction subs arbitrary: a u l) (auto split: verdict.splits)

lemma evaluate_Deny:
  "evaluate rs tool arg = VerdictDeny \<longleftrightarrow>
     (\<exists>sub\<in>set (subjects tool arg). some_rule (rs_deny rs) tool sub)"
  by (auto simp: evaluate_def evaluate_compound_def compound_scan_Deny subjects_def
      evaluate_single_iffs)

lemma evaluate_Allow:
  "evaluate rs tool arg = VerdictAllow \<longleftrightarrow>
     (\<forall>sub\<in>set (subjects tool arg). evaluate_single rs tool sub = VerdictAllow)"
  by (auto simp: evaluate_def evaluate_compound_def compound_scan_Allow subjects_def)

lemma evaluate_Ask:
  "evaluate rs tool arg = VerdictAsk \<longleftrightarrow>
     (\<forall>sub\<in>set (subjects tool arg). \<not> some_rule (rs_deny rs) tool sub) \<and>
     (\<exists>sub\<in>set (subjects tool arg). some_rule (rs_ask rs) tool sub)"
  by (auto simp: evaluate_def evaluate_compound_def compound_scan_Ask subjects_def
      evaluate_single_iffs)

section \<open>Splitting: every piece is one command\<close>

definition quiet :: "char option \<Rightarrow> string \<Rightarrow> bool" where
  \<comment> \<open>scanning from the given quote state meets no separator\<close>
  "quiet q s = (split_scan q [] s = flush_sub s)"

fun no_sep :: "char option \<Rightarrow> string \<Rightarrow> bool" where
  \<comment> \<open>no separator byte stands outside quotes\<close>
  "no_sep q [] = True"
| "no_sep None (c # cs) =
     (if c = squote \<or> c = dquote then no_sep (Some c) cs else c \<notin> set sep_chars \<and> no_sep None cs)"
| "no_sep (Some qc) (c # cs) = no_sep (if c = qc then None else Some qc) cs"

fun quote_after :: "char option \<Rightarrow> string \<Rightarrow> char option" where
  "quote_after q [] = q"
| "quote_after None (c # cs) = quote_after (if c = squote \<or> c = dquote then Some c else None) cs"
| "quote_after (Some qc) (c # cs) = quote_after (if c = qc then None else Some qc) cs"

lemma separator_len_0 [simp]: "separator_len (c # cs) = 0 \<longleftrightarrow> c \<notin> set sep_chars"
  by (auto simp: sep_chars_def take_Cons' split: if_splits)

lemma separator_len_pos [simp]: "0 < separator_len (c # cs) \<longleftrightarrow> c \<in> set sep_chars"
  by (metis neq0_conv separator_len_0)

declare separator_len.simps(2) [simp del]

lemma no_sep_append:
  "no_sep q (xs @ ys) \<longleftrightarrow> no_sep q xs \<and> no_sep (quote_after q xs) ys"
  by (induction q xs rule: no_sep.induct) auto

lemma split_scan_no_sep: "no_sep q cs \<Longrightarrow> split_scan q seg cs = flush_sub (seg @ cs)"
  by (induction q seg cs rule: split_scan.induct) (auto split: if_splits)

lemma quote_after_snoc:
  "quote_after q (xs @ [c]) =
     (case quote_after q xs of
        None \<Rightarrow> if c = squote \<or> c = dquote then Some c else None
      | Some qc \<Rightarrow> if c = qc then None else Some qc)"
  by (induction q xs rule: quote_after.induct) (auto split: option.splits)

lemma white_no_quote:
  "w \<in> set space_seqs \<Longrightarrow> squote \<notin> set w \<and> dquote \<notin> set w"
  by (auto simp: space_seqs_def ascii_space_def)

lemma no_sep_drop_plain:
  "no_sep None (w @ s) \<Longrightarrow> squote \<notin> set w \<Longrightarrow> dquote \<notin> set w \<Longrightarrow> no_sep None s"
  by (induction w) auto

lemma strip_first_no_sep:
  "strip_first ws s = Some r \<Longrightarrow> set ws \<subseteq> set space_seqs \<Longrightarrow> no_sep None s \<Longrightarrow> no_sep None r"
proof (induction ws)
  case Nil
  then show ?case by simp
next
  case (Cons w ws)
  show ?case
  proof (cases "w \<noteq> [] \<and> prefix w s")
    case True
    then obtain t where t: "s = w @ t" by (auto simp: prefix_def)
    with True Cons.prems(1) have "r = t" by simp
    moreover have "no_sep None t"
      using no_sep_drop_plain[of w t] Cons.prems white_no_quote[of w] t by simp
    ultimately show ?thesis by simp
  next
    case False
    with Cons show ?thesis by simp
  qed
qed

lemma strip_all_no_sep: "no_sep None s \<Longrightarrow> no_sep None (strip_all space_seqs s)"
proof (induction "space_seqs" s rule: strip_all.induct)
  case (1 s)
  show ?case
  proof (cases "strip_first space_seqs s")
    case None
    then show ?thesis using 1 by (simp add: strip_all_None)
  next
    case (Some r)
    have "no_sep None r" using strip_first_no_sep[OF Some] 1(2) by simp
    then show ?thesis using 1(1)[OF Some] Some by (simp add: strip_all.simps[of _ s])
  qed
qed

lemma no_sep_trim: "no_sep None s \<Longrightarrow> no_sep None (trim_space s)"
proof -
  assume "no_sep None s"
  then have "no_sep None (trim_left_space s)"
    by (simp add: trim_left_space_def strip_all_no_sep)
  moreover obtain b where "trim_left_space s = trim_space s @ b"
    using trim_right_space_prefix[of "trim_left_space s"] by (auto simp: prefix_def trim_space_def)
  ultimately show ?thesis by (metis no_sep_append)
qed

lemma flush_sub_member:
  "sub \<in> set (flush_sub seg) \<longleftrightarrow> sub \<noteq> [] \<and> sub = trim_space seg"
  by (auto simp: flush_sub_def Let_def)

lemma split_scan_pieces:
  "no_sep None seg \<Longrightarrow> quote_after None seg = q \<Longrightarrow> sub \<in> set (split_scan q seg cs) \<Longrightarrow>
     sub \<noteq> [] \<and> trim_space sub = sub \<and> no_sep None sub"
proof (induction q seg cs rule: split_scan.induct)
  case (1 q seg)
  then show ?case by (auto simp: flush_sub_member no_sep_trim)
next
  case (2 seg c cs)
  show ?case
  proof (cases "c \<in> set sep_chars")
    case True
    then have nq: "c \<noteq> squote" "c \<noteq> dquote" by (auto simp: sep_chars_def)
    from 2 True nq show ?thesis
      by (auto simp: flush_sub_member no_sep_trim)
  next
    case False
    with 2 show ?thesis
      by (auto simp: quote_after_snoc no_sep_append split: if_splits)
  qed
next
  case (3 qc seg c cs)
  then show ?case
    by (auto simp: quote_after_snoc no_sep_append split: if_splits)
qed

lemma split_compound_piece:
  assumes "sub \<in> set (split_compound cmd)"
  shows "sub \<noteq> []" and "trim_space sub = sub" and "no_sep None sub"
  using split_scan_pieces[of "[]" None sub cmd] assms by (simp_all add: split_compound_def)

lemma split_compound_single:
  assumes "sub \<in> set (split_compound cmd)"
  shows "split_compound sub = [sub]"
proof -
  from split_compound_piece[OF assms] have "split_scan None [] sub = flush_sub sub"
    by (simp add: split_scan_no_sep)
  with split_compound_piece[OF assms] show ?thesis
    by (simp add: split_compound_def flush_sub_def)
qed

section \<open>Parsing: canonical form\<close>

definition print_rule :: "rule \<Rightarrow> string" where
  "print_rule r = (if rule_pattern r = [] then rule_tool r
                   else rule_tool r @ ''('' @ rule_pattern r @ '')'')"

definition canonical_rule :: "rule \<Rightarrow> bool" where
  "canonical_rule r =
     (valid_tool_name (rule_tool r) \<and> rule_effect r = EffectNone \<and>
      (rule_pattern r = [] \<or>
       \<not> contains_any (rule_pattern r) ''()'' \<and> trim_space (rule_pattern r) \<noteq> [] \<and>
       \<not> has_suffix (rule_pattern r) '':*''))"

lemma tool_char_plain: "tool_char c \<Longrightarrow> plain_char c"
  by (auto simp: tool_char_def plain_char_def ascii_space_def)

lemma tool_char_no_paren: "tool_char c \<Longrightarrow> c \<noteq> CHR ''('' \<and> c \<noteq> CHR '')''"
  by (auto simp: tool_char_def)

lemma paren_plain: "plain_char (CHR '')'')" "plain_char (CHR ''*'')"
  by (simp_all add: plain_char_def ascii_space_def)

lemma valid_tool_name_no_paren:
  "valid_tool_name t \<Longrightarrow> CHR ''('' \<notin> set t \<and> CHR '')'' \<notin> set t"
  by (auto simp: valid_tool_name_def list_all_iff dest: tool_char_no_paren)

lemma valid_tool_name_plain:
  "valid_tool_name t \<Longrightarrow> t \<noteq> [] \<and> plain_char (hd t) \<and> plain_char (last t)"
  by (auto simp: valid_tool_name_def list_all_iff tool_char_plain)

lemma cut_suffix_colon_star:
  "rule_pattern r = [] \<or> \<not> has_suffix (rule_pattern r) '':*'' \<Longrightarrow>
     cut_suffix (rule_pattern r) '':*'' = None"
  by (auto simp: cut_suffix_None has_suffix_def)

lemma parse_print_canonical:
  assumes "canonical_rule r"
  shows "parse_rule (print_rule r) = Ok r"
proof (cases "rule_pattern r = []")
  case True
  have tool: "valid_tool_name (rule_tool r)" using assms by (simp add: canonical_rule_def)
  have "trim_space (rule_tool r) = rule_tool r"
    using valid_tool_name_plain[OF tool] by (intro trim_space_plain) auto
  moreover have "str_index (rule_tool r) ''('' = None"
    using valid_tool_name_no_paren[OF tool] by (simp add: str_index_single)
  ultimately show ?thesis
    using True tool assms valid_tool_name_no_paren[OF tool] valid_tool_name_plain[OF tool]
    by (auto simp: parse_rule_def print_rule_def canonical_rule_def cut_suffix_def has_suffix_def)
next
  case False
  let ?s = "rule_tool r @ ''('' @ rule_pattern r @ '')''"
  have tool: "valid_tool_name (rule_tool r)" using assms by (simp add: canonical_rule_def)
  have trim: "trim_space ?s = ?s"
    using valid_tool_name_plain[OF tool] paren_plain by (intro trim_space_plain) auto
  have idx: "str_index ?s ''('' = Some (length (rule_tool r))"
    using valid_tool_name_no_paren[OF tool]
      str_index_first[of "CHR ''(''" "rule_tool r" "rule_pattern r @ '')''"] by simp
  have suf: "has_suffix ?s '')''"
    using has_suffix_append[of "rule_tool r @ ''('' @ rule_pattern r" "'')''"] by simp
  have noparen: "\<not> contains_any (rule_tool r) ''()''"
    using valid_tool_name_no_paren[OF tool] by (simp add: contains_any_iff)
  show ?thesis
    using False trim idx suf noparen tool assms
    by (cases "cut_suffix (rule_pattern r) '':*''")
       (auto simp: parse_rule_def print_rule_def canonical_rule_def cut_suffix_Some)
qed

lemma parse_rule_canonical:
  assumes "parse_rule line = Ok r"
  shows "canonical_rule r"
proof -
  have blank: "trim_space (base @ '' *'') \<noteq> []" for base
    using trim_space_nonempty[of "CHR ''*''" "base @ '' *''"] paren_plain by simp
  have suffix_star: "\<not> has_suffix (base @ '' *'') '':*''" for base
    by (simp add: has_suffix_def suffix_def)
  have parens: "\<not> contains_any (base @ '':*'') ''()'' \<Longrightarrow> \<not> contains_any (base @ '' *'') ''()''" for base
    by (auto simp: contains_any_iff)
  from assms show ?thesis
    by (auto simp: parse_rule_def canonical_rule_def Let_def cut_suffix_None cut_suffix_Some
        blank suffix_star parens split: if_splits option.splits sum.splits prod.splits)
qed

section \<open>The lists of a rule set\<close>

lemma parse_list_rules:
  "fst (parse_list lines eff ws) =
     concat (map (\<lambda>l. case place_line eff l of Ok r \<Rightarrow> [r] | Fail _ \<Rightarrow> []) lines)"
  by (induction lines arbitrary: ws) (auto simp: split_beta split: sum.splits)

lemma parse_list_warnings:
  "snd (parse_list lines eff ws) =
     ws @ concat (map (\<lambda>l. case place_line eff l of
                          Ok r \<Rightarrow> [] | Fail why \<Rightarrow> [\<lparr>warn_rule = l, warn_why = why\<rparr>]) lines)"
  by (induction lines arbitrary: ws) (auto simp: split_beta split: sum.splits)

lemma parse_list_accounts:
  "length (fst (parse_list lines eff ws)) + length (snd (parse_list lines eff ws)) =
     length lines + length ws"
  by (induction lines arbitrary: ws) (auto simp: split_beta split: sum.splits)

lemma parse_list_member:
  "r \<in> set (fst (parse_list lines eff ws)) \<longleftrightarrow> (\<exists>l\<in>set lines. place_line eff l = Ok r)"
  by (auto simp: parse_list_rules split: sum.splits) metis

lemma place_line_Ok:
  assumes "place_line eff line = Ok r"
  shows "rule_effect r = eff" and "\<not> mid_star (rule_tool r)"
    and "eff = EffectAllow \<Longrightarrow> \<not> unanchored_allow_glob (rule_tool r)"
    and "valid_tool_name (rule_tool r)"
proof -
  obtain r0 where r0: "parse_rule line = Ok r0" "r = r0\<lparr>rule_effect := eff\<rparr>"
    and ms: "\<not> mid_star (rule_tool r0)"
    and un: "eff = EffectAllow \<Longrightarrow> \<not> unanchored_allow_glob (rule_tool r0)"
    using assms by (auto simp: place_line_def split: sum.splits if_splits)
  then show "rule_effect r = eff" "\<not> mid_star (rule_tool r)"
    "eff = EffectAllow \<Longrightarrow> \<not> unanchored_allow_glob (rule_tool r)" by auto
  from parse_rule_canonical[OF r0(1)] r0(2) show "valid_tool_name (rule_tool r)"
    by (simp add: canonical_rule_def)
qed

lemma new_rule_set_lists:
  "rs_deny (fst (new_rule_set d q a)) = fst (parse_list d EffectDeny [])"
  "rs_ask (fst (new_rule_set d q a)) = fst (parse_list q EffectAsk [])"
  "rs_allow (fst (new_rule_set d q a)) = fst (parse_list a EffectAllow [])"
  by (simp_all add: new_rule_set_def Let_def parse_list_rules split: prod.splits)
     (metis fst_conv parse_list_rules)+

lemma anchored_glob_prefix:
  assumes "\<not> unanchored_allow_glob tool" and "cut_suffix tool ''*'' = Some base"
    and "\<not> mid_star tool"
  shows "has_prefix base mcp_prefix"
proof -
  from assms(2) have tool: "tool = base @ ''*''" by (simp add: cut_suffix_Some)
  have "CHR ''*'' \<in> set tool" using tool by simp
  then obtain i where i: "str_index tool ''*'' = Some i"
    using str_index_single[of tool "CHR ''*''"] by auto
  with assms(3) have "i = length base" using tool by (simp add: mid_star_def)
  with i tool have "cut tool ''*'' = Some (base, [])" by (simp add: cut_def)
  with assms(1) show ?thesis by (simp add: unanchored_allow_glob_def)
qed

lemma allow_rule_scope:
  assumes "r \<in> set (rs_allow (fst (new_rule_set d q a)))" and "matches_tool r name"
  shows "name = rule_tool r \<or> has_prefix (rule_tool r) mcp_prefix \<and> has_prefix name mcp_prefix"
proof -
  obtain line where place: "place_line EffectAllow line = Ok r"
    using assms(1) by (auto simp: new_rule_set_lists parse_list_member)
  show ?thesis
  proof (cases "cut_suffix (rule_tool r) ''*''")
    case None
    with assms(2) show ?thesis
      by (auto simp: matches_tool_def has_prefix_def prefix_def split: if_splits)
  next
    case (Some base)
    then have "has_prefix base mcp_prefix"
      using anchored_glob_prefix place_line_Ok[OF place] by blast
    moreover from Some assms(2) have "has_prefix name base" by (simp add: matches_tool_def)
    moreover from Some have "rule_tool r = base @ ''*''" by (simp add: cut_suffix_Some)
    ultimately show ?thesis by (auto simp: has_prefix_def prefix_def)
  qed
qed

section \<open>MCP names\<close>

lemma split_mcp_name_join:
  "split_mcp_name name = Some (server, tool) \<Longrightarrow> mcp_name server tool = name"
  by (auto simp: split_mcp_name_def mcp_name_def cut_prefix_Some split: option.splits if_splits
      dest!: cut_Some_append)

section \<open>Backslash escapes outside the scan\<close>

text \<open>
  A shell takes the byte after a backslash literally, outside quotes and inside double quotes;
  \<^verbatim>\<open>hasSubstitution\<close> does so too. The split of the source keeps no such state. The
  reference scan below differs from \<open>split_scan\<close> only in the two backslash cases.
\<close>

function shell_scan :: "char option \<Rightarrow> string \<Rightarrow> string \<Rightarrow> string list" where
  "shell_scan q seg [] = flush_sub seg"
| "shell_scan None seg (c # cs) =
     (if c = backslash then shell_scan None (seg @ c # take 1 cs) (drop 1 cs)
      else if c = squote \<or> c = dquote then shell_scan (Some c) (seg @ [c]) cs
      else if 0 < separator_len (c # cs)
      then flush_sub seg @ shell_scan None [] (drop (separator_len (c # cs) - 1) cs)
      else shell_scan None (seg @ [c]) cs)"
| "shell_scan (Some qc) seg (c # cs) =
     (if qc = dquote \<and> c = backslash then shell_scan (Some qc) (seg @ c # take 1 cs) (drop 1 cs)
      else shell_scan (if c = qc then None else Some qc) (seg @ [c]) cs)"
  by pat_completeness auto
termination
  by (relation "measure (\<lambda>(q, seg, cs). length cs)") auto

definition shell_commands :: "string \<Rightarrow> string list" where
  "shell_commands cmd = shell_scan None [] cmd"

lemma split_scan_shell: "backslash \<notin> set cs \<Longrightarrow> shell_scan q seg cs = split_scan q seg cs"
proof (induction q seg cs rule: split_scan.induct)
  case (2 seg c cs)
  then have "backslash \<notin> set (drop (separator_len (c # cs) - 1) cs)"
    by (auto dest: in_set_dropD)
  with 2 show ?case by auto
qed auto

section \<open>Properties\<close>

definition git_rules :: rule_set where
  "git_rules = fst (new_rule_set [''Bash(rm *)''] [] [''Bash(git *)'', ''Bash(echo:*)''])"



text \<open>Deny wins: whatever the ask and allow lists hold, a call with a subcommand that some deny
  rule matches gets the deny verdict, and no other call does.\<close>

theorem deny_beats_everything:
  "evaluate rs tool arg = VerdictDeny \<longleftrightarrow>
     list_ex (\<lambda>sub. some_rule (rs_deny rs) tool sub) (subjects tool arg)"
  by (simp add: evaluate_Deny list_ex_iff)

text \<open>Every piece of the compound split is one command: it is not empty, carries no outer white
  space, and splitting it again yields just itself, so no separator outside quotes is left in a
  string that is matched against a rule.\<close>

theorem split_pieces_are_single:
  assumes "sub \<in> set (split_compound cmd)"
  shows "sub \<noteq> [] \<and> trim_space sub = sub \<and> split_compound sub = [sub]"
  using split_compound_piece[OF assms] split_compound_single[OF assms] by simp

theorem split_pieces_are_single_witness:
  "split_compound ''a || b'' = [''a'', ''b''] \<and> split_compound ''b'' = [''b'']"
proof -
  have s: "split_compound ''a || b'' = [''a'', ''b'']" by code_simp
  then have "''b'' \<in> set (split_compound ''a || b'')" by simp
  from split_pieces_are_single[OF this] s show ?thesis by simp
qed

text \<open>Parsing is idempotent through printing: a line that parses gives a canonical rule (a
  valid tool name, a pattern without parentheses that is not blank and does not end in colon
  star), and the printed form of that rule parses to the same rule.\<close>

theorem parse_print_roundtrip:
  assumes "parse_rule line = Ok r"
  shows "canonical_rule r \<and> parse_rule (print_rule r) = Ok r"
  using parse_rule_canonical[OF assms] parse_print_canonical by blast

theorem parse_print_roundtrip_witness:
  "parse_rule '' Bash(git:*) '' =
     Ok \<lparr>rule_tool = ''Bash'', rule_pattern = ''git *'', rule_effect = EffectNone\<rparr> \<and>
   parse_rule ''Bash(git *)'' =
     Ok \<lparr>rule_tool = ''Bash'', rule_pattern = ''git *'', rule_effect = EffectNone\<rparr>"
proof -
  let ?r = "\<lparr>rule_tool = ''Bash'', rule_pattern = ''git *'', rule_effect = EffectNone\<rparr>"
  have p: "parse_rule '' Bash(git:*) '' = Ok ?r" by code_simp
  from parse_print_roundtrip[OF p] have "parse_rule (print_rule ?r) = Ok ?r" by simp
  with p show ?thesis by (simp add: print_rule_def)
qed

text \<open>Building a rule set loses no line silently: over the three lists together, every
  line becomes either one rule or one warning; and an accepted allow rule can match only its own
  tool name or, when it names an MCP tool, names of the MCP namespace, so a star cannot open
  an allow rule to the built-in tools.\<close>

theorem rule_set_accounts_and_anchors:
  assumes "new_rule_set deny ask allow = (rs, ws)"
  shows "length (rs_deny rs) + length (rs_ask rs) + length (rs_allow rs) + length ws =
           length deny + length ask + length allow \<and>
         (\<forall>r\<in>set (rs_allow rs). \<forall>name. matches_tool r name \<longrightarrow>
           name = rule_tool r \<or> has_prefix (rule_tool r) mcp_prefix \<and> has_prefix name mcp_prefix)"
proof -
  let ?w1 = "snd (parse_list deny EffectDeny [])"
  let ?w2 = "snd (parse_list ask EffectAsk ?w1)"
  have ws: "ws = snd (parse_list allow EffectAllow ?w2)"
    and rs: "rs = fst (new_rule_set deny ask allow)"
    using assms by (auto simp: new_rule_set_def split_beta Let_def)
  have "length (rs_deny rs) + length (rs_ask rs) + length (rs_allow rs) + length ws =
           length deny + length ask + length allow"
    using ws rs parse_list_accounts[of deny EffectDeny "[]"]
      parse_list_accounts[of ask EffectAsk ?w1] parse_list_accounts[of allow EffectAllow ?w2]
    by (simp add: new_rule_set_lists parse_list_rules)
  then show ?thesis using allow_rule_scope rs by blast
qed

theorem rule_set_accounts_and_anchors_witness:
  "\<exists>rs ws. new_rule_set [''Bash(rm *)''] [] [''*'', ''mcp__gh__get_*'', ''Write''] = (rs, ws) \<and>
     map rule_tool (rs_allow rs) = [''mcp__gh__get_*'', ''Write''] \<and> length ws = 1"
proof -
  let ?n = "new_rule_set [''Bash(rm *)''] [] [''*'', ''mcp__gh__get_*'', ''Write'']"
  have e: "?n = (fst ?n, snd ?n)" by simp
  have "map rule_tool (rs_allow (fst ?n)) = [''mcp__gh__get_*'', ''Write'']"
    and "length (rs_deny (fst ?n)) = 1" "length (rs_ask (fst ?n)) = 0"
    and "length (rs_allow (fst ?n)) = 2"
    by code_simp+
  moreover from this rule_set_accounts_and_anchors[OF e] have "length (snd ?n) = 1" by simp
  ultimately show ?thesis
    by (intro exI[of _ "fst ?n"] exI[of _ "snd ?n"] conjI) (rule e)
qed

text \<open>On commands without a backslash the compound split is the split of a shell that honours
  backslash escapes.\<close>

theorem split_is_shell_split_without_escapes:
  assumes "backslash \<notin> set cmd"
  shows "split_compound cmd = shell_commands cmd"
  using assms by (simp add: shell_commands_def split_compound_def split_scan_shell)

theorem split_is_shell_split_without_escapes_witness:
  "backslash \<notin> set ''ls; pwd'' \<and> shell_commands ''ls; pwd'' = [''ls'', ''pwd'']"
proof -
  have "backslash \<notin> set ''ls; pwd''" by simp
  moreover have "split_compound ''ls; pwd'' = [''ls'', ''pwd'']" by code_simp
  ultimately show ?thesis using split_is_shell_split_without_escapes[of "''ls; pwd''"] by metis
qed

text \<open>With an escaped quote the two splits differ: the source sees an open quote where the shell
  sees a literal byte, so it does not split there, and an allow rule for the first command
  allows a line whose second command a deny rule matches.\<close>

theorem escaped_quote_hides_separator:
  "shell_commands (''echo '' @ [backslash, dquote] @ '' && rm x'') =
     [''echo '' @ [backslash, dquote], ''rm x''] \<and>
   split_compound (''echo '' @ [backslash, dquote] @ '' && rm x'') =
     [''echo '' @ [backslash, dquote] @ '' && rm x''] \<and>
   evaluate git_rules ''Bash'' ''rm x'' = VerdictDeny \<and>
   evaluate git_rules ''Bash'' (''echo '' @ [backslash, dquote] @ '' && rm x'') = VerdictAllow"
  by (intro conjI; code_simp)

end
