(* ===== verification/PermStore.thy ===== *)
theory PermStore
  imports PermRules "HOL-Library.Word"
begin

text \<open>
  The permission store, \<^verbatim>\<open>internal/perm/store.go\<close>: the file \<^verbatim>\<open>permissions.yaml\<close>, the
  lists held in memory, and the two writes a dialog makes. The YAML codec (gopkg.in/yaml.v3) is a pair of
  functions; a file-system step may fail where the code checks for it, and a failed write may leave
  any temporary file behind. Every operation runs under the store's mutex.
\<close>

unbundle bit_operations_syntax

section \<open>Data\<close>

record envelope =
  ev_deny :: "string list"
  ev_ask :: "string list"
  ev_allow :: "string list"

definition empty_envelope :: envelope where
  "empty_envelope = \<lparr>ev_deny = [], ev_ask = [], ev_allow = []\<rparr>"

record perm_store =
  st_lists :: envelope
  st_warns :: "(string \<times> rule_error) list"

type_synonym file_mode = "12 word"

record 'b disk =
  dk_file :: "'b list option"
  dk_mode :: file_mode
  dk_dir_mode :: file_mode
  dk_tmp :: "'b list option"
  dk_quarantine :: "'b list option"

datatype 'b save_fault = SaveOk | MarshalFails | WriteFails "'b list option" | ChmodFails "'b list option"
  | RenameFails "'b list option"
  \<comment> \<open>what a failure leaves of the temporary file: the removal after it may fail as well\<close>

datatype quarantine_fault = MoveOk | RemoveFails | MoveFails

datatype store_err = ErrNotSimple string | ErrCorrupt | ErrSave | ErrMkdir | ErrStat | ErrRead | ErrQuarantine

definition file_perm_owner :: file_mode where "file_perm_owner = 0x180"
definition dir_perm :: file_mode where "dir_perm = 0x1E8"

section \<open>Reading and writing the file\<close>

definition save :: "(envelope \<Rightarrow> 'b list) \<Rightarrow> 'b save_fault \<Rightarrow> envelope \<Rightarrow> 'b disk \<Rightarrow> 'b disk \<times> store_err option" where
  "save render fault env d =
     (case fault of
        SaveOk \<Rightarrow> (d\<lparr>dk_file := Some (render env), dk_mode := file_perm_owner, dk_tmp := None\<rparr>, None)
      | MarshalFails \<Rightarrow> (d, Some ErrSave)
      | WriteFails t \<Rightarrow> (d\<lparr>dk_tmp := t\<rparr>, Some ErrSave)
      | ChmodFails t \<Rightarrow> (d\<lparr>dk_tmp := t\<rparr>, Some ErrSave)
      | RenameFails t \<Rightarrow> (d\<lparr>dk_tmp := t\<rparr>, Some ErrSave))"

fun validated :: "string list \<Rightarrow> string list \<times> (string \<times> rule_error) list" where
  "validated [] = ([], [])"
| "validated (line # lines) =
     (let l = trim_space line; (out, ws) = validated lines
      in case parse_rule l of
           Fail e \<Rightarrow> (out, (l, e) # ws)
         | Ok _ \<Rightarrow> (l # out, ws))"

definition load :: "('b list \<Rightarrow> envelope option) \<Rightarrow> 'b disk \<Rightarrow> (store_err, perm_store) result" where
  "load parse d =
     (case dk_file d of
        None \<Rightarrow> Fail ErrRead
      | Some raw \<Rightarrow>
          (case (if raw = [] then Some empty_envelope else parse raw) of
             None \<Rightarrow> Fail ErrCorrupt
           | Some env \<Rightarrow>
               (let (dn, w1) = validated (ev_deny env); (ak, w2) = validated (ev_ask env);
                    (al, w3) = validated (ev_allow env)
                in Ok \<lparr>st_lists = \<lparr>ev_deny = dn, ev_ask = ak, ev_allow = al\<rparr>, st_warns = w1 @ w2 @ w3\<rparr>)))"

definition tighten_perm :: "bool \<Rightarrow> file_mode \<Rightarrow> file_mode \<Rightarrow> file_mode" where
  \<comment> \<open>\<open>ok\<close>: stat and chmod succeed\<close>
  "tighten_perm ok want mode = (if mode AND NOT want = 0 then mode else if ok then want else mode)"

record 'b open_faults =
  of_mkdir :: bool
  of_stat :: bool
  of_read :: bool
  of_chmod :: bool
  of_save :: "'b save_fault"

definition open_store ::
    "(envelope \<Rightarrow> 'b list) \<Rightarrow> ('b list \<Rightarrow> envelope option) \<Rightarrow> 'b open_faults \<Rightarrow> 'b disk \<Rightarrow> (store_err, perm_store) result \<times> 'b disk" where
  "open_store render parse f d =
     (if of_mkdir f then (Fail ErrMkdir, d)
      else
        (let d1 = d\<lparr>dk_dir_mode := tighten_perm (\<not> of_chmod f) dir_perm (dk_dir_mode d)\<rparr>
         in if of_stat f then (Fail ErrStat, d1)
            else if dk_file d1 = None then
              (case save render (of_save f) empty_envelope d1 of
                 (d2, Some e) \<Rightarrow> (Fail e, d2)
               | (d2, None) \<Rightarrow> (Ok \<lparr>st_lists = empty_envelope, st_warns = []\<rparr>, d2))
            else if of_read f then (Fail ErrRead, d1)
            else (case load parse d1 of
                    Fail e \<Rightarrow> (Fail e, d1)
                  | Ok s \<Rightarrow> (Ok s, d1\<lparr>dk_mode := tighten_perm (\<not> of_chmod f) file_perm_owner (dk_mode d1)\<rparr>))))"

definition open_repaired ::
    "(envelope \<Rightarrow> 'b list) \<Rightarrow> ('b list \<Rightarrow> envelope option) \<Rightarrow> 'b open_faults \<Rightarrow> quarantine_fault \<Rightarrow> 'b open_faults \<Rightarrow>
     'b disk \<Rightarrow> (store_err, perm_store) result \<times> 'b disk" where
  "open_repaired render parse f q f' d =
     (case open_store render parse f d of
        (Fail ErrCorrupt, d1) \<Rightarrow>
          (case q of
             RemoveFails \<Rightarrow> (Fail ErrQuarantine, d1)
           | MoveFails \<Rightarrow> (Fail ErrQuarantine, d1\<lparr>dk_quarantine := None\<rparr>)
           | MoveOk \<Rightarrow> open_store render parse f' (d1\<lparr>dk_quarantine := dk_file d1, dk_file := None\<rparr>))
      | r \<Rightarrow> r)"

definition store_rules :: "perm_store \<Rightarrow> rule_set" where
  "store_rules s = fst (new_rule_set (ev_deny (st_lists s)) (ev_ask (st_lists s)) (ev_allow (st_lists s)))"

definition store_warnings :: "perm_store \<Rightarrow> (string \<times> rule_error) list" where
  "store_warnings s = st_warns s"

section \<open>The writes of a dialog\<close>

definition simple_char :: "char \<Rightarrow> bool" where
  "simple_char c = (c \<in> set ''abcdefghijklmnopqrstuvwxyzABCDEFGHIJKLMNOPQRSTUVWXYZ0123456789_'')"

definition valid_simple_entry :: "string \<Rightarrow> bool" where
  "valid_simple_entry name = (name \<noteq> [] \<and> list_all simple_char name)"

definition persist ::
    "(envelope \<Rightarrow> 'b list) \<Rightarrow> (envelope \<Rightarrow> string list) \<Rightarrow> (string list \<Rightarrow> envelope \<Rightarrow> envelope) \<Rightarrow> 'b save_fault \<Rightarrow> string \<Rightarrow>
     perm_store \<Rightarrow> 'b disk \<Rightarrow> (perm_store \<times> 'b disk) \<times> store_err option" where
  \<comment> \<open>the list is given by its selector and its update\<close>
  "persist render get put fault name s d =
     (if \<not> valid_simple_entry name then ((s, d), Some (ErrNotSimple name))
      else if name \<in> set (get (st_lists s)) then ((s, d), None)
      else
        (let env = put (get (st_lists s) @ [name]) (st_lists s)
         in case save render fault env d of
              (d', Some e) \<Rightarrow> ((s, d'), Some e)
            | (d', None) \<Rightarrow> ((s\<lparr>st_lists := env\<rparr>, d'), None)))"

definition allow_tool where
  "allow_tool render fault name s d = persist render ev_allow (\<lambda>xs. ev_allow_update (\<lambda>_. xs)) fault name s d"

definition forbid_tool where
  "forbid_tool render fault name s d = persist render ev_deny (\<lambda>xs. ev_deny_update (\<lambda>_. xs)) fault name s d"

datatype 'b store_op = AllowTool string "'b save_fault" | ForbidTool string "'b save_fault"

fun store_op_step :: "(envelope \<Rightarrow> 'b list) \<Rightarrow> perm_store \<times> 'b disk \<Rightarrow> 'b store_op \<Rightarrow> perm_store \<times> 'b disk" where
  "store_op_step render (s, d) (AllowTool name f) = fst (allow_tool render f name s d)"
| "store_op_step render (s, d) (ForbidTool name f) = fst (forbid_tool render f name s d)"

definition run_store :: "(envelope \<Rightarrow> 'b list) \<Rightarrow> 'b store_op list \<Rightarrow> perm_store \<times> 'b disk \<Rightarrow> perm_store \<times> 'b disk" where
  "run_store render ops sd = foldl (store_op_step render) sd ops"

section \<open>The file and the memory agree\<close>

definition codec :: "(envelope \<Rightarrow> 'b list) \<Rightarrow> ('b list \<Rightarrow> envelope option) \<Rightarrow> bool" where
  \<comment> \<open>decoding an encoded envelope gives it back, and no encoding is empty\<close>
  "codec render parse = (\<forall>e. render e \<noteq> [] \<and> parse (render e) = Some e)"

definition rule_line :: "string \<Rightarrow> bool" where
  "rule_line l = (trim_space l = l \<and> (\<exists>r. parse_rule l = Ok r))"

definition clean :: "envelope \<Rightarrow> bool" where
  "clean e = (list_all rule_line (ev_deny e) \<and> list_all rule_line (ev_ask e) \<and> list_all rule_line (ev_allow e))"

definition synced :: "('b list \<Rightarrow> envelope option) \<Rightarrow> perm_store \<times> 'b disk \<Rightarrow> bool" where
  \<comment> \<open>the lists are clean and a reload of the file gives them\<close>
  "synced parse sd =
     (clean (st_lists (fst sd)) \<and> (\<exists>s'. load parse (snd sd) = Ok s' \<and> st_lists s' = st_lists (fst sd)))"

lemma validated_lines: "list_all rule_line (fst (validated lines))"
  by (induction lines) (auto simp: rule_line_def Let_def split_beta split: sum.splits)

lemma validated_clean: "list_all rule_line lines \<Longrightarrow> validated lines = (lines, [])"
  by (induction lines) (auto simp: rule_line_def Let_def split: sum.splits)

lemma load_clean: "load parse d = Ok s \<Longrightarrow> clean (st_lists s)"
  using validated_lines by (auto simp: load_def clean_def Let_def split_beta split: option.splits if_splits)

lemma load_rendered:
  assumes "codec render parse" "clean env" "dk_file d = Some (render env)"
  shows "load parse d = Ok \<lparr>st_lists = env, st_warns = []\<rparr>"
  using assms by (simp add: load_def codec_def clean_def validated_clean)

lemma simple_tool_char: "simple_char c \<Longrightarrow> tool_char c \<and> c \<noteq> CHR ''*''"
  by (auto simp: simple_char_def tool_char_def)

lemma simple_parses:
  assumes "valid_simple_entry name"
  shows "parse_rule name = Ok \<lparr>rule_tool = name, rule_pattern = [], rule_effect = EffectNone\<rparr>" "trim_space name = name"
    "CHR ''*'' \<notin> set name"
proof -
  have v: "valid_tool_name name" "CHR ''*'' \<notin> set name"
    using assms simple_tool_char by (auto simp: valid_simple_entry_def valid_tool_name_def list_all_iff)
  then show "CHR ''*'' \<notin> set name" by blast
  have "canonical_rule \<lparr>rule_tool = name, rule_pattern = [], rule_effect = EffectNone\<rparr>"
    using v by (simp add: canonical_rule_def)
  from parse_print_canonical[OF this]
  show "parse_rule name = Ok \<lparr>rule_tool = name, rule_pattern = [], rule_effect = EffectNone\<rparr>"
    by (simp add: print_rule_def)
  show "trim_space name = name" using valid_tool_name_plain[OF v(1)] by (intro trim_space_plain) auto
qed

lemma simple_rule_line: "valid_simple_entry name \<Longrightarrow> rule_line name"
  using simple_parses by (auto simp: rule_line_def)

lemma save_cases:
  "save render f env d = (d', None) \<Longrightarrow> dk_file d' = Some (render env)"
  "save render f env d = (d', Some e) \<Longrightarrow> dk_file d' = dk_file d"
  by (auto simp: save_def split: save_fault.splits)

lemma load_file: "dk_file d' = dk_file d \<Longrightarrow> load parse d' = load parse d"
  by (simp add: load_def)

lemma persist_synced:
  assumes "codec render parse" "synced parse (s, d)"
    and "clean (put (get (st_lists s) @ [name]) (st_lists s)) \<or> \<not> valid_simple_entry name"
  shows "synced parse (fst (persist render get put f name s d))"
proof (cases "valid_simple_entry name \<and> name \<notin> set (get (st_lists s))")
  case True
  let ?env = "put (get (st_lists s) @ [name]) (st_lists s)"
  obtain d' e where sv: "save render f ?env d = (d', e)" by (rule prod.exhaust)
  show ?thesis
  proof (cases e)
    case None
    then have "load parse d' = Ok \<lparr>st_lists = ?env, st_warns = []\<rparr>"
      using load_rendered[OF assms(1)] save_cases(1) sv True assms(3) by blast
    with None True sv assms(3) show ?thesis by (simp add: persist_def synced_def)
  next
    case (Some x)
    then have "load parse d' = load parse d" using save_cases(2) sv load_file by blast
    with Some True sv assms(2) show ?thesis by (simp add: persist_def synced_def)
  qed
qed (use assms(2) in \<open>auto simp: persist_def\<close>)

lemma store_op_synced:
  assumes "codec render parse" "synced parse sd"
  shows "synced parse (store_op_step render sd op)"
proof -
  obtain s d where sd: "sd = (s, d)" by (rule prod.exhaust)
  have c: "clean (st_lists s)" using assms(2) by (simp add: sd synced_def)
  show ?thesis
  proof (cases op)
    case (AllowTool name f)
    have "clean (ev_allow_update (\<lambda>_. ev_allow (st_lists s) @ [name]) (st_lists s)) \<or> \<not> valid_simple_entry name"
      using c simple_rule_line by (auto simp: clean_def)
    then show ?thesis using persist_synced[OF assms(1)] assms(2) by (simp add: AllowTool sd allow_tool_def)
  next
    case (ForbidTool name f)
    have "clean (ev_deny_update (\<lambda>_. ev_deny (st_lists s) @ [name]) (st_lists s)) \<or> \<not> valid_simple_entry name"
      using c simple_rule_line by (auto simp: clean_def)
    then show ?thesis using persist_synced[OF assms(1)] assms(2) by (simp add: ForbidTool sd forbid_tool_def)
  qed
qed

lemma run_store_synced: "codec render parse \<Longrightarrow> synced parse sd \<Longrightarrow> synced parse (run_store render ops sd)"
  unfolding run_store_def by (induction ops arbitrary: sd) (simp_all add: store_op_synced)

lemma open_synced:
  assumes "codec render parse" "open_store render parse f d = (Ok s, d')"
  shows "synced parse (s, d')"
proof -
  have e: "clean empty_envelope" by (simp add: clean_def empty_envelope_def)
  show ?thesis
  proof (cases "dk_file d = None")
    case True
    then have "save render (of_save f) empty_envelope (d\<lparr>dk_dir_mode := tighten_perm (\<not> of_chmod f) dir_perm (dk_dir_mode d)\<rparr>) = (d', None)
        \<and> s = \<lparr>st_lists = empty_envelope, st_warns = []\<rparr>"
      using assms(2) by (auto simp: open_store_def Let_def split: if_splits prod.splits option.splits)
    then have s: "dk_file d' = Some (render empty_envelope)" "s = \<lparr>st_lists = empty_envelope, st_warns = []\<rparr>"
      using save_cases(1) by blast+
    show ?thesis using load_rendered[OF assms(1) e s(1)] e by (simp add: synced_def s(2))
  next
    case False
    let ?d1 = "d\<lparr>dk_dir_mode := tighten_perm (\<not> of_chmod f) dir_perm (dk_dir_mode d)\<rparr>"
    have l: "load parse ?d1 = Ok s" "dk_file d' = dk_file ?d1"
      using assms(2) False by (auto simp: open_store_def Let_def split: if_splits sum.splits)
    then show ?thesis using load_clean load_file[OF l(2)] by (auto simp: synced_def)
  qed
qed

section \<open>What the rules say of a simple entry\<close>

lemma simple_place: "valid_simple_entry name \<Longrightarrow>
    place_line EffectDeny name = Ok \<lparr>rule_tool = name, rule_pattern = [], rule_effect = EffectDeny\<rparr>"
proof -
  assume v: "valid_simple_entry name"
  have "str_index name ''*'' = None" using simple_parses(3)[OF v] by (simp only: str_index_single not_False_eq_True)
  then show ?thesis using simple_parses(1)[OF v] by (simp add: place_line_def mid_star_def)
qed

lemma simple_denies:
  assumes "valid_simple_entry name" "name \<in> set (ev_deny (st_lists s))"
  shows "evaluate (store_rules s) name arg = VerdictDeny"
proof -
  let ?r = "\<lparr>rule_tool = name, rule_pattern = [], rule_effect = EffectDeny\<rparr>"
  have "?r \<in> set (rs_deny (store_rules s))"
    using assms simple_place[OF assms(1)] by (auto simp: store_rules_def new_rule_set_lists parse_list_member)
  moreover have "\<not> has_suffix name ''*''"
    using simple_parses(3)[OF assms(1)] by (auto simp: has_suffix_def suffix_def)
  then have "rule_matches ?r name sub" for sub
    by (auto simp: rule_matches_def matches_tool_def cut_suffix_None[symmetric])
  ultimately have "some_rule (rs_deny (store_rules s)) name sub" for sub
    by (auto simp: some_rule_def)
  moreover have "hd (subjects name arg) \<in> set (subjects name arg)" by (rule hd_in_set) (auto simp: subjects_def)
  ultimately show ?thesis by (auto simp: evaluate_Deny)
qed

lemma persist_keeps_deny:
  "n \<in> set (ev_deny (st_lists (fst sd))) \<Longrightarrow> n \<in> set (ev_deny (st_lists (fst (store_op_step render sd op))))"
  by (cases sd; cases op)
     (auto simp: allow_tool_def forbid_tool_def persist_def Let_def split: prod.split option.split)

lemma run_store_keeps_deny:
  "n \<in> set (ev_deny (st_lists (fst sd))) \<Longrightarrow> n \<in> set (ev_deny (st_lists (fst (run_store render ops sd))))"
  unfolding run_store_def by (induction ops arbitrary: sd) (simp_all add: persist_keeps_deny)

lemma forbid_success:
  assumes "forbid_tool render f name s d = (sd, None)"
  shows "valid_simple_entry name" "name \<in> set (ev_deny (st_lists (fst sd)))"
  using assms by (auto simp: forbid_tool_def persist_def Let_def split: if_splits prod.splits option.splits)

section \<open>Properties\<close>


text \<open>C10. A reject-always click that was recorded holds for good: whatever dialog writes and faults come
after it, the store, and any store that reloads the file, denies every call of that tool.\<close>

theorem forbidden_tool_stays_denied:
  assumes "codec render parse" "synced parse (s, d)" "forbid_tool render f name s d = (sd, None)"
    and "run_store render ops sd = (s1, d1)"
  shows "evaluate (store_rules s1) name arg = VerdictDeny \<and>
    (\<exists>s2. load parse d1 = Ok s2 \<and> evaluate (store_rules s2) name arg = VerdictDeny)"
proof -
  note f = forbid_success[OF assms(3)]
  have "name \<in> set (ev_deny (st_lists (fst (run_store render ops sd))))" by (rule run_store_keeps_deny[OF f(2)])
  then have n: "name \<in> set (ev_deny (st_lists s1))" by (simp add: assms(4))
  have "synced parse (store_op_step render (s, d) (ForbidTool name f))" by (rule store_op_synced[OF assms(1,2)])
  then have "synced parse sd" using assms(3) by simp
  from run_store_synced[OF assms(1) this, of ops] have "synced parse (s1, d1)" by (simp add: assms(4))
  then obtain s2 where "load parse d1 = Ok s2" "st_lists s2 = st_lists s1" by (auto simp: synced_def)
  with simple_denies[OF f(1)] n show ?thesis by (auto simp: store_rules_def)
qed

definition sample_disk :: "envelope disk" where
  "sample_disk = \<lparr>dk_file = None, dk_mode = file_perm_owner, dk_dir_mode = dir_perm, dk_tmp = None, dk_quarantine = None\<rparr>"

definition no_faults :: "envelope open_faults" where
  "no_faults = \<lparr>of_mkdir = False, of_stat = False, of_read = False, of_chmod = False, of_save = SaveOk\<rparr>"

definition sample_render :: "envelope \<Rightarrow> envelope list" where
  "sample_render e = [e]"

definition sample_parse :: "envelope list \<Rightarrow> envelope option" where
  "sample_parse xs = (case xs of [e] \<Rightarrow> Some e | _ \<Rightarrow> None)"

definition sample_store :: perm_store where
  "sample_store = \<lparr>st_lists = empty_envelope, st_warns = []\<rparr>"

lemma sample_codec: "codec sample_render sample_parse"
  by (simp add: codec_def sample_render_def sample_parse_def)

lemma sample_open:
  "open_store sample_render sample_parse no_faults sample_disk = (Ok sample_store, sample_disk\<lparr>dk_file := Some [empty_envelope]\<rparr>)"
  by (simp add: open_store_def no_faults_def sample_disk_def save_def sample_store_def sample_render_def tighten_perm_def)


lemma sample_forbid:
  "forbid_tool sample_render SaveOk ''Shell'' sample_store (sample_disk\<lparr>dk_file := Some [empty_envelope]\<rparr>) =
    ((sample_store\<lparr>st_lists := empty_envelope\<lparr>ev_deny := [''Shell'']\<rparr>\<rparr>,
      sample_disk\<lparr>dk_file := Some [empty_envelope\<lparr>ev_deny := [''Shell'']\<rparr>]\<rparr>), None)"
  by (simp add: forbid_tool_def persist_def valid_simple_entry_def simple_char_def save_def sample_store_def empty_envelope_def
      sample_render_def sample_disk_def Let_def)

theorem forbidden_tool_stays_denied_witness:
  "evaluate (store_rules (fst (run_store sample_render [AllowTool ''Shell'' SaveOk]
      (sample_store\<lparr>st_lists := empty_envelope\<lparr>ev_deny := [''Shell'']\<rparr>\<rparr>,
       sample_disk\<lparr>dk_file := Some [empty_envelope\<lparr>ev_deny := [''Shell'']\<rparr>]\<rparr>)))) ''Shell'' ''rm -rf x'' = VerdictDeny"
  using conjunct1[OF forbidden_tool_stays_denied[OF sample_codec open_synced[OF sample_codec sample_open] sample_forbid
        prod.collapse[symmetric], of "[AllowTool ''Shell'' SaveOk]" "''rm -rf x''"]] .

end
