(* ===== verification/SteerQueue.thy ===== *)
theory SteerQueue
  imports Prelude "HOL-Library.Word" "HOL-Library.Multiset"
begin

text \<open>
  The steering queue of a session, \<^verbatim>\<open>kit/session/steerqueue.go\<close>: operator inputs that
  arrive while a turn runs, delivered in arrival order at the next model request or resolved as
  cancelled. Tickets are 64-bit and wrap. Every method tolerates a nil queue, so the receiver is
  an \<open>option\<close>. The mutex makes each method one step; \<^verbatim>\<open>CancelAll\<close> releases it between
  reading the highest ticket and cancelling, so it is two steps here as well.
\<close>

section \<open>State and operations\<close>

type_synonym u64 = "64 word"

record steer_item =
  si_ticket :: u64
  si_text :: string
  si_at :: int

record steer_queue =
  sq_items :: "steer_item list"
  sq_next :: u64
  sq_cutoff :: u64

definition new_steer_queue :: steer_queue where
  "new_steer_queue = \<lparr>sq_items = [], sq_next = 0, sq_cutoff = 0\<rparr>"

definition steer_enqueue ::
    "string \<Rightarrow> int \<Rightarrow> steer_queue option \<Rightarrow> steer_queue option \<times> u64" where
  "steer_enqueue inp now q = (case q of
      None \<Rightarrow> (None, 0)
    | Some s \<Rightarrow>
        (let n = sq_next s + 1
         in (Some (s\<lparr>sq_next := n,
                     sq_items := sq_items s @ [\<lparr>si_ticket = n, si_text = inp, si_at = now\<rparr>]\<rparr>), n)))"

definition steer_drain :: "steer_queue option \<Rightarrow> steer_queue option \<times> steer_item list" where
  "steer_drain q = (case q of
      None \<Rightarrow> (None, [])
    | Some s \<Rightarrow> if sq_items s = [] then (Some s, []) else (Some (s\<lparr>sq_items := []\<rparr>), sq_items s))"

definition cancel_through :: "u64 \<Rightarrow> steer_queue option \<Rightarrow> steer_queue option \<times> nat" where
  "cancel_through t q = (case q of
      None \<Rightarrow> (None, 0)
    | Some s \<Rightarrow>
        (Some (s\<lparr>sq_cutoff := (if sq_cutoff s < t then t else sq_cutoff s),
                 sq_items := filter (\<lambda>it. \<not> si_ticket it \<le> t) (sq_items s)\<rparr>),
         length (filter (\<lambda>it. si_ticket it \<le> t) (sq_items s))))"

definition highest_ticket :: "steer_queue option \<Rightarrow> u64" where
  \<comment> \<open>the first critical section of CancelAll\<close>
  "highest_ticket q = (case q of None \<Rightarrow> 0 | Some s \<Rightarrow> sq_next s)"

definition cancel_all :: "steer_queue option \<Rightarrow> steer_queue option \<times> nat" where
  \<comment> \<open>CancelAll when no other method runs between its two critical sections\<close>
  "cancel_all q = (case q of None \<Rightarrow> (None, 0) | Some _ \<Rightarrow> cancel_through (highest_ticket q) q)"

definition steer_pending :: "steer_queue option \<Rightarrow> nat" where
  "steer_pending q = (case q of None \<Rightarrow> 0 | Some s \<Rightarrow> length (sq_items s))"

lemmas steer_op_defs =
  steer_enqueue_def steer_drain_def cancel_through_def highest_ticket_def cancel_all_def
  steer_pending_def

section \<open>Runs\<close>

text \<open>
  A run is a sequence of method calls of any goroutines. The record keeps beside the queue what
  the callers received: the batches that drains returned, in order, and the items that the
  cancels removed.
\<close>

datatype steer_event = Enqueue string int | Drain | CancelThrough u64 | ReadHighest

record steer_run =
  sr_queue :: "steer_queue option"
  sr_enqueued :: "steer_item list"
  sr_delivered :: "steer_item list"
  sr_cancelled :: "steer_item list"
  sr_highest :: u64

definition new_steer_run :: "steer_run" where
  "new_steer_run = \<lparr>sr_queue = Some new_steer_queue, sr_enqueued = [], sr_delivered = [],
                    sr_cancelled = [], sr_highest = 0\<rparr>"

definition queued :: "steer_run \<Rightarrow> steer_item list" where
  "queued r = (case sr_queue r of None \<Rightarrow> [] | Some s \<Rightarrow> sq_items s)"

fun steer_step :: "steer_run \<Rightarrow> steer_event \<Rightarrow> steer_run" where
  "steer_step r (Enqueue inp now) =
     (let (q, n) = steer_enqueue inp now (sr_queue r)
      in r\<lparr>sr_queue := q,
           sr_enqueued := sr_enqueued r @
             (if sr_queue r = None then [] else [\<lparr>si_ticket = n, si_text = inp, si_at = now\<rparr>])\<rparr>)"
| "steer_step r Drain =
     (let (q, batch) = steer_drain (sr_queue r)
      in r\<lparr>sr_queue := q, sr_delivered := sr_delivered r @ batch\<rparr>)"
| "steer_step r (CancelThrough t) =
     r\<lparr>sr_queue := fst (cancel_through t (sr_queue r)),
       sr_cancelled := sr_cancelled r @ filter (\<lambda>it. si_ticket it \<le> t) (queued r)\<rparr>"
| "steer_step r ReadHighest = r\<lparr>sr_highest := highest_ticket (sr_queue r)\<rparr>"

definition steer_exec :: "steer_run \<Rightarrow> steer_event list \<Rightarrow> steer_run" where
  "steer_exec r es = foldl steer_step r es"

lemma steer_exec_simps [simp]:
  "steer_exec r [] = r"
  "steer_exec r (e # es) = steer_exec (steer_step r e) es"
  "steer_exec r (es @ es') = steer_exec (steer_exec r es) es'"
  by (simp_all add: steer_exec_def)

section \<open>Conservation\<close>

lemma steer_step_conserves:
  assumes "mset (sr_enqueued r) = mset (sr_delivered r) + mset (sr_cancelled r) + mset (queued r)"
  shows "mset (sr_enqueued (steer_step r e)) =
    mset (sr_delivered (steer_step r e)) + mset (sr_cancelled (steer_step r e)) +
    mset (queued (steer_step r e))"
proof (cases e)
  case (CancelThrough t)
  have "mset (queued r) = mset (filter (\<lambda>it. si_ticket it \<le> t) (queued r)) +
      mset (filter (\<lambda>it. \<not> si_ticket it \<le> t) (queued r))"
    by (simp del: not_le)
  then show ?thesis using assms CancelThrough
    by (cases "sr_queue r") (simp_all add: queued_def cancel_through_def del: not_le)
qed (insert assms, auto simp: queued_def steer_op_defs Let_def split: option.splits)

lemma steer_exec_conserves:
  "mset (sr_enqueued r) = mset (sr_delivered r) + mset (sr_cancelled r) + mset (queued r) \<Longrightarrow>
   mset (sr_enqueued (steer_exec r es)) =
     mset (sr_delivered (steer_exec r es)) + mset (sr_cancelled (steer_exec r es)) +
     mset (queued (steer_exec r es))"
  by (induction es arbitrary: r) (simp_all add: steer_step_conserves)

section \<open>Arrival order\<close>

text \<open>
  Tickets order the deliveries as long as they do not wrap, that is for fewer than \<open>2 ^ 64\<close>
  inputs: the delivered and the queued items together are strictly increasing in their tickets
  and bounded by the counter.
\<close>

definition tickets_ordered :: "steer_run \<Rightarrow> bool" where
  "tickets_ordered r =
     (sorted_wrt (<) (map si_ticket (sr_delivered r @ queued r)) \<and>
      (\<forall>it\<in>set (sr_delivered r @ queued r). si_ticket it \<le> highest_ticket (sr_queue r)) \<and>
      unat (highest_ticket (sr_queue r)) = length (sr_enqueued r))"

lemma unat_Suc_less:
  assumes "unat (n::u64) < 2 ^ 64 - 1"
  shows "unat (n + 1) = Suc (unat n)" and "n < n + 1"
proof -
  have "unat (n + 1) = (unat n + 1) mod 2 ^ 64" by (simp add: unat_word_ariths)
  then show "unat (n + 1) = Suc (unat n)" using assms by simp
  then show "n < n + 1" by (simp add: word_less_nat_alt)
qed

lemma sorted_wrt_filter_append:
  "sorted_wrt P (map f (xs @ ys)) \<Longrightarrow> sorted_wrt P (map f (xs @ filter Q ys))"
  by (auto simp: sorted_wrt_append sorted_wrt_map intro: sorted_wrt_filter)

lemma steer_step_ordered:
  assumes inv: "tickets_ordered r" and room: "length (sr_enqueued (steer_step r e)) < 2 ^ 64"
  shows "tickets_ordered (steer_step r e)"
proof (cases "sr_queue r")
  case None
  with inv show ?thesis
    by (cases e) (auto simp: tickets_ordered_def queued_def steer_op_defs)
next
  case (Some s)
  show ?thesis
  proof (cases e)
    case (Enqueue inp now)
    have lt: "unat (sq_next s) < 2 ^ 64 - 1"
      using inv room Some Enqueue by (simp add: tickets_ordered_def highest_ticket_def steer_op_defs Let_def)
    have below: "x < sq_next s + 1" if "x \<le> sq_next s" for x
      using that unat_Suc_less(2)[OF lt] by (rule order.strict_trans1)
    have below': "x \<le> sq_next s + 1" if "x \<le> sq_next s" for x
      using below[OF that] by (rule less_imp_le)
    show ?thesis
      using inv Some Enqueue unat_Suc_less[OF lt]
      by (auto simp: tickets_ordered_def queued_def steer_op_defs Let_def sorted_wrt_append
          intro: below below')
  next
    case Drain
    with inv Some show ?thesis
      by (auto simp: tickets_ordered_def queued_def steer_op_defs)
  next
    case (CancelThrough t)
    with inv Some show ?thesis
      using sorted_wrt_filter_append[of "(<)" si_ticket "sr_delivered r" "sq_items s"]
      by (auto simp: tickets_ordered_def queued_def steer_op_defs)
  next
    case ReadHighest
    with inv show ?thesis by (simp add: tickets_ordered_def queued_def)
  qed
qed

lemma steer_enqueued_grows: "length (sr_enqueued r) \<le> length (sr_enqueued (steer_exec r es))"
proof (induction es arbitrary: r)
  case Nil
  then show ?case by simp
next
  case (Cons e es)
  have "length (sr_enqueued r) \<le> length (sr_enqueued (steer_step r e))"
    by (cases e) (auto simp: split_beta Let_def)
  also have "\<dots> \<le> length (sr_enqueued (steer_exec (steer_step r e) es))" by (rule Cons.IH)
  finally show ?case by simp
qed

lemma steer_exec_ordered:
  "tickets_ordered r \<Longrightarrow> length (sr_enqueued (steer_exec r es)) < 2 ^ 64 \<Longrightarrow>
   tickets_ordered (steer_exec r es)"
proof (induction es arbitrary: r)
  case Nil
  then show ?case by simp
next
  case (Cons e es)
  have "length (sr_enqueued (steer_step r e)) < 2 ^ 64"
    using steer_enqueued_grows[of "steer_step r e" es] Cons.prems by simp
  with Cons show ?case by (simp add: steer_step_ordered)
qed

lemma tickets_ordered_new: "tickets_ordered new_steer_run"
  by (simp add: tickets_ordered_def new_steer_run_def new_steer_queue_def queued_def highest_ticket_def)

section \<open>Cancelled items stay cancelled\<close>

text \<open>After a cancel through \<open>t\<close>, whatever follows, no item with a ticket up to \<open>t\<close> is delivered.\<close>

definition above :: "u64 \<Rightarrow> steer_run \<Rightarrow> bool" where
  "above t r = (\<forall>it\<in>set (queued r). t < si_ticket it)"

lemma cancel_through_above: "above t (steer_step r (CancelThrough t))"
  by (cases "sr_queue r") (auto simp: above_def queued_def cancel_through_def)

lemma steer_step_above:
  assumes "above t r" and "t \<le> highest_ticket (sr_queue r)" and "tickets_ordered r"
    and "length (sr_enqueued (steer_step r e)) < 2 ^ 64"
  shows "above t (steer_step r e)" and "t \<le> highest_ticket (sr_queue (steer_step r e))"
    and "\<forall>it\<in>set (sr_delivered (steer_step r e)). it \<in> set (sr_delivered r) \<or> t < si_ticket it"
proof -
  have lt: "unat (sq_next s) < 2 ^ 64 - 1" if "sr_queue r = Some s" "e = Enqueue inp now" for s inp now
    using that assms(3,4) by (simp add: tickets_ordered_def highest_ticket_def steer_op_defs Let_def)
  have up: "\<And>s inp now. sr_queue r = Some s \<Longrightarrow> e = Enqueue inp now \<Longrightarrow> t < sq_next s + 1"
    using assms(2) unat_Suc_less(2)[OF lt] by (metis highest_ticket_def option.simps(5) order.strict_trans1)
  show "above t (steer_step r e)"
    using assms(1) up
    by (cases e; cases "sr_queue r") (auto simp: above_def queued_def steer_op_defs Let_def)
  show "t \<le> highest_ticket (sr_queue (steer_step r e))"
    using assms(2) up
    by (cases e; cases "sr_queue r") (auto simp: steer_op_defs Let_def intro: less_imp_le)
  show "\<forall>it\<in>set (sr_delivered (steer_step r e)). it \<in> set (sr_delivered r) \<or> t < si_ticket it"
    using assms(1)
    by (cases e; cases "sr_queue r") (auto simp: above_def queued_def steer_op_defs Let_def)
qed

lemma steer_exec_above:
  "above t r \<Longrightarrow> t \<le> highest_ticket (sr_queue r) \<Longrightarrow> tickets_ordered r \<Longrightarrow>
   length (sr_enqueued (steer_exec r es)) < 2 ^ 64 \<Longrightarrow>
   it \<in> set (sr_delivered (steer_exec r es)) \<Longrightarrow> it \<in> set (sr_delivered r) \<or> t < si_ticket it"
proof (induction es arbitrary: r)
  case Nil
  then show ?case by simp
next
  case (Cons e es)
  have room: "length (sr_enqueued (steer_step r e)) < 2 ^ 64"
    using steer_enqueued_grows[of "steer_step r e" es] Cons.prems(4) by simp
  note step = steer_step_above[OF Cons.prems(1-3) room]
  have "it \<in> set (sr_delivered (steer_step r e)) \<or> t < si_ticket it"
    using Cons.IH[OF step(1,2) steer_step_ordered[OF Cons.prems(3) room]] Cons.prems(4,5) by simp
  with step(3) show ?case by blast
qed

section \<open>Properties\<close>

text \<open>C37. No steering input is lost and none is delivered twice: in every run of the methods from a
  new queue, the inputs enqueued are, as a multiset, the delivered, the cancelled and the
  still queued ones.\<close>

theorem steering_conservation:
  "mset (sr_enqueued (steer_exec new_steer_run es)) =
     mset (sr_delivered (steer_exec new_steer_run es)) +
     mset (sr_cancelled (steer_exec new_steer_run es)) +
     mset (queued (steer_exec new_steer_run es))"
  by (rule steer_exec_conserves) (simp add: new_steer_run_def new_steer_queue_def queued_def)

text \<open>Inputs are delivered in arrival order over all boundaries, and a cancelled input never
  reaches a later window: for fewer than 2 to the 64 inputs, after a cancel through t, with t
  a ticket already given out, every item delivered later has a ticket above t.\<close>

theorem steering_order_and_cancel:
  assumes "r = steer_exec new_steer_run es" and "t \<le> highest_ticket (sr_queue r)"
    and "r' = steer_exec r (CancelThrough t # es')" and "length (sr_enqueued r') < 2 ^ 64"
  shows "sorted_wrt (<) (map si_ticket (sr_delivered r')) \<and>
         (\<forall>it\<in>set (sr_delivered r'). it \<in> set (sr_delivered r) \<or> t < si_ticket it)"
proof -
  let ?c = "steer_step r (CancelThrough t)"
  have len: "length (sr_enqueued r) < 2 ^ 64" "length (sr_enqueued ?c) < 2 ^ 64"
    using steer_enqueued_grows[of r "CancelThrough t # es'"] steer_enqueued_grows[of ?c es']
      assms(3,4) by simp_all
  have ord: "tickets_ordered r"
    using steer_exec_ordered[OF tickets_ordered_new] len(1) assms(1) by simp
  note ordc = steer_step_ordered[OF ord len(2)]
  have "tickets_ordered r'" using steer_exec_ordered[OF ordc] assms(3,4) by simp
  then have sorted: "sorted_wrt (<) (map si_ticket (sr_delivered r'))"
    by (simp add: tickets_ordered_def sorted_wrt_append)
  have hi: "t \<le> highest_ticket (sr_queue ?c)"
    using assms(2) by (cases "sr_queue r") (simp_all add: cancel_through_def highest_ticket_def)
  have "it \<in> set (sr_delivered ?c) \<or> t < si_ticket it" if "it \<in> set (sr_delivered r')" for it
    using steer_exec_above[OF cancel_through_above hi ordc] assms(3,4) that by simp
  with sorted show ?thesis by simp
qed

definition sample_steer_run :: steer_run where
  "sample_steer_run = steer_exec new_steer_run [Enqueue ''a'' 0, Enqueue ''b'' 1]"

theorem steering_order_and_cancel_witness:
  "map si_text (sr_delivered (steer_exec sample_steer_run [CancelThrough 1, Enqueue ''c'' 2, Drain])) =
     [''b'', ''c''] \<and>
   sorted_wrt (<) (map si_ticket
     (sr_delivered (steer_exec sample_steer_run [CancelThrough 1, Enqueue ''c'' 2, Drain])))"
proof -
  let ?r' = "steer_exec sample_steer_run [CancelThrough 1, Enqueue ''c'' 2, Drain]"
  have "1 \<le> highest_ticket (sr_queue sample_steer_run)" by code_simp
  moreover have "length (sr_enqueued ?r') = 3" by code_simp
  then have "length (sr_enqueued ?r') < 2 ^ 64" by simp
  ultimately have "sorted_wrt (<) (map si_ticket (sr_delivered ?r'))"
    using steering_order_and_cancel[OF sample_steer_run_def _ refl] by blast
  moreover have "map si_text (sr_delivered ?r') = [''b'', ''c'']" by code_simp
  ultimately show ?thesis by simp
qed

end
