(* ===== verification/Json.thy ===== *)
theory Json
  imports Prelude "HOL-Library.List_Lexorder" "HOL-Library.Char_ord"
begin

text \<open>
  JSON documents as the program sees them through \<^verbatim>\<open>encoding/json\<close>. A document is
  a value; the bytes of a valid document and its value are identified (\<^verbatim>\<open>json.RawMessage\<close>
  is \<open>json option\<close>, \<open>None\<close> being the empty message). Numbers are integers or the
  literal text of any other number. An object keeps its members in document order; decoding into
  a struct visits the members in that order, matches keys without regard to ASCII case, and the
  last match wins; decoding into \<^verbatim>\<open>map[string]any\<close> keeps the last of two equal keys, and
  encoding a map sorts the keys.
\<close>

datatype json =
    JNull
  | JBool bool
  | JNum int
  | JFrac string
  | JStr string
  | JArr "json list"
  | JObj "(string \<times> json) list"

type_synonym raw_message = "json option"

section \<open>Decoding into typed fields\<close>

definition lower_ascii :: "char \<Rightarrow> char" where
  "lower_ascii c = (if CHR ''A'' \<le> c \<and> c \<le> CHR ''Z'' then char_of (of_char c + 32 :: nat) else c)"

definition key_match :: "string \<Rightarrow> string \<Rightarrow> bool" where
  \<comment> \<open>encoding/json matches an object key to a struct tag case-insensitively\<close>
  "key_match k tag = (map lower_ascii k = map lower_ascii tag)"

text \<open>
  One struct field: \<^verbatim>\<open>null\<close> leaves it as it is, a value of the wrong type makes the whole
  decoding an error (\<open>None\<close>).
\<close>

fun get_field :: "(json \<Rightarrow> 'a option) \<Rightarrow> string \<Rightarrow> 'a \<Rightarrow> (string \<times> json) list \<Rightarrow> 'a option" where
  "get_field dec tag acc [] = Some acc"
| "get_field dec tag acc ((k, v) # fs) =
     (if key_match k tag then
        (if v = JNull then get_field dec tag acc fs
         else (case dec v of None \<Rightarrow> None | Some a \<Rightarrow> get_field dec tag a fs))
      else get_field dec tag acc fs)"

fun get_raw :: "string \<Rightarrow> raw_message \<Rightarrow> (string \<times> json) list \<Rightarrow> raw_message" where
  \<comment> \<open>a json.RawMessage field takes any value, null included\<close>
  "get_raw tag acc [] = acc"
| "get_raw tag acc ((k, v) # fs) = get_raw tag (if key_match k tag then Some v else acc) fs"

fun as_str :: "json \<Rightarrow> string option" where
  "as_str (JStr s) = Some s"
| "as_str _ = None"

fun as_bool :: "json \<Rightarrow> bool option" where
  "as_bool (JBool b) = Some b"
| "as_bool _ = None"

fun as_int64 :: "json \<Rightarrow> int option" where
  \<comment> \<open>an integer literal that fits \<^verbatim>\<open>int64\<close>; any other number is an UnmarshalTypeError\<close>
  "as_int64 (JNum n) = (if - (2 ^ 63) \<le> n \<and> n < 2 ^ 63 then Some n else None)"
| "as_int64 _ = None"

fun those_strs :: "json list \<Rightarrow> string list option" where
  \<comment> \<open>a null element decodes to the zero value\<close>
  "those_strs [] = Some []"
| "those_strs (v # vs) =
     (case (if v = JNull then Some [] else as_str v, those_strs vs) of
        (Some s, Some ss) \<Rightarrow> Some (s # ss)
      | _ \<Rightarrow> None)"

fun as_strs :: "json \<Rightarrow> string list option" where
  "as_strs (JArr vs) = those_strs vs"
| "as_strs _ = None"

section \<open>Decoding into maps\<close>

definition obj_lookup :: "(string \<times> json) list \<Rightarrow> string \<Rightarrow> json option" where
  \<comment> \<open>m[k] of the map decoded from the object: the last of two equal keys wins\<close>
  "obj_lookup fs = map_of (rev fs)"

definition map_fields :: "(string \<times> json) list \<Rightarrow> (string \<times> json) list" where
  \<comment> \<open>the members of the map decoded from the object, in the order json.Marshal writes them\<close>
  "map_fields fs = map (\<lambda>k. (k, the (obj_lookup fs k))) (sort (remdups (map fst fs)))"

lemma dom_obj_lookup: "obj_lookup fs k \<noteq> None \<longleftrightarrow> k \<in> fst ` set fs"
  unfolding obj_lookup_def map_of_eq_None_iff by simp

lemma set_map_fields: "(k, v) \<in> set (map_fields fs) \<longleftrightarrow> obj_lookup fs k = Some v"
proof -
  have "obj_lookup fs k = Some v \<Longrightarrow> k \<in> fst ` set fs"
    using dom_obj_lookup[of fs k] by simp
  then show ?thesis
    using dom_obj_lookup[of fs k] by (auto simp: map_fields_def image_iff)
qed

lemma obj_lookup_Some_in: "obj_lookup fs k = Some v \<Longrightarrow> (k, v) \<in> set fs"
  unfolding obj_lookup_def by (metis map_of_SomeD set_rev)

lemma map_fields_subset: "set (map_fields fs) \<subseteq> set fs"
  using obj_lookup_Some_in set_map_fields by fastforce

lemma keys_map_fields: "map fst (map_fields fs) = sort (remdups (map fst fs))"
  by (simp add: map_fields_def comp_def)

lemma distinct_map_fields: "distinct (map fst (map_fields fs))"
  by (simp add: keys_map_fields)

lemma obj_lookup_map_fields [simp]: "obj_lookup (map_fields fs) k = obj_lookup fs k"
proof -
  have d: "distinct (map fst (rev (map_fields fs)))"
    using distinct_map_fields by (simp add: rev_map [symmetric])
  show ?thesis
  proof (cases "obj_lookup fs k")
    case None
    then have "k \<notin> fst ` set (map_fields fs)"
      using set_map_fields by fastforce
    then show ?thesis
      using None dom_obj_lookup[of "map_fields fs" k] by auto
  next
    case (Some v)
    then have "(k, v) \<in> set (rev (map_fields fs))"
      by (simp add: set_map_fields)
    with d have "map_of (rev (map_fields fs)) k = Some v"
      by (metis map_of_is_SomeI)
    then show ?thesis
      using Some by (simp add: obj_lookup_def)
  qed
qed

lemma map_fields_idem: "map_fields (map_fields fs) = map_fields fs"
proof -
  have keys: "sort (remdups (map fst (map_fields fs))) = sort (remdups (map fst fs))"
    by (simp add: keys_map_fields sorted_sort_id distinct_remdups_id)
  have "map_fields (map_fields fs) =
      map (\<lambda>k. (k, the (obj_lookup fs k))) (sort (remdups (map fst (map_fields fs))))"
    by (subst map_fields_def) (simp only: obj_lookup_map_fields)
  also have "\<dots> = map_fields fs"
    unfolding keys by (simp only: map_fields_def[of fs])
  finally show ?thesis .
qed

lemma map_of_eqI_rev: "distinct (map fst fs) \<Longrightarrow> map_of (rev fs) k = map_of fs k"
proof (induction fs)
  case (Cons x fs)
  then have "map_of fs (fst x) = None" by (simp add: map_of_eq_None_iff)
  with Cons show ?case by (cases x) (auto simp: map_add_def split: option.splits)
qed simp

end
