(* ===== verification/AskQueue.thy ===== *)
theory AskQueue
  imports Json "HOL-Library.Word" "HOL-Library.Multiset"
begin

text \<open>
  The ask queue of a session, \<^verbatim>\<open>kit/session/askqueue.go\<close>: one dialog is open at a
  time, foreground asks go before background asks, and a turn that dies drains its asks. The
  critical sections of the source are functions on the queue; a step relation interleaves them
  with the pump goroutine, whose program counter is explicit, because the queue releases its
  mutex around the surface round-trip and around the resume. The surface round-trip itself is a
  callback of the embedding program: its outcome is any value.
\<close>

section \<open>Data\<close>

datatype ask_class = AskClassForeground | AskClassBackground

datatype ask_err = ErrSurfaceUnwired | ErrSurface string

record ask_outcome =
  ao_selected :: string
  ao_cancelled :: bool
  ao_err :: "ask_err option"
  ao_unsupported :: bool
  ao_elicit :: string
  ao_content :: "(string \<times> json) list"
  ao_violation :: string
  ao_fallback :: bool

definition zero_outcome :: ask_outcome where
  "zero_outcome = \<lparr>ao_selected = [], ao_cancelled = False, ao_err = None, ao_unsupported = False,
     ao_elicit = [], ao_content = [], ao_violation = [], ao_fallback = False\<rparr>"

record ask_entry =
  ae_turn :: string
  ae_session :: string
  ae_call :: string
  ae_tool :: string
  ae_title :: string
  ae_kind :: string
  ae_input :: raw_message
  ae_class :: ask_class
  ae_seq :: "64 word"
  ae_note :: string
  ae_plain_fallback :: bool
  ae_wired :: bool \<comment> \<open>a fire callback is set\<close>

record queued_ask =
  qa_entry :: ask_entry
  qa_resolve :: bool \<comment> \<open>a resolve callback is set\<close>

record open_ask =
  oa_ask :: queued_ask
  oa_cancelled :: bool \<comment> \<open>the context of this firing is cancelled\<close>

record ask_queue =
  aq_queued :: "queued_ask list"
  aq_open :: "open_ask option"
  aq_firing :: bool
  aq_pump_running :: bool
  aq_seq :: "64 word"
  aq_count :: "64 word"

definition new_ask_queue :: ask_queue where
  "new_ask_queue = \<lparr>aq_queued = [], aq_open = None, aq_firing = False, aq_pump_running = False,
     aq_seq = 0, aq_count = 0\<rparr>"

section \<open>Critical sections\<close>

definition new_open_ask :: "queued_ask \<Rightarrow> open_ask" where
  "new_open_ask qa = \<lparr>oa_ask = qa, oa_cancelled = False\<rparr>"

text \<open>
  The result of an enqueue is the new queue, the entry with its sequence number, whether a pump
  is started, and the pending count of the note (\<open>None\<close> when no note is emitted).
\<close>

definition ask_enqueue ::
    "queued_ask \<Rightarrow> ask_queue \<Rightarrow> ask_queue \<times> queued_ask \<times> bool \<times> nat option" where
  "ask_enqueue qa q =
     (let fresh = ae_seq (qa_entry qa) = 0;
          qa' = (if fresh then qa\<lparr>qa_entry := (qa_entry qa)\<lparr>ae_seq := aq_seq q + 1\<rparr>\<rparr> else qa);
          q' = q\<lparr>aq_seq := (if fresh then aq_seq q + 1 else aq_seq q), aq_count := aq_count q + 1\<rparr>
      in if \<not> aq_firing q'
         then (q'\<lparr>aq_firing := True, aq_pump_running := True, aq_open := Some (new_open_ask qa')\<rparr>,
               qa', True, None)
         else (q'\<lparr>aq_queued := aq_queued q' @ [qa']\<rparr>, qa', False,
               Some (length (aq_queued q' @ [qa']))))"

definition ask_enqueued :: "ask_queue \<Rightarrow> 64 word" where
  "ask_enqueued q = aq_count q"

definition ask_pending :: "ask_queue \<Rightarrow> nat" where
  "ask_pending q = length (aq_queued q)"

definition ask_is_open :: "ask_queue \<Rightarrow> bool" where
  "ask_is_open q = (aq_open q \<noteq> None)"

definition of_turn :: "string \<Rightarrow> queued_ask \<Rightarrow> bool" where
  "of_turn t qa = (ae_turn (qa_entry qa) = t)"

definition cancel_open :: "open_ask \<Rightarrow> open_ask" where
  "cancel_open oa = oa\<lparr>oa_cancelled := True\<rparr>"

definition drain_turn :: "string \<Rightarrow> ask_queue \<Rightarrow> ask_queue \<times> queued_ask list" where
  "drain_turn t q =
     (q\<lparr>aq_queued := filter (\<lambda>qa. \<not> of_turn t qa) (aq_queued q),
        aq_open := (case aq_open q of
            Some oa \<Rightarrow> if of_turn t (oa_ask oa) then Some (cancel_open oa) else Some oa
          | None \<Rightarrow> None)\<rparr>,
      filter (of_turn t) (aq_queued q))"

definition drain_all :: "ask_queue \<Rightarrow> ask_queue \<times> queued_ask list" where
  "drain_all q = (q\<lparr>aq_queued := [], aq_open := map_option cancel_open (aq_open q)\<rparr>, aq_queued q)"

definition drained_outcome :: ask_outcome where
  "drained_outcome = zero_outcome\<lparr>ao_cancelled := True\<rparr>"

fun head_index :: "nat \<Rightarrow> queued_ask list \<Rightarrow> nat option" where
  \<comment> \<open>the scan of popHeadLocked: the first foreground entry\<close>
  "head_index i [] = None"
| "head_index i (qa # qs) =
     (if ae_class (qa_entry qa) = AskClassForeground then Some i else head_index (Suc i) qs)"

definition pop_head :: "queued_ask list \<Rightarrow> queued_ask \<times> queued_ask list" where
  "pop_head qs =
     (let head = (case head_index 0 qs of Some i \<Rightarrow> i | None \<Rightarrow> 0)
      in (qs ! head, take head qs @ drop (Suc head) qs))"

text \<open>The first critical section of the pump's loop: \<open>None\<close> means the pump returns.\<close>

definition pump_top :: "ask_queue \<Rightarrow> ask_queue \<times> queued_ask option" where
  "pump_top q =
     (case aq_open q of
        Some oa \<Rightarrow> (q, Some (oa_ask oa))
      | None \<Rightarrow>
          if aq_queued q = [] then (q\<lparr>aq_firing := False, aq_pump_running := False\<rparr>, None)
          else (let (picked, rest) = pop_head (aq_queued q)
                in (q\<lparr>aq_queued := rest, aq_open := Some (new_open_ask picked)\<rparr>, Some picked)))"

definition fire_outcome :: "queued_ask \<Rightarrow> ask_outcome \<Rightarrow> ask_outcome" where
  \<comment> \<open>the second argument is what the surface callback returns when it is set\<close>
  "fire_outcome qa surface =
     (if ae_wired (qa_entry qa) then surface
      else zero_outcome\<lparr>ao_err := Some ErrSurfaceUnwired\<rparr>)"

definition clear_open :: "ask_queue \<Rightarrow> ask_queue" where
  "clear_open q = q\<lparr>aq_open := None\<rparr>"

section \<open>Goroutines\<close>

datatype pump_pc = AtTop | Firing queued_ask | Fired queued_ask ask_outcome
  | Resolving queued_ask ask_outcome

text \<open>
  The system is the queue, the pump goroutines that are alive, and a history: the entries
  enqueued, promoted to the open slot, drained without firing, and resolved.
\<close>

record ask_sys =
  as_queue :: ask_queue
  as_pumps :: "pump_pc list"
  as_enqueued :: "queued_ask list"
  as_promoted :: "queued_ask list"
  as_drained :: "queued_ask list"
  as_resolved :: "(queued_ask \<times> ask_outcome) list"

definition new_ask_sys :: ask_sys where
  "new_ask_sys = \<lparr>as_queue = new_ask_queue, as_pumps = [], as_enqueued = [], as_promoted = [],
     as_drained = [], as_resolved = []\<rparr>"

definition sys_enqueue :: "queued_ask \<Rightarrow> ask_sys \<Rightarrow> ask_sys" where
  "sys_enqueue qa S =
     (let (q, qa', start, note) = ask_enqueue qa (as_queue S)
      in S\<lparr>as_queue := q, as_enqueued := as_enqueued S @ [qa'],
           as_promoted := as_promoted S @ (if start then [qa'] else []),
           as_pumps := as_pumps S @ (if start then [AtTop] else [])\<rparr>)"

definition sys_drain :: "ask_queue \<times> queued_ask list \<Rightarrow> ask_sys \<Rightarrow> ask_sys" where
  "sys_drain d S = S\<lparr>as_queue := fst d, as_drained := as_drained S @ snd d\<rparr>"

definition drop_nth :: "nat \<Rightarrow> 'a list \<Rightarrow> 'a list" where
  "drop_nth i xs = take i xs @ drop (Suc i) xs"

definition sys_pump :: "nat \<Rightarrow> ask_outcome \<Rightarrow> ask_sys \<Rightarrow> ask_sys" where
  \<comment> \<open>one step of pump \<open>i\<close>; the outcome is what the surface returns, if it is asked\<close>
  "sys_pump i surface S =
     (case as_pumps S ! i of
        AtTop \<Rightarrow>
          (case pump_top (as_queue S) of
             (q, None) \<Rightarrow> S\<lparr>as_queue := q, as_pumps := drop_nth i (as_pumps S)\<rparr>
           | (q, Some qa) \<Rightarrow>
               S\<lparr>as_queue := q, as_pumps := (as_pumps S)[i := Firing qa],
                 as_promoted := as_promoted S @ (if aq_open (as_queue S) = None then [qa] else [])\<rparr>)
      | Firing qa \<Rightarrow> S\<lparr>as_pumps := (as_pumps S)[i := Fired qa (fire_outcome qa surface)]\<rparr>
      | Fired qa out \<Rightarrow>
          S\<lparr>as_queue := clear_open (as_queue S), as_pumps := (as_pumps S)[i := Resolving qa out]\<rparr>
      | Resolving qa out \<Rightarrow>
          S\<lparr>as_pumps := (as_pumps S)[i := AtTop], as_resolved := as_resolved S @ [(qa, out)]\<rparr>)"

inductive ask_step :: "ask_sys \<Rightarrow> ask_sys \<Rightarrow> bool" where
  enqueue: "ask_step S (sys_enqueue qa S)"
| drain_one: "ask_step S (sys_drain (drain_turn t (as_queue S)) S)"
| drain_every: "ask_step S (sys_drain (drain_all (as_queue S)) S)"
| pump: "i < length (as_pumps S) \<Longrightarrow> ask_step S (sys_pump i surface S)"

inductive ask_reachable :: "ask_sys \<Rightarrow> bool" where
  ask_start: "ask_reachable new_ask_sys"
| ask_next: "ask_reachable S \<Longrightarrow> ask_step S T \<Longrightarrow> ask_reachable T"

section \<open>The head of the queue\<close>

definition foreground :: "queued_ask \<Rightarrow> bool" where
  "foreground qa = (ae_class (qa_entry qa) = AskClassForeground)"

lemma head_index_None: "head_index i qs = None \<longleftrightarrow> (\<forall>qa\<in>set qs. \<not> foreground qa)"
  by (induction qs arbitrary: i) (auto simp: foreground_def)

lemma head_index_Some:
  "head_index i qs = Some k \<Longrightarrow>
     \<exists>pre qa post. qs = pre @ qa # post \<and> k = i + length pre \<and> foreground qa \<and>
       (\<forall>x\<in>set pre. \<not> foreground x)"
proof (induction qs arbitrary: i)
  case Nil
  then show ?case by simp
next
  case (Cons x xs)
  show ?case
  proof (cases "foreground x")
    case True
    with Cons.prems have "k = i" by (simp add: foreground_def)
    with True show ?thesis by (intro exI[of _ "[]"] exI[of _ x] exI[of _ xs]) simp
  next
    case False
    with Cons.prems have "head_index (Suc i) xs = Some k" by (simp add: foreground_def)
    from Cons.IH[OF this] obtain pre qa post where
      "xs = pre @ qa # post" "k = Suc i + length pre" "foreground qa" "\<forall>y\<in>set pre. \<not> foreground y"
      by blast
    with False show ?thesis
      by (intro exI[of _ "x # pre"] exI[of _ qa] exI[of _ post]) simp
  qed
qed

lemma pop_head_cases:
  assumes "qs \<noteq> []"
  obtains pre qa post where "qs = pre @ qa # post" and "pop_head qs = (qa, pre @ post)"
    and "\<forall>x\<in>set pre. \<not> foreground x" and "foreground qa \<or> pre = [] \<and> (\<forall>x\<in>set qs. \<not> foreground x)"
proof (cases "head_index 0 qs")
  case None
  from assms obtain qa post where qs: "qs = qa # post" by (cases qs) auto
  have "pop_head qs = (qa, [] @ post)" using None qs by (simp add: pop_head_def Let_def)
  moreover have "\<forall>x\<in>set qs. \<not> foreground x" using None by (simp only: head_index_None)
  ultimately show ?thesis using that[of "[]" qa post] qs by simp
next
  case (Some k)
  from head_index_Some[OF Some] obtain pre qa post where
    qs: "qs = pre @ qa # post" and k: "k = length pre" and fg: "foreground qa"
      "\<forall>x\<in>set pre. \<not> foreground x" by auto
  have "pop_head qs = (qa, pre @ post)" using Some qs k by (simp add: pop_head_def Let_def)
  with qs fg show ?thesis using that by blast
qed

section \<open>The invariant\<close>

definition pump_agrees :: "ask_queue \<Rightarrow> pump_pc \<Rightarrow> bool" where
  "pump_agrees q pc = (case pc of
      AtTop \<Rightarrow> True
    | Firing qa \<Rightarrow> (\<exists>oa. aq_open q = Some oa \<and> oa_ask oa = qa)
    | Fired qa _ \<Rightarrow> (\<exists>oa. aq_open q = Some oa \<and> oa_ask oa = qa)
    | Resolving _ _ \<Rightarrow> aq_open q = None)"

fun flight :: "pump_pc list \<Rightarrow> open_ask option \<Rightarrow> queued_ask list" where
  \<comment> \<open>promoted and not yet resolved\<close>
  "flight [AtTop] (Some oa) = [oa_ask oa]"
| "flight [Firing qa] op = [qa]"
| "flight [Fired qa out] op = [qa]"
| "flight [Resolving qa out] op = [qa]"
| "flight pumps op = []"

definition in_flight :: "ask_sys \<Rightarrow> queued_ask list" where
  "in_flight S = flight (as_pumps S) (aq_open (as_queue S))"

definition one_outstanding :: "ask_sys \<Rightarrow> bool" where
  "one_outstanding S =
     (aq_pump_running (as_queue S) = aq_firing (as_queue S) \<and>
      (if aq_firing (as_queue S)
       then (\<exists>pc. as_pumps S = [pc] \<and> pump_agrees (as_queue S) pc)
       else as_pumps S = [] \<and> aq_open (as_queue S) = None \<and> aq_queued (as_queue S) = []) \<and>
      as_promoted S = map fst (as_resolved S) @ in_flight S)"

definition accounted :: "ask_sys \<Rightarrow> bool" where
  "accounted S =
     (mset (as_enqueued S) =
        mset (as_promoted S) + mset (as_drained S) + mset (aq_queued (as_queue S)))"

definition class_fifo :: "ask_sys \<Rightarrow> bool" where
  "class_fifo S =
     (\<forall>c. subseq (filter (\<lambda>qa. foreground qa = c) (as_promoted S @ aq_queued (as_queue S)))
                 (filter (\<lambda>qa. foreground qa = c) (as_enqueued S)))"

definition ask_inv :: "ask_sys \<Rightarrow> bool" where
  "ask_inv S = (one_outstanding S \<and> accounted S \<and> class_fifo S)"

lemma ask_inv_new: "ask_inv new_ask_sys"
  by (simp add: ask_inv_def one_outstanding_def accounted_def class_fifo_def new_ask_sys_def
      new_ask_queue_def in_flight_def)

lemma subseq_snoc: "subseq xs ys \<Longrightarrow> subseq (xs @ [a]) (ys @ [a])"
  by (simp add: list_emb_append_mono)

lemma ask_enqueue_busy:
  assumes "aq_firing q"
  obtains q' qa' n where "ask_enqueue qa q = (q', qa', False, n)"
    and "aq_queued q' = aq_queued q @ [qa']" and "aq_open q' = aq_open q"
    and "aq_firing q' = aq_firing q" and "aq_pump_running q' = aq_pump_running q"
  using assms by (simp add: ask_enqueue_def Let_def)

lemma ask_enqueue_idle:
  assumes "\<not> aq_firing q"
  obtains q' qa' where "ask_enqueue qa q = (q', qa', True, None)"
    and "aq_queued q' = aq_queued q" and "aq_open q' = Some (new_open_ask qa')"
    and "aq_firing q'" and "aq_pump_running q'"
  using assms by (simp add: ask_enqueue_def Let_def)

lemma sys_enqueue_inv:
  assumes inv: "ask_inv S"
  shows "ask_inv (sys_enqueue qa S)"
proof (cases "aq_firing (as_queue S)")
  case True
  obtain q' qa' n where e: "ask_enqueue qa (as_queue S) = (q', qa', False, n)"
    and q': "aq_queued q' = aq_queued (as_queue S) @ [qa']" "aq_open q' = aq_open (as_queue S)"
      "aq_firing q' = aq_firing (as_queue S)" "aq_pump_running q' = aq_pump_running (as_queue S)"
    using ask_enqueue_busy[OF True] by metis
  have S': "sys_enqueue qa S = S\<lparr>as_queue := q', as_enqueued := as_enqueued S @ [qa']\<rparr>"
    by (simp add: sys_enqueue_def e)
  have agree: "pump_agrees q' pc = pump_agrees (as_queue S) pc" for pc
    using q'(2) by (cases pc) (auto simp: pump_agrees_def)
  have "one_outstanding (sys_enqueue qa S)"
    using inv True q' agree by (simp add: S' ask_inv_def one_outstanding_def in_flight_def)
  moreover have "accounted (sys_enqueue qa S)"
    using inv q' by (simp add: S' ask_inv_def accounted_def)
  moreover have "class_fifo (sys_enqueue qa S)"
    using inv q'
    by (auto simp: S' ask_inv_def class_fifo_def subseq_snoc simp flip: append_assoc
        intro: subseq_order.order_trans)
  ultimately show ?thesis by (simp add: ask_inv_def)
next
  case False
  obtain q' qa' where e: "ask_enqueue qa (as_queue S) = (q', qa', True, None)"
    and q': "aq_queued q' = aq_queued (as_queue S)" "aq_open q' = Some (new_open_ask qa')"
      "aq_firing q'" "aq_pump_running q'"
    using ask_enqueue_idle[OF False] by metis
  have idle: "as_pumps S = []" "aq_queued (as_queue S) = []"
    "as_promoted S = map fst (as_resolved S)"
    using inv False by (auto simp: ask_inv_def one_outstanding_def in_flight_def)
  have S': "sys_enqueue qa S = S\<lparr>as_queue := q', as_enqueued := as_enqueued S @ [qa'],
      as_promoted := as_promoted S @ [qa'], as_pumps := [AtTop]\<rparr>"
    by (simp add: sys_enqueue_def e idle)
  show ?thesis
    using inv q' idle
    by (auto simp: S' ask_inv_def one_outstanding_def accounted_def class_fifo_def in_flight_def
        pump_agrees_def new_open_ask_def subseq_snoc)
qed

lemma sys_drain_inv:
  assumes inv: "ask_inv S"
    and same: "aq_firing (fst d) = aq_firing (as_queue S)"
      "aq_pump_running (fst d) = aq_pump_running (as_queue S)"
    and open': "map_option oa_ask (aq_open (fst d)) = map_option oa_ask (aq_open (as_queue S))"
    and parts: "aq_queued (fst d) = filter P (aq_queued (as_queue S))"
      "snd d = filter (\<lambda>x. \<not> P x) (aq_queued (as_queue S))"
  shows "ask_inv (sys_drain d S)"
proof -
  have agree: "pump_agrees (fst d) pc = pump_agrees (as_queue S) pc" for pc
    using open' by (cases pc) (auto simp: pump_agrees_def map_option_case split: option.splits)
  have flight: "in_flight (sys_drain d S) = in_flight S"
    using open' unfolding in_flight_def sys_drain_def
    by (cases "(as_pumps S, aq_open (as_queue S))" rule: flight.cases)
       (auto simp: map_option_case split: option.splits)
  have "one_outstanding (sys_drain d S)"
    using inv same open' parts agree flight
    by (auto simp: ask_inv_def one_outstanding_def sys_drain_def)
  moreover have "accounted (sys_drain d S)"
    using inv parts by (simp add: ask_inv_def accounted_def sys_drain_def)
  moreover have "class_fifo (sys_drain d S)"
    unfolding class_fifo_def
  proof
    fix c
    have "subseq (filter (\<lambda>qa. foreground qa = c) (as_promoted S @ filter P (aq_queued (as_queue S))))
        (filter (\<lambda>qa. foreground qa = c) (as_promoted S @ aq_queued (as_queue S)))"
      by (intro subseq_filter list_emb_append_mono) simp_all
    also have "subseq \<dots> (filter (\<lambda>qa. foreground qa = c) (as_enqueued S))"
      using inv by (simp add: ask_inv_def class_fifo_def)
    finally show "subseq
        (filter (\<lambda>qa. foreground qa = c)
          (as_promoted (sys_drain d S) @ aq_queued (as_queue (sys_drain d S))))
        (filter (\<lambda>qa. foreground qa = c) (as_enqueued (sys_drain d S)))"
      using parts by (simp add: sys_drain_def)
  qed
  ultimately show ?thesis by (simp add: ask_inv_def)
qed

lemma drain_turn_inv: "ask_inv S \<Longrightarrow> ask_inv (sys_drain (drain_turn t (as_queue S)) S)"
  by (rule sys_drain_inv[where P = "\<lambda>qa. \<not> of_turn t qa"])
     (auto simp: drain_turn_def cancel_open_def split: option.splits)

lemma drain_all_inv: "ask_inv S \<Longrightarrow> ask_inv (sys_drain (drain_all (as_queue S)) S)"
  by (rule sys_drain_inv[where P = "\<lambda>qa. False"])
     (auto simp: drain_all_def cancel_open_def option.map_comp o_def)

lemma promote_inv:
  assumes inv: "ask_inv S" and pc: "as_pumps S = [AtTop]"
    and closed: "aq_open (as_queue S) = None" and ne: "aq_queued (as_queue S) \<noteq> []"
  shows "ask_inv (sys_pump 0 surface S)"
proof -
  from pop_head_cases[OF ne] obtain pre qa post where
    qs: "aq_queued (as_queue S) = pre @ qa # post" and pop: "pop_head (aq_queued (as_queue S)) = (qa, pre @ post)"
    and pre: "\<forall>x\<in>set pre. \<not> foreground x"
    and fg: "foreground qa \<or> pre = [] \<and> (\<forall>x\<in>set (aq_queued (as_queue S)). \<not> foreground x)"
    by metis
  let ?T = "sys_pump 0 surface S"
  have T: "?T = S\<lparr>as_queue := (as_queue S)\<lparr>aq_queued := pre @ post, aq_open := Some (new_open_ask qa)\<rparr>,
      as_pumps := [Firing qa], as_promoted := as_promoted S @ [qa]\<rparr>"
    using pc closed ne pop by (simp add: sys_pump_def pump_top_def)
  have "filter (\<lambda>x. foreground x = c) (as_promoted S @ qa # pre @ post) =
      filter (\<lambda>x. foreground x = c) (as_promoted S @ pre @ qa # post)" for c
  proof (cases "c = foreground qa")
    case True
    then have "filter (\<lambda>x. foreground x = c) pre = []" using fg pre by (auto simp: filter_empty_conv)
    then show ?thesis by simp
  qed auto
  then have "class_fifo ?T"
    using inv qs by (simp add: T ask_inv_def class_fifo_def)
  moreover have "accounted ?T" using inv qs by (simp add: T ask_inv_def accounted_def)
  moreover have "one_outstanding ?T"
    using inv pc closed
    by (auto simp: T ask_inv_def one_outstanding_def pump_agrees_def new_open_ask_def in_flight_def
        split: if_splits)
  ultimately show ?thesis by (simp add: ask_inv_def)
qed

lemma ask_inv_same_asks:
  \<comment> \<open>a pump step that moves no entry between queue, open slot and history\<close>
  assumes inv: "ask_inv S" and T: "T = S\<lparr>as_queue := q, as_pumps := pumps, as_resolved := res\<rparr>"
    and same: "aq_queued q = aq_queued (as_queue S)"
    and one: "one_outstanding T"
  shows "ask_inv T"
  using assms by (simp add: ask_inv_def accounted_def class_fifo_def)

lemma sys_pump_inv:
  assumes inv: "ask_inv S" and i: "i < length (as_pumps S)"
  shows "ask_inv (sys_pump i surface S)"
proof -
  obtain pc where pc: "as_pumps S = [pc]" and firing: "aq_firing (as_queue S)"
    and agrees: "pump_agrees (as_queue S) pc" and run: "aq_pump_running (as_queue S)"
    and prom: "as_promoted S = map fst (as_resolved S) @ in_flight S"
    using inv i by (auto simp: ask_inv_def one_outstanding_def split: if_splits)
  with i have i0: "i = 0" by simp
  show ?thesis
  proof (cases pc)
    case AtTop
    show ?thesis
    proof (cases "aq_open (as_queue S)")
      case (Some oa)
      have T: "sys_pump i surface S = S\<lparr>as_queue := as_queue S, as_pumps := [Firing (oa_ask oa)],
          as_resolved := as_resolved S\<rparr>"
        using AtTop pc i0 Some by (simp add: sys_pump_def pump_top_def)
      show ?thesis
        by (rule ask_inv_same_asks[OF inv T refl])
           (use AtTop pc Some firing run prom in
             \<open>simp add: T one_outstanding_def pump_agrees_def in_flight_def\<close>)
    next
      case None
      show ?thesis
      proof (cases "aq_queued (as_queue S) = []")
        case True
        have T: "sys_pump i surface S = S\<lparr>as_queue := (as_queue S)\<lparr>aq_firing := False,
            aq_pump_running := False\<rparr>, as_pumps := [], as_resolved := as_resolved S\<rparr>"
          using AtTop pc i0 None True by (simp add: sys_pump_def pump_top_def drop_nth_def)
        show ?thesis
          by (rule ask_inv_same_asks[OF inv T])
             (use AtTop pc None True prom in \<open>simp_all add: T one_outstanding_def in_flight_def\<close>)
      next
        case False
        with AtTop pc i0 None inv show ?thesis by (simp add: promote_inv)
      qed
    qed
  next
    case (Firing qa)
    have T: "sys_pump i surface S = S\<lparr>as_queue := as_queue S,
        as_pumps := [Fired qa (fire_outcome qa surface)], as_resolved := as_resolved S\<rparr>"
      using Firing pc i0 by (simp add: sys_pump_def)
    show ?thesis
      by (rule ask_inv_same_asks[OF inv T refl])
         (use Firing pc firing run prom agrees in
           \<open>simp add: T one_outstanding_def pump_agrees_def in_flight_def\<close>)
  next
    case (Fired qa out)
    have T: "sys_pump i surface S = S\<lparr>as_queue := clear_open (as_queue S),
        as_pumps := [Resolving qa out], as_resolved := as_resolved S\<rparr>"
      using Fired pc i0 by (simp add: sys_pump_def)
    show ?thesis
      by (rule ask_inv_same_asks[OF inv T])
         (use Fired pc firing run prom in
           \<open>simp_all add: T one_outstanding_def pump_agrees_def in_flight_def clear_open_def\<close>)
  next
    case (Resolving qa out)
    have T: "sys_pump i surface S = S\<lparr>as_queue := as_queue S, as_pumps := [AtTop],
        as_resolved := as_resolved S @ [(qa, out)]\<rparr>"
      using Resolving pc i0 by (simp add: sys_pump_def)
    have "aq_open (as_queue S) = None" using Resolving agrees by (simp add: pump_agrees_def)
    then show ?thesis
      by (intro ask_inv_same_asks[OF inv T refl])
         (use Resolving pc firing run prom in
           \<open>simp add: T one_outstanding_def pump_agrees_def in_flight_def\<close>)
  qed
qed

lemma ask_step_inv: "ask_step S T \<Longrightarrow> ask_inv S \<Longrightarrow> ask_inv T"
  by (induction rule: ask_step.induct)
     (simp_all add: sys_enqueue_inv drain_turn_inv drain_all_inv sys_pump_inv)

lemma ask_reachable_inv: "ask_reachable S \<Longrightarrow> ask_inv S"
  by (induction rule: ask_reachable.induct) (auto intro: ask_inv_new ask_step_inv)

section \<open>The pump comes to rest\<close>

fun pump_weight :: "pump_pc list \<Rightarrow> open_ask option \<Rightarrow> nat" where
  "pump_weight [] op = 0"
| "pump_weight (AtTop # _) op = (if op = None then 1 else 5)"
| "pump_weight (Firing _ # _) op = 4"
| "pump_weight (Fired _ _ # _) op = 3"
| "pump_weight (Resolving _ _ # _) op = 2"

definition ask_work :: "ask_sys \<Rightarrow> nat" where
  "ask_work S = 4 * length (aq_queued (as_queue S)) + pump_weight (as_pumps S) (aq_open (as_queue S))"

fun pump_run :: "(nat \<Rightarrow> ask_outcome) \<Rightarrow> nat \<Rightarrow> ask_sys \<Rightarrow> ask_sys" where
  \<comment> \<open>\<open>n\<close> steps of the pump, the surface answering as given\<close>
  "pump_run answers 0 S = S"
| "pump_run answers (Suc n) S = pump_run (\<lambda>k. answers (Suc k)) n (sys_pump 0 (answers 0) S)"

lemma sys_pump_work:
  assumes inv: "ask_inv S" and ne: "as_pumps S \<noteq> []"
  shows "ask_work (sys_pump 0 surface S) < ask_work S"
proof -
  obtain pc where pc: "as_pumps S = [pc]" and agrees: "pump_agrees (as_queue S) pc"
    using inv ne by (auto simp: ask_inv_def one_outstanding_def split: if_splits)
  show ?thesis
  proof (cases pc)
    case AtTop
    show ?thesis
    proof (cases "aq_open (as_queue S) = None \<and> aq_queued (as_queue S) \<noteq> []")
      case True
      from pop_head_cases[OF conjunct2[OF True]] obtain pre qa post where
        "aq_queued (as_queue S) = pre @ qa # post"
        "pop_head (aq_queued (as_queue S)) = (qa, pre @ post)" by metis
      with True AtTop pc show ?thesis
        by (simp add: ask_work_def sys_pump_def pump_top_def)
    next
      case False
      with AtTop pc show ?thesis
        by (auto simp: ask_work_def sys_pump_def pump_top_def drop_nth_def split: option.splits)
    qed
  next
    case (Fired qa out)
    with pc agrees show ?thesis by (auto simp: ask_work_def sys_pump_def clear_open_def)
  next
    case (Resolving qa out)
    with pc agrees show ?thesis by (auto simp: ask_work_def sys_pump_def pump_agrees_def)
  qed (use pc in \<open>auto simp: ask_work_def sys_pump_def\<close>)
qed

lemma pump_run_rest:
  "ask_inv S \<Longrightarrow> \<exists>n \<le> ask_work S. ask_inv (pump_run answers n S) \<and> as_pumps (pump_run answers n S) = []
     \<and> as_enqueued (pump_run answers n S) = as_enqueued S"
proof (induction "ask_work S" arbitrary: S answers rule: less_induct)
  case less
  show ?case
  proof (cases "as_pumps S = []")
    case True
    with less.prems show ?thesis by (intro exI[of _ 0]) simp
  next
    case False
    let ?T = "sys_pump 0 (answers 0) S"
    have enq: "as_enqueued ?T = as_enqueued S"
      by (auto simp: sys_pump_def split: pump_pc.splits option.splits prod.splits)
    have inv: "ask_inv ?T" using sys_pump_inv[OF less.prems] False by simp
    have less_work: "ask_work ?T < ask_work S" by (rule sys_pump_work[OF less.prems False])
    from less.hyps[OF less_work inv, of "\<lambda>k. answers (Suc k)"] obtain n where
      "n \<le> ask_work ?T" "ask_inv (pump_run (\<lambda>k. answers (Suc k)) n ?T)"
      "as_pumps (pump_run (\<lambda>k. answers (Suc k)) n ?T) = []"
      "as_enqueued (pump_run (\<lambda>k. answers (Suc k)) n ?T) = as_enqueued S"
      using enq by auto
    with less_work show ?thesis by (intro exI[of _ "Suc n"]) simp
  qed
qed

lemma ask_rest_accounted:
  "ask_inv S \<Longrightarrow> as_pumps S = [] \<Longrightarrow>
     \<not> aq_firing (as_queue S) \<and> aq_queued (as_queue S) = [] \<and> aq_open (as_queue S) = None \<and>
     mset (as_enqueued S) = mset (map fst (as_resolved S)) + mset (as_drained S)"
  by (auto simp: ask_inv_def one_outstanding_def accounted_def in_flight_def split: if_splits)

section \<open>Properties\<close>

definition sample_ask :: "string \<Rightarrow> ask_class \<Rightarrow> queued_ask" where
  "sample_ask turn c = \<lparr>qa_entry = \<lparr>ae_turn = turn, ae_session = ''s'', ae_call = ''c'', ae_tool = ''Bash'',
     ae_title = ''Bash'', ae_kind = ''execute'', ae_input = None, ae_class = c, ae_seq = 0, ae_note = [],
     ae_plain_fallback = False, ae_wired = True\<rparr>, qa_resolve = True\<rparr>"

definition sample_asks :: ask_sys where
  \<comment> \<open>one open ask, then a background and a foreground ask wait; the pump is back at its top\<close>
  "sample_asks =
     (let S1 = sys_enqueue (sample_ask ''t1'' AskClassForeground) new_ask_sys;
          S2 = sys_enqueue (sample_ask ''t2'' AskClassBackground) S1;
          S3 = sys_enqueue (sample_ask ''t3'' AskClassForeground) S2
      in sys_pump 0 zero_outcome (sys_pump 0 zero_outcome
           (sys_pump 0 zero_outcome (sys_pump 0 zero_outcome S3))))"

lemma sample_asks_reachable: "ask_reachable sample_asks"
proof -
  have pumpI: "ask_reachable S \<Longrightarrow> as_pumps S \<noteq> [] \<Longrightarrow> ask_reachable (sys_pump 0 a S)" for S a
    by (rule ask_next, assumption) (rule ask_step.pump, simp)
  have enqI: "ask_reachable S \<Longrightarrow> ask_reachable (sys_enqueue qa S)" for S qa
    by (rule ask_next, assumption) (rule ask_step.enqueue)
  show ?thesis
    unfolding sample_asks_def Let_def
    by (intro pumpI enqI ask_start) code_simp+
qed

text \<open>C5. One dialog at a time, and every ask ends once: in every reachable state of the queue and its
  goroutines at most one pump runs, at most one promoted ask is unresolved, and the enqueued
  asks are exactly the resolved, the one in flight, the drained and the waiting ones, so no
  ask is lost, resolved twice, or resolved after it was drained.\<close>

theorem ask_exactly_once:
  assumes "ask_reachable S"
  shows "length (as_pumps S) \<le> 1 \<and> length (in_flight S) \<le> 1 \<and>
         mset (as_enqueued S) = mset (map fst (as_resolved S)) + mset (in_flight S) +
           mset (as_drained S) + mset (aq_queued (as_queue S))"
proof -
  note inv = ask_reachable_inv[OF assms]
  have "length (as_pumps S) \<le> 1" using inv by (auto simp: ask_inv_def one_outstanding_def split: if_splits)
  moreover have "length (in_flight S) \<le> 1"
    unfolding in_flight_def
    by (cases "(as_pumps S, aq_open (as_queue S))" rule: flight.cases) auto
  moreover have "as_promoted S = map fst (as_resolved S) @ in_flight S"
    using inv by (simp add: ask_inv_def one_outstanding_def)
  ultimately show ?thesis using inv by (simp add: ask_inv_def accounted_def)
qed

theorem ask_exactly_once_witness:
  "length (as_enqueued sample_asks) = 3 \<and> length (as_resolved sample_asks) = 1 \<and>
   length (as_pumps sample_asks) \<le> 1"
  using ask_exactly_once[OF sample_asks_reachable] by (intro conjI; (code_simp | simp))

text \<open>Within a class asks fire in the order they were enqueued, and a foreground ask goes before the
  waiting background asks: for each class, the asks promoted so far followed by those waiting
  are a subsequence of those enqueued; and when the pump takes its next ask while a foreground
  ask waits, it takes a foreground ask.\<close>

theorem ask_priority_fifo:
  assumes "ask_reachable S"
  shows "subseq (filter (\<lambda>qa. foreground qa = c) (as_promoted S @ aq_queued (as_queue S)))
                (filter (\<lambda>qa. foreground qa = c) (as_enqueued S)) \<and>
         (as_pumps S = [AtTop] \<and> aq_open (as_queue S) = None \<and>
          list_ex foreground (aq_queued (as_queue S)) \<longrightarrow>
            foreground (last (as_promoted (sys_pump 0 surface S))))"
proof -
  have "class_fifo S" using ask_reachable_inv[OF assms] by (simp add: ask_inv_def)
  moreover have "foreground (last (as_promoted (sys_pump 0 surface S)))"
    if "as_pumps S = [AtTop]" "aq_open (as_queue S) = None" "list_ex foreground (aq_queued (as_queue S))"
  proof -
    have ne: "aq_queued (as_queue S) \<noteq> []" using that(3) by auto
    from pop_head_cases[OF ne] obtain qa pre post where
      pop: "pop_head (aq_queued (as_queue S)) = (qa, pre @ post)"
      and "foreground qa \<or> (\<forall>x\<in>set (aq_queued (as_queue S)). \<not> foreground x)" by metis
    with that(3) have "foreground qa" by (auto simp: list_ex_iff)
    with that pop ne show ?thesis by (simp add: sys_pump_def pump_top_def)
  qed
  ultimately show ?thesis by (simp add: class_fifo_def)
qed

theorem ask_priority_fifo_witness:
  "map (ae_turn \<circ> qa_entry) (aq_queued (as_queue sample_asks)) = [''t2'', ''t3''] \<and>
   foreground (last (as_promoted (sys_pump 0 zero_outcome sample_asks)))"
proof -
  have "as_pumps sample_asks = [AtTop] \<and> aq_open (as_queue sample_asks) = None \<and>
      list_ex foreground (aq_queued (as_queue sample_asks))" by code_simp
  then have "foreground (last (as_promoted (sys_pump 0 zero_outcome sample_asks)))"
    using ask_priority_fifo[OF sample_asks_reachable] by blast
  moreover have "map (ae_turn \<circ> qa_entry) (aq_queued (as_queue sample_asks)) = [''t2'', ''t3'']"
    by code_simp
  ultimately show ?thesis by simp
qed

text \<open>The pump comes to rest: from every reachable state, whatever the surface answers, if no
  further ask arrives the pump ends after at most four steps per waiting ask plus five, and
  then the queue is empty and idle and every ask was resolved or drained.\<close>

theorem ask_pump_rests:
  assumes "ask_reachable S"
  shows "\<exists>n \<le> 4 * length (aq_queued (as_queue S)) + 5.
           as_pumps (pump_run answers n S) = [] \<and>
           \<not> aq_firing (as_queue (pump_run answers n S)) \<and>
           aq_queued (as_queue (pump_run answers n S)) = [] \<and>
           mset (as_enqueued S) = mset (map fst (as_resolved (pump_run answers n S))) +
             mset (as_drained (pump_run answers n S))"
proof -
  from pump_run_rest[OF ask_reachable_inv[OF assms]] obtain n where
    n: "n \<le> ask_work S" and inv: "ask_inv (pump_run answers n S)"
    and rest: "as_pumps (pump_run answers n S) = []"
    and enq: "as_enqueued (pump_run answers n S) = as_enqueued S" by blast
  have "pump_weight (as_pumps S) (aq_open (as_queue S)) \<le> 5"
    by (cases "(as_pumps S, aq_open (as_queue S))" rule: pump_weight.cases) auto
  then have "n \<le> 4 * length (aq_queued (as_queue S)) + 5" using n by (simp add: ask_work_def)
  with ask_rest_accounted[OF inv rest] rest enq show ?thesis by metis
qed

theorem ask_pump_rests_witness:
  "\<exists>n. as_pumps (pump_run (\<lambda>_. zero_outcome) n sample_asks) = [] \<and>
     length (as_resolved (pump_run (\<lambda>_. zero_outcome) n sample_asks)) +
     length (as_drained (pump_run (\<lambda>_. zero_outcome) n sample_asks)) = 3"
proof -
  have three: "size (mset (as_enqueued sample_asks)) = 3" by code_simp
  from ask_pump_rests[OF sample_asks_reachable, of "\<lambda>_. zero_outcome"] obtain n where
    "as_pumps (pump_run (\<lambda>_. zero_outcome) n sample_asks) = []"
    and m: "mset (as_enqueued sample_asks) =
      mset (map fst (as_resolved (pump_run (\<lambda>_. zero_outcome) n sample_asks))) +
      mset (as_drained (pump_run (\<lambda>_. zero_outcome) n sample_asks))" by blast
  moreover from arg_cong[OF m, of size] three have
    "length (as_resolved (pump_run (\<lambda>_. zero_outcome) n sample_asks)) +
     length (as_drained (pump_run (\<lambda>_. zero_outcome) n sample_asks)) = 3" by simp
  ultimately show ?thesis by blast
qed

text \<open>A dead turn leaves no zombie ask: draining a turn cancels the open dialog when it belongs to
  that turn and only then, removes exactly the waiting asks of that turn, and, when every
  enqueued ask is a distinct one, no drained ask is ever promoted to a dialog.\<close>

theorem ask_drain_no_zombie:
  assumes "ask_reachable S" and "distinct (as_enqueued S)"
  shows "set (as_drained S) \<inter> set (as_promoted S) = {} \<and>
         aq_queued (fst (drain_turn t (as_queue S))) = filter (\<lambda>qa. \<not> of_turn t qa) (aq_queued (as_queue S)) \<and>
         snd (drain_turn t (as_queue S)) = filter (of_turn t) (aq_queued (as_queue S)) \<and>
         (case aq_open (as_queue S) of
            None \<Rightarrow> aq_open (fst (drain_turn t (as_queue S))) = None
          | Some oa \<Rightarrow> aq_open (fst (drain_turn t (as_queue S))) =
              Some (if of_turn t (oa_ask oa) then oa\<lparr>oa_cancelled := True\<rparr> else oa))"
proof -
  have m: "mset (as_enqueued S) =
      mset (as_promoted S) + mset (as_drained S) + mset (aq_queued (as_queue S))"
    using ask_reachable_inv[OF assms(1)] by (simp add: ask_inv_def accounted_def)
  then have "distinct (as_promoted S @ as_drained S @ aq_queued (as_queue S))"
    using assms(2) mset_eq_imp_distinct_iff by (metis add.assoc mset_append)
  then have "set (as_drained S) \<inter> set (as_promoted S) = {}" by auto
  then show ?thesis by (auto simp: drain_turn_def cancel_open_def split: option.splits)
qed

theorem ask_drain_no_zombie_witness:
  "map (ae_turn \<circ> qa_entry) (snd (drain_turn ''t2'' (as_queue sample_asks))) = [''t2''] \<and>
   set (as_drained sample_asks) \<inter> set (as_promoted sample_asks) = {}"
proof -
  have "distinct (as_enqueued sample_asks)" by code_simp
  note drain = ask_drain_no_zombie[OF sample_asks_reachable this, of "''t2''"]
  have "map (ae_turn \<circ> qa_entry) (filter (of_turn ''t2'') (aq_queued (as_queue sample_asks))) = [''t2'']"
    by code_simp
  with drain show ?thesis by (metis (no_types, lifting))
qed

end
