(* ===== verification/Redact.thy ===== *)
theory Redact
  imports Json
begin

text \<open>
  The redaction chokepoint, \<^verbatim>\<open>kit/redact/redact.go\<close>: the JSON-tree walker that replaces
  the values of secret-named fields, the two regular expressions that scrub token-shaped text
  inside strings (written out as scanners over bytes), and the fallback for bodies that are not
  JSON. A raw body is either a JSON document or other bytes (\<open>body\<close>).
\<close>

section \<open>Secret field names\<close>

definition redacted :: string where
  "redacted = ''[REDACTED]''"

definition secret_keys :: "string list" where
  "secret_keys = [''authorization'', ''api_key'', ''api-key'', ''apikey'', ''key'', ''bearer'',
     ''token'', ''x-api-key'']"

text \<open>
  \<^verbatim>\<open>strings.ToLower\<close> as far as its ASCII output goes: beside the ASCII letters, the
  Kelvin sign (E2 84 AA) lowers to \<^verbatim>\<open>k\<close> and the dotted capital I (C4 B0) to
  \<^verbatim>\<open>i\<close>; every other byte sequence keeps a non-ASCII byte and so names no secret key.
\<close>

fun to_lower :: "string \<Rightarrow> string" where
  "to_lower [] = []"
| "to_lower (c # cs) =
     (case c # cs of
        CHR 0xE2 # CHR 0x84 # CHR 0xAA # r \<Rightarrow> CHR ''k'' # to_lower r
      | CHR 0xC4 # CHR 0xB0 # r \<Rightarrow> CHR ''i'' # to_lower r
      | _ \<Rightarrow> lower_ascii c # to_lower cs)"

definition is_secret_key :: "string \<Rightarrow> bool" where
  "is_secret_key k = (to_lower (trim_space k) \<in> set secret_keys)"

section \<open>Token scrubbers\<close>

definition between :: "char \<Rightarrow> char \<Rightarrow> char \<Rightarrow> bool" where
  \<comment> \<open>a range of a character class\<close>
  [simp]: "between lo hi c = (lo \<le> c \<and> c \<le> hi)"

definition digit_char :: "char \<Rightarrow> bool" where
  "digit_char c = between CHR ''0'' CHR ''9'' c"

definition letter_char :: "char \<Rightarrow> bool" where
  "letter_char c = (between CHR ''a'' CHR ''z'' c \<or> between CHR ''A'' CHR ''Z'' c)"

definition word_char :: "char \<Rightarrow> bool" where
  \<comment> \<open>the bytes on whose edge RE2's \<^verbatim>\<open>\b\<close> holds\<close>
  "word_char c = (letter_char c \<or> digit_char c \<or> c = CHR ''_'')"

definition re_space :: "char \<Rightarrow> bool" where
  "re_space c = (c = CHR '' '' \<or> c = CHR 9 \<or> c = CHR 10 \<or> c = CHR 12 \<or> c = CHR 13)"

definition bearer_char :: "char \<Rightarrow> bool" where
  "bearer_char c = (letter_char c \<or> digit_char c \<or> c \<in> {CHR ''.'', CHR ''_'', CHR ''-'', CHR ''=''})"

definition sk_char :: "char \<Rightarrow> bool" where
  "sk_char c = (letter_char c \<or> digit_char c \<or> c = CHR ''_'' \<or> c = CHR ''-'')"

text \<open>
  The match of an expression at the head of the input, when the byte before it is a word byte or
  not (\<open>w\<close>): the matched text and the rest. Both expressions start with \<^verbatim>\<open>\b\<close>
  and a letter, so a match needs a non-word byte (or the start) before it.
\<close>

definition match_sk :: "bool \<Rightarrow> string \<Rightarrow> (string \<times> string) option" where
  \<comment> \<open>\<^verbatim>\<open>\bsk-[A-Za-z0-9_\-]{6,}\<close>\<close>
  "match_sk w s =
     (let tok = takeWhile sk_char (drop 3 s)
      in if \<not> w \<and> has_prefix s ''sk-'' \<and> 6 \<le> length tok
         then Some (''sk-'' @ tok, dropWhile sk_char (drop 3 s)) else None)"

definition bearer_kw :: "string \<Rightarrow> bool" where
  \<comment> \<open>\<^verbatim>\<open>(?i)Bearer\<close>\<close>
  "bearer_kw k = (map lower_ascii k = ''bearer'')"

definition match_bearer :: "bool \<Rightarrow> string \<Rightarrow> (string \<times> string) option" where
  \<comment> \<open>\<^verbatim>\<open>(?i)\bBearer\b\s+[A-Za-z0-9._\-=]+\<close>\<close>
  "match_bearer w s =
     (let kw = take 6 s; sp = takeWhile re_space (drop 6 s);
          r = dropWhile re_space (drop 6 s); tok = takeWhile bearer_char r
      in if \<not> w \<and> bearer_kw kw \<and> sp \<noteq> [] \<and> tok \<noteq> []
         then Some (kw @ sp @ tok, dropWhile bearer_char r) else None)"

text \<open>\<^verbatim>\<open>ReplaceAllString\<close>: leftmost matches, one after the other.\<close>

function replace_all ::
    "(bool \<Rightarrow> string \<Rightarrow> (string \<times> string) option) \<Rightarrow> string \<Rightarrow> bool \<Rightarrow> string \<Rightarrow> string" where
  "replace_all m by' w [] = []"
| "replace_all m by' w (c # cs) =
     (case m w (c # cs) of
        Some (tok, r) \<Rightarrow>
          if length r < length (c # cs)
          then by' @ replace_all m by' (tok \<noteq> [] \<and> word_char (last tok)) r
          else c # replace_all m by' (word_char c) cs
      | None \<Rightarrow> c # replace_all m by' (word_char c) cs)"
  by pat_completeness auto
termination
  by (relation "measure (\<lambda>(m, b, w, s). length s)") auto

definition scrub_bytes :: "string \<Rightarrow> string" where
  "scrub_bytes s =
     replace_all match_sk redacted False
       (replace_all match_bearer (''Bearer '' @ redacted) False s)"

definition scrub_error :: "string option \<Rightarrow> string" where
  "scrub_error err = (case err of None \<Rightarrow> [] | Some msg \<Rightarrow> scrub_bytes msg)"

section \<open>The walker\<close>

text \<open>
  A field whose value is a string is scrubbed in place; a string anywhere else (an element of an
  array, the document itself) is left as it is. Decoding and encoding the map normalises the
  members.
\<close>

definition redact_member :: "(json \<Rightarrow> json) \<Rightarrow> string \<Rightarrow> json \<Rightarrow> json" where
  "redact_member walk k v =
     (if is_secret_key k then JStr redacted
      else case v of JStr s \<Rightarrow> JStr (scrub_bytes s) | _ \<Rightarrow> walk v)"

lemma redact_member_cong [fundef_cong]:
  "k = k' \<Longrightarrow> v = v' \<Longrightarrow> walk v' = walk' v' \<Longrightarrow> redact_member walk k v = redact_member walk' k' v'"
  by (auto simp: redact_member_def split: json.splits)

lemma size_member: "(k, v) \<in> set fs \<Longrightarrow> size v < Suc (size_list (\<lambda>x. Suc (size (snd x))) fs)"
  by (induction fs) auto

function walk_redact :: "json \<Rightarrow> json" where
  "walk_redact (JObj fs) =
     JObj (map_fields (map (\<lambda>(k, v). (k, redact_member walk_redact k v)) fs))"
| "walk_redact (JArr vs) = JArr (map walk_redact vs)"
| "walk_redact JNull = JNull"
| "walk_redact (JBool b) = JBool b"
| "walk_redact (JNum n) = JNum n"
| "walk_redact (JFrac s) = JFrac s"
| "walk_redact (JStr s) = JStr s"
  by pat_completeness auto
termination
  by (relation "measure size") (auto simp: size_member less_Suc_eq_le intro: size_list_estimation')

datatype body = Doc json | NotJson string

fun redact :: "body \<Rightarrow> body" where
  "redact (Doc v) = Doc (walk_redact v)"
| "redact (NotJson s) = NotJson (if trim_space s = [] then s else scrub_bytes s)"

section \<open>What a scrubbed text cannot contain\<close>

fun matches_in :: "(bool \<Rightarrow> string \<Rightarrow> (string \<times> string) option) \<Rightarrow> bool \<Rightarrow> string \<Rightarrow> bool" where
  "matches_in m w [] = False"
| "matches_in m w (c # cs) = (m w (c # cs) \<noteq> None \<or> matches_in m (word_char c) cs)"

lemma replace_all_unmatched: "\<not> matches_in m w s \<Longrightarrow> replace_all m b w s = s"
  by (induction m w s rule: matches_in.induct) (auto split: option.splits)

lemma matches_in_append:
  "\<not> matches_in m w (a @ b) \<Longrightarrow> \<not> matches_in m (if a = [] then w else word_char (last a)) b"
  by (induction a arbitrary: w) (auto split: if_splits)

lemma match_skE:
  assumes "match_sk w s = Some (tok, r)"
  shows "s = tok @ r" and "length r < length s" and "tok \<noteq> []" and
    "r = [] \<or> \<not> sk_char (hd r)"
proof -
  from assms have p: "has_prefix s ''sk-''" and t: "tok = ''sk-'' @ takeWhile sk_char (drop 3 s)"
    and r: "r = dropWhile sk_char (drop 3 s)"
    by (auto simp: match_sk_def Let_def split: if_splits)
  from p obtain x where "s = ''sk-'' @ x"
    by (auto simp: has_prefix_def prefix_def)
  with t r show *: "s = tok @ r" by simp
  from t show **: "tok \<noteq> []" by simp
  from * ** show "length r < length s" by simp
  show "r = [] \<or> \<not> sk_char (hd r)"
    unfolding r using hd_dropWhile by blast
qed

lemma bearer_kwD:
  assumes "bearer_kw k"
  shows "length k = 6" and "lower_ascii (hd k) = CHR ''b''" and "CHR ''['' \<notin> set k"
proof -
  from assms have k: "map lower_ascii k = ''bearer''" by (simp only: bearer_kw_def)
  have "length (map lower_ascii k) = length ''bearer''"
    by (simp only: k)
  then show l: "length k = 6" by simp
  have "hd (map lower_ascii k) = CHR ''b''" unfolding k by simp
  with l show "lower_ascii (hd k) = CHR ''b''" by (cases k) simp_all
  show "CHR ''['' \<notin> set k"
  proof
    assume "CHR ''['' \<in> set k"
    then have "lower_ascii CHR ''['' \<in> set (map lower_ascii k)" by simp
    then show False unfolding k by (simp add: lower_ascii_def)
  qed
qed

lemma bearer_kw_tail:
  assumes "bearer_kw (c # cs)"
  shows "\<forall>x\<in>set cs. lower_ascii x \<noteq> CHR ''b''"
proof -
  from assms have "map lower_ascii cs = ''earer''"
    unfolding bearer_kw_def by (simp only: list.map list.inject)
  then have "lower_ascii ` set cs = set ''earer''"
    by (metis list.set_map)
  moreover have "CHR ''b'' \<notin> set ''earer''" by code_simp
  ultimately show ?thesis by (metis imageI)
qed

lemma match_bearerE:
  assumes "match_bearer w s = Some (tok, r)"
  shows "s = tok @ r" and "length r < length s" and "tok \<noteq> []" and
    "r = [] \<or> \<not> bearer_char (hd r)" and "lower_ascii (hd s) = CHR ''b''"
proof -
  let ?r = "dropWhile re_space (drop 6 s)"
  from assms have k: "bearer_kw (take 6 s)"
    and t: "tok = take 6 s @ takeWhile re_space (drop 6 s) @ takeWhile bearer_char ?r"
    and r: "r = dropWhile bearer_char ?r"
    by (auto simp: match_bearer_def Let_def split: if_splits)
  show *: "s = tok @ r" unfolding t r by simp
  from bearer_kwD(1)[OF k] have n: "take 6 s \<noteq> []" by auto
  then show **: "tok \<noteq> []" unfolding t by simp
  from * ** show "length r < length s" by simp
  show "r = [] \<or> \<not> bearer_char (hd r)"
    unfolding r using hd_dropWhile by blast
  from bearer_kwD(2)[OF k] n show "lower_ascii (hd s) = CHR ''b''"
    by (cases s) auto
qed

lemma replace_sk_Cons:
  "replace_all match_sk b w (c # cs) =
     (case match_sk w (c # cs) of
        Some (tok, r) \<Rightarrow> b @ replace_all match_sk b (word_char (last tok)) r
      | None \<Rightarrow> c # replace_all match_sk b (word_char c) cs)"
  using match_skE(2,3)[of w "c # cs"]
  by (cases "match_sk w (c # cs)") (auto simp: less_Suc_eq_le)

lemma replace_bearer_Cons:
  "replace_all match_bearer b w (c # cs) =
     (case match_bearer w (c # cs) of
        Some (tok, r) \<Rightarrow> b @ replace_all match_bearer b (word_char (last tok)) r
      | None \<Rightarrow> c # replace_all match_bearer b (word_char c) cs)"
  using match_bearerE(2,3)[of w "c # cs"]
  by (cases "match_bearer w (c # cs)") (auto simp: less_Suc_eq_le)

lemma match_sk_iff:
  "match_sk w s \<noteq> None \<longleftrightarrow>
     \<not> w \<and> (\<exists>u. length u = 6 \<and> (\<forall>c\<in>set u. sk_char c) \<and> prefix (''sk-'' @ u) s)"
proof
  assume "match_sk w s \<noteq> None"
  then have w: "\<not> w" and p: "has_prefix s ''sk-''" and l: "6 \<le> length (takeWhile sk_char (drop 3 s))"
    by (auto simp: match_sk_def Let_def split: if_splits)
  from p obtain x where s: "s = ''sk-'' @ x"
    by (auto simp: has_prefix_def prefix_def)
  let ?u = "take 6 (takeWhile sk_char x)"
  have "length ?u = 6" using l s by simp
  moreover have "\<forall>c\<in>set ?u. sk_char c"
    by (meson in_set_takeD set_takeWhileD)
  moreover have "prefix ?u x"
    by (meson prefix_order.trans take_is_prefix takeWhile_is_prefix)
  ultimately show "\<not> w \<and> (\<exists>u. length u = 6 \<and> (\<forall>c\<in>set u. sk_char c) \<and> prefix (''sk-'' @ u) s)"
    using w s by (intro conjI exI[of _ ?u]) auto
next
  assume "\<not> w \<and> (\<exists>u. length u = 6 \<and> (\<forall>c\<in>set u. sk_char c) \<and> prefix (''sk-'' @ u) s)"
  then obtain u x where u: "\<not> w" "length u = 6" "\<forall>c\<in>set u. sk_char c" "s = ''sk-'' @ u @ x"
    by (auto simp: prefix_def)
  then have "takeWhile sk_char (drop 3 s) = u @ takeWhile sk_char x"
    by (simp add: takeWhile_append)
  with u show "match_sk w s \<noteq> None"
    by (simp add: match_sk_def Let_def has_prefix_def)
qed

definition bearer_parts :: "string \<Rightarrow> string \<Rightarrow> char \<Rightarrow> bool" where
  "bearer_parts k sp t = (bearer_kw k \<and> sp \<noteq> [] \<and> (\<forall>c\<in>set sp. re_space c) \<and> bearer_char t)"

lemma bearer_parts_no_bracket:
  assumes "bearer_parts k sp t"
  shows "CHR ''['' \<notin> set (k @ sp @ [t])"
proof -
  have k: "CHR ''['' \<notin> set k"
    using assms bearer_kwD(3) unfolding bearer_parts_def by blast
  have "\<forall>c\<in>set sp. re_space c" "bearer_char t"
    using assms unfolding bearer_parts_def by blast+
  moreover have "\<not> re_space CHR ''[''" "\<not> bearer_char CHR ''[''" by code_simp+
  ultimately show ?thesis
    using k by auto
qed

lemma bearer_partsE:
  assumes "match_bearer w s \<noteq> None"
  obtains k sp t where "\<not> w" "bearer_parts k sp t" "prefix (k @ sp @ [t]) s"
proof -
  let ?r = "dropWhile re_space (drop 6 s)"
  let ?k = "take 6 s" let ?sp = "takeWhile re_space (drop 6 s)"
  from assms have w: "\<not> w" and k: "bearer_kw ?k"
    and sp: "?sp \<noteq> []" and t: "takeWhile bearer_char ?r \<noteq> []"
    by (auto simp: match_bearer_def Let_def split: if_splits)
  from t obtain t1 ts where r: "?r = t1 # ts" and t1: "bearer_char t1"
    by (cases ?r) (auto split: if_splits)
  have "s = ?k @ ?sp @ t1 # ts" by (metis append_take_drop_id r takeWhile_dropWhile_id)
  then have p: "prefix (?k @ ?sp @ [t1]) s"
    by (metis append.assoc append_Cons append_Nil prefixI)
  have "\<forall>c\<in>set ?sp. re_space c" by (meson set_takeWhileD)
  then have "bearer_parts ?k ?sp t1"
    unfolding bearer_parts_def by (intro conjI k sp t1)
  from that[OF w this p] show thesis .
qed

lemma match_bearerI:
  assumes w: "\<not> w" and bp: "bearer_parts k sp t" and p: "prefix (k @ sp @ [t]) s"
  shows "match_bearer w s \<noteq> None"
proof -
  from bp have k: "bearer_kw k" and sp: "sp \<noteq> []" "\<forall>c\<in>set sp. re_space c"
    and t: "bearer_char t"
    unfolding bearer_parts_def by blast+
  from p obtain x where s: "s = k @ sp @ t # x"
    by (auto simp only: prefix_def append.assoc append_Cons append_Nil)
  note l = bearer_kwD(1)[OF k]
  have nt: "\<not> re_space t"
    using t by (auto simp: bearer_char_def re_space_def letter_char_def digit_char_def)
  have d: "drop 6 s = sp @ t # x" "take 6 s = k" using s l by simp_all
  have "takeWhile re_space (drop 6 s) = sp" "dropWhile re_space (drop 6 s) = t # x"
    using d sp nt by (simp_all add: takeWhile_append dropWhile_append)
  then show ?thesis
    using w k sp t d by (simp add: match_bearer_def Let_def)
qed

lemma sk_head_flag:
  assumes "r = [] \<or> \<not> sk_char (hd r)"
  shows "replace_all match_sk b w r = replace_all match_sk b w' r"
proof (cases r)
  case (Cons c cs)
  with assms have "\<not> has_prefix r ''sk-''"
    by (auto simp: has_prefix_def prefix_def sk_char_def letter_char_def)
  then have "match_sk v r = None" for v
    by (simp add: match_sk_def Let_def)
  then show ?thesis unfolding Cons by (simp only: replace_sk_Cons option.simps)
qed simp

lemma matches_head_flag:
  assumes "r = [] \<or> \<not> letter_char (hd r)"
  shows "matches_in match_sk w r = matches_in match_sk w' r"
    and "matches_in match_bearer w r = matches_in match_bearer w' r"
proof -
  have "match_sk v r = None \<and> match_bearer v r = None" if "r = c # cs" for v c cs
  proof
    show "match_sk v r = None"
      using that assms by (auto simp: match_sk_def Let_def has_prefix_def prefix_def letter_char_def)
    show "match_bearer v r = None"
    proof (rule ccontr)
      assume "match_bearer v r \<noteq> None"
      then obtain tok r' where "match_bearer v r = Some (tok, r')" by auto
      from match_bearerE(5)[OF this] that have "lower_ascii c = CHR ''b''" by simp
      then have "letter_char c"
        by (cases "CHR ''A'' \<le> c \<and> c \<le> CHR ''Z''") (auto simp: lower_ascii_def letter_char_def)
      with that assms show False by simp
    qed
  qed
  then show "matches_in match_sk w r = matches_in match_sk w' r"
    "matches_in match_bearer w r = matches_in match_bearer w' r"
    by (cases r; simp)+
qed

lemma redacted_Cons: "redacted = CHR ''['' # ''REDACTED]''"
  by (simp add: redacted_def)

lemma sk_output_prefix:
  "prefix p (replace_all match_sk redacted w t) \<Longrightarrow> CHR ''['' \<notin> set p \<Longrightarrow> prefix p t"
proof (induction t arbitrary: p w)
  case (Cons c cs)
  show ?case
  proof (cases p)
    case P: (Cons a p')
    show ?thesis
    proof (cases "match_sk w (c # cs)")
      case None
      with Cons P show ?thesis by (auto simp only: replace_sk_Cons option.simps) auto
    next
      case (Some z)
      then have "prefix p (redacted @ replace_all match_sk redacted (word_char (last (fst z))) (snd z))"
        using Cons.prems(1) by (simp only: replace_sk_Cons option.simps split_beta)
      with P Cons.prems(2) show ?thesis by (simp add: redacted_Cons)
    qed
  qed simp
qed simp

lemma matches_in_redacted:
  "matches_in match_sk w (redacted @ x) = matches_in match_sk False x"
  "matches_in match_bearer w (redacted @ x) = matches_in match_bearer False x"
proof -
  have low: "list_all (\<lambda>c. lower_ascii c \<noteq> CHR ''b'') redacted" by code_simp
  have n: "match_sk v (c # y) = None \<and> match_bearer v (c # y) = None"
    if "c \<in> set redacted" for v c y
  proof
    show "match_sk v (c # y) = None"
      using that by (auto simp: redacted_def match_sk_def Let_def has_prefix_def)
    show "match_bearer v (c # y) = None"
      using that low match_bearerE(5)[of v "c # y"]
      by (cases "match_bearer v (c # y)") (auto simp: list_all_iff)
  qed
  have w: "word_char CHR '']'' = False" by code_simp
  have m: "matches_in match_sk w (CHR ''['' # ''REDACTED]'' @ x) = matches_in match_sk False x"
    "matches_in match_bearer w (CHR ''['' # ''REDACTED]'' @ x) = matches_in match_bearer False x"
    using n by (simp_all add: redacted_def w)
  then show "matches_in match_sk w (redacted @ x) = matches_in match_sk False x"
    "matches_in match_bearer w (redacted @ x) = matches_in match_bearer False x"
    by (simp_all add: redacted_def)
qed

lemma sk_scrubbed: "\<not> matches_in match_sk w (replace_all match_sk redacted w s)"
proof (induction "length s" arbitrary: s w rule: less_induct)
  case less
  show ?case
  proof (cases s)
    case (Cons c cs)
    let ?out = "replace_all match_sk redacted w s"
    show ?thesis
    proof (cases "match_sk w (c # cs)")
      case None
      then have out: "?out = c # replace_all match_sk redacted (word_char c) cs"
        unfolding Cons by (simp only: replace_sk_Cons option.simps)
      have "match_sk w ?out = None"
      proof (rule ccontr)
        assume "match_sk w ?out \<noteq> None"
        then obtain u where u: "\<not> w" "length u = 6" "\<forall>c\<in>set u. sk_char c" "prefix (''sk-'' @ u) ?out"
          unfolding match_sk_iff by blast
        have "CHR ''['' \<notin> set (''sk-'' @ u)"
          using u(3) by (auto simp: sk_char_def letter_char_def digit_char_def)
        then have "prefix (''sk-'' @ u) (c # cs)"
          using sk_output_prefix u(4) Cons by blast
        with u have "match_sk w (c # cs) \<noteq> None"
          unfolding match_sk_iff by blast
        with None show False by simp
      qed
      moreover have "\<not> matches_in match_sk (word_char c) (replace_all match_sk redacted (word_char c) cs)"
        using less Cons by simp
      ultimately show ?thesis unfolding out by simp
    next
      case (Some z)
      obtain tok r where z: "z = (tok, r)" by fastforce
      note m = match_skE[OF Some[unfolded z]]
      have out: "?out = redacted @ replace_all match_sk redacted (word_char (last tok)) r"
        unfolding Cons using Some z by (simp only: replace_sk_Cons option.simps prod.simps)
      also have "replace_all match_sk redacted (word_char (last tok)) r = replace_all match_sk redacted False r"
        using sk_head_flag m(4) .
      finally show ?thesis
        using less m(2) Cons by (simp add: matches_in_redacted)
    qed
  qed simp
qed

text \<open>
  Scrubbing keys does not create a new bearer token.
\<close>

lemma sk_keeps_no_bearer:
  "\<not> matches_in match_bearer w s \<Longrightarrow> \<not> matches_in match_bearer w (replace_all match_sk redacted w s)"
proof (induction "length s" arbitrary: s w rule: less_induct)
  case less
  show ?case
  proof (cases s)
    case (Cons c cs)
    let ?out = "replace_all match_sk redacted w s"
    show ?thesis
    proof (cases "match_sk w (c # cs)")
      case None
      then have out: "?out = c # replace_all match_sk redacted (word_char c) cs"
        unfolding Cons by (simp only: replace_sk_Cons option.simps)
      have "match_bearer w ?out = None"
      proof (rule ccontr)
        assume "match_bearer w ?out \<noteq> None"
        then obtain k sp t where u: "\<not> w" "bearer_parts k sp t" "prefix (k @ sp @ [t]) ?out"
          by (rule bearer_partsE)
        have "prefix (k @ sp @ [t]) (c # cs)"
          using sk_output_prefix[OF u(3) bearer_parts_no_bracket[OF u(2)]] Cons by simp
        then have "match_bearer w (c # cs) \<noteq> None"
          by (rule match_bearerI[OF u(1,2)])
        with less.prems Cons show False by simp
      qed
      moreover have "\<not> matches_in match_bearer (word_char c) (replace_all match_sk redacted (word_char c) cs)"
        using less Cons by simp
      ultimately show ?thesis unfolding out by simp
    next
      case (Some z)
      obtain tok r where z: "z = (tok, r)" by fastforce
      note m = match_skE[OF Some[unfolded z]]
      have nl: "r = [] \<or> \<not> letter_char (hd r)"
        using m(4) by (auto simp: sk_char_def)
      have out: "?out = redacted @ replace_all match_sk redacted (word_char (last tok)) r"
        unfolding Cons using Some z by (simp only: replace_sk_Cons option.simps prod.simps)
      also have "replace_all match_sk redacted (word_char (last tok)) r = replace_all match_sk redacted False r"
        using sk_head_flag m(4) .
      finally have o: "?out = redacted @ replace_all match_sk redacted False r" .
      have "\<not> matches_in match_bearer w (tok @ r)"
        using less.prems m(1) Cons by simp
      then have "\<not> matches_in match_bearer False r"
        using matches_in_append matches_head_flag(2)[OF nl] by metis
      then show ?thesis
        unfolding o using less m(2) Cons by (simp add: matches_in_redacted)
    qed
  qed simp
qed

lemma lower_b: "lower_ascii c = CHR ''b'' \<longleftrightarrow> c = CHR ''b'' \<or> c = CHR ''B''"
proof (cases "CHR ''A'' \<le> c \<and> c \<le> CHR ''Z''")
  case True
  define n :: nat where "n = of_char c"
  have c: "c = char_of n" by (simp add: n_def)
  have n: "65 \<le> n" "n \<le> 90"
    using True by (auto simp: less_eq_char_def n_def)
  have l: "lower_ascii c = char_of (n + 32)"
    using True by (simp add: lower_ascii_def n_def)
  have b: "CHR ''b'' = char_of (98 :: nat)" by code_simp
  have "lower_ascii c = CHR ''b'' \<longleftrightarrow> (char_of (n + 32) :: char) = char_of (98 :: nat)"
    by (simp only: l b)
  also have "\<dots> \<longleftrightarrow> n = 66"
    using n by (simp add: char_of_eq_iff take_bit_eq_mod)
  also have "\<dots> \<longleftrightarrow> c = CHR ''B''"
    using n by (simp add: c char_of_eq_iff take_bit_eq_mod)
  also have "\<dots> \<longleftrightarrow> c = CHR ''b'' \<or> c = CHR ''B''"
    using True by (auto simp: less_eq_char_def)
  finally show ?thesis .
next
  case False
  then have "c \<noteq> CHR ''B''" by (auto simp: less_eq_char_def)
  with False show ?thesis by (auto simp: lower_ascii_def)
qed

definition bearer_repl :: string where
  "bearer_repl = ''Bearer '' @ redacted"

lemma bearer_output_prefix:
  "prefix p (replace_all match_bearer bearer_repl w t) \<Longrightarrow> CHR ''['' \<notin> set p \<Longrightarrow>
   prefix p t \<or> (\<exists>p1 p2 x. p = p1 @ CHR ''B'' # p2 \<and> prefix (p1 @ [x]) t \<and>
     lower_ascii x = CHR ''b'' \<and> prefix p2 ''earer '')"
proof (induction t arbitrary: p w)
  case (Cons c cs)
  show ?case
  proof (cases p)
    case P: (Cons a p')
    show ?thesis
    proof (cases "match_bearer w (c # cs)")
      case None
      then have "prefix p (c # replace_all match_bearer bearer_repl (word_char c) cs)"
        using Cons.prems by (simp only: replace_bearer_Cons option.simps)
      with P have a: "a = c" and p': "prefix p' (replace_all match_bearer bearer_repl (word_char c) cs)"
        by simp_all
      have "CHR ''['' \<notin> set p'" using Cons.prems P by simp
      from Cons.IH[OF p' this] show ?thesis
      proof
        assume "prefix p' cs"
        then show ?thesis using P a by simp
      next
        assume "\<exists>p1 p2 x. p' = p1 @ CHR ''B'' # p2 \<and> prefix (p1 @ [x]) cs \<and>
          lower_ascii x = CHR ''b'' \<and> prefix p2 ''earer ''"
        then obtain p1 p2 x where q: "p' = p1 @ CHR ''B'' # p2" "prefix (p1 @ [x]) cs"
          "lower_ascii x = CHR ''b''" "prefix p2 ''earer ''"
          by (elim conjE exE)
        show ?thesis
          using q P a by (intro disjI2 exI[of _ "c # p1"] exI[of _ p2] exI[of _ x]) simp
      qed
    next
      case (Some z)
      then have pr: "prefix p (''Bearer '' @ redacted @ replace_all match_bearer bearer_repl (word_char (last (fst z))) (snd z))"
        using Cons.prems(1) unfolding bearer_repl_def
        by (simp only: replace_bearer_Cons option.simps split_beta append.assoc)
      then have "a = CHR ''B'' \<and> prefix p' (''earer '' @ redacted @ replace_all match_bearer bearer_repl (word_char (last (fst z))) (snd z))"
        unfolding P by simp
      moreover have "prefix p' ''earer ''"
      proof -
        from calculation have "prefix p' ''earer '' \<or> (\<exists>q. p' = ''earer '' @ q \<and>
            prefix q (redacted @ replace_all match_bearer bearer_repl (word_char (last (fst z))) (snd z)))"
          by (simp only: prefix_append)
        then show ?thesis
        proof (elim disjE exE conjE)
          fix q
          assume q: "p' = ''earer '' @ q"
            "prefix q (redacted @ replace_all match_bearer bearer_repl (word_char (last (fst z))) (snd z))"
          have "q = []"
            using q Cons.prems(2) P by (cases q) (auto simp: redacted_Cons)
          then show ?thesis using q by simp
        qed
      qed
      moreover have "lower_ascii c = CHR ''b''"
        using match_bearerE(5)[of w "c # cs"] Some by (cases z) simp
      ultimately show ?thesis
        using P by (intro disjI2 exI[of _ "[]"] exI[of _ p'] exI[of _ c]) simp
    qed
  qed simp
qed simp

lemma matches_in_bearer_repl: "matches_in match_bearer w (bearer_repl @ x) = matches_in match_bearer False x"
proof -
  have n1: "match_bearer w (''Bearer '' @ redacted @ x) = None"
    by (simp add: match_bearer_def Let_def redacted_def re_space_def bearer_char_def letter_char_def
        digit_char_def)
  have low: "list_all (\<lambda>c. lower_ascii c \<noteq> CHR ''b'') ''earer ''" by code_simp
  have n2: "match_bearer v (c # y) = None" if "c \<in> set ''earer ''" for v c y
    using that low match_bearerE(5)[of v "c # y"]
    by (cases "match_bearer v (c # y)") (auto simp: list_all_iff)
  have w: "word_char CHR '' '' = False" by code_simp
  have "matches_in match_bearer w (bearer_repl @ x) =
      matches_in match_bearer (word_char CHR ''B'') (''earer '' @ redacted @ x)"
    unfolding bearer_repl_def using n1 by simp
  also have "\<dots> = matches_in match_bearer (word_char CHR '' '') (redacted @ x)"
    using n2 by simp
  finally show ?thesis by (simp add: matches_in_redacted)
qed

lemma bearer_head_flag:
  assumes "r = [] \<or> \<not> bearer_char (hd r)"
  shows "replace_all match_bearer b w r = replace_all match_bearer b w' r"
proof (cases r)
  case (Cons c cs)
  have "match_bearer v r = None" for v
  proof (rule ccontr)
    assume "match_bearer v r \<noteq> None"
    then obtain tok r' where "match_bearer v r = Some (tok, r')" by auto
    from match_bearerE(5)[OF this] have "lower_ascii (hd r) = CHR ''b''" .
    then have "bearer_char (hd r)" unfolding lower_b by (auto simp: bearer_char_def letter_char_def)
    with assms Cons show False by simp
  qed
  then show ?thesis unfolding Cons by (simp only: replace_bearer_Cons option.simps)
qed simp

lemma bearer_scrubbed: "\<not> matches_in match_bearer w (replace_all match_bearer bearer_repl w s)"
proof (induction "length s" arbitrary: s w rule: less_induct)
  case less
  show ?case
  proof (cases s)
    case (Cons c cs)
    let ?out = "replace_all match_bearer bearer_repl w s"
    show ?thesis
    proof (cases "match_bearer w (c # cs)")
      case None
      then have out: "?out = c # replace_all match_bearer bearer_repl (word_char c) cs"
        unfolding Cons by (simp only: replace_bearer_Cons option.simps)
      have "match_bearer w ?out = None"
      proof (rule ccontr)
        assume "match_bearer w ?out \<noteq> None"
        then obtain k sp t where u: "\<not> w" "bearer_parts k sp t" "prefix (k @ sp @ [t]) ?out"
          by (rule bearer_partsE)
        note nb = bearer_parts_no_bracket[OF u(2)]
        have kw: "bearer_kw k" and sp: "sp \<noteq> []" "\<forall>c\<in>set sp. re_space c"
          using u(2) unfolding bearer_parts_def by blast+
        have l: "length k = 6" using bearer_kwD[OF kw] by simp
        then obtain k0 kt where k: "k = k0 # kt" by (cases k) auto
        from u(3) have k0: "k0 = c" and p: "prefix (kt @ sp @ [t]) (replace_all match_bearer bearer_repl (word_char c) cs)"
          unfolding out k by simp_all
        have "CHR ''['' \<notin> set (kt @ sp @ [t])" using nb unfolding k by simp
        from bearer_output_prefix[OF p this]
        have "\<exists>t'. bearer_char t' \<and> prefix (kt @ sp @ [t']) cs"
        proof
          assume "prefix (kt @ sp @ [t]) cs"
          then show ?thesis using u(2) unfolding bearer_parts_def by blast
        next
          assume "\<exists>p1 p2 x. kt @ sp @ [t] = p1 @ CHR ''B'' # p2 \<and> prefix (p1 @ [x]) cs \<and>
            lower_ascii x = CHR ''b'' \<and> prefix p2 ''earer ''"
          then obtain p1 p2 x where q: "kt @ sp @ [t] = p1 @ CHR ''B'' # p2" "prefix (p1 @ [x]) cs"
            "lower_ascii x = CHR ''b''"
            by (elim conjE exE)
          have "CHR ''B'' \<notin> set kt"
            using bearer_kw_tail[OF kw[unfolded k]] unfolding lower_b by blast
          moreover have "CHR ''B'' \<notin> set sp"
          proof -
            have "\<not> re_space CHR ''B''" by code_simp
            then show ?thesis using sp(2) by blast
          qed
          ultimately have "CHR ''B'' \<notin> set (kt @ sp)" by simp
          moreover have "(kt @ sp) @ [t] = p1 @ CHR ''B'' # p2" using q(1) by simp
          ultimately have "p1 = kt @ sp"
            by (auto simp: append_eq_append_conv2 append_eq_Cons_conv Cons_eq_append_conv)
          moreover have "bearer_char x"
          proof -
            have "bearer_char CHR ''b''" "bearer_char CHR ''B''" by code_simp+
            then show ?thesis using q(3) unfolding lower_b by blast
          qed
          ultimately show ?thesis using q(2) by auto
        qed
        then obtain t' where t': "bearer_char t'" "prefix (kt @ sp @ [t']) cs" by blast
        have "bearer_parts k sp t'"
          using u(2) t'(1) unfolding bearer_parts_def by blast
        moreover have "prefix (k @ sp @ [t']) (c # cs)"
          using t'(2) k k0 by simp
        ultimately have "match_bearer w (c # cs) \<noteq> None"
          using match_bearerI[OF u(1)] by blast
        with None show False by simp
      qed
      moreover have "\<not> matches_in match_bearer (word_char c) (replace_all match_bearer bearer_repl (word_char c) cs)"
        using less Cons by simp
      ultimately show ?thesis unfolding out by simp
    next
      case (Some z)
      obtain tok r where z: "z = (tok, r)" by fastforce
      note m = match_bearerE[OF Some[unfolded z]]
      have out: "?out = bearer_repl @ replace_all match_bearer bearer_repl (word_char (last tok)) r"
        unfolding Cons using Some z by (simp only: replace_bearer_Cons option.simps prod.simps)
      also have "replace_all match_bearer bearer_repl (word_char (last tok)) r =
          replace_all match_bearer bearer_repl False r"
        using bearer_head_flag m(4) .
      finally show ?thesis
        using less m(2) Cons by (simp add: matches_in_bearer_repl)
    qed
  qed simp
qed

definition token_free :: "string \<Rightarrow> bool" where
  \<comment> \<open>neither expression matches anywhere\<close>
  "token_free s = (\<not> matches_in match_bearer False s \<and> \<not> matches_in match_sk False s)"

lemma scrub_token_free: "token_free (scrub_bytes s)"
  unfolding token_free_def scrub_bytes_def bearer_repl_def[symmetric]
  using sk_scrubbed sk_keeps_no_bearer bearer_scrubbed by blast

lemma scrub_fixed: "token_free s \<Longrightarrow> scrub_bytes s = s"
  by (simp add: token_free_def scrub_bytes_def replace_all_unmatched)

lemma scrub_idem: "scrub_bytes (scrub_bytes s) = scrub_bytes s"
  by (rule scrub_fixed) (rule scrub_token_free)

section \<open>What a redacted document cannot contain\<close>

text \<open>
  \<open>hidden v\<close>: every secret-named field holds the placeholder and every other field that
  holds a string is free of tokens, at any depth.
\<close>

function hidden :: "json \<Rightarrow> bool" where
  "hidden (JObj fs) = list_all (\<lambda>(k, v).
     if is_secret_key k then v = JStr redacted
     else case v of JStr s \<Rightarrow> token_free s | _ \<Rightarrow> hidden v) fs"
| "hidden (JArr vs) = list_all hidden vs"
| "hidden JNull = True"
| "hidden (JBool b) = True"
| "hidden (JNum n) = True"
| "hidden (JFrac s) = True"
| "hidden (JStr s) = True"
  by pat_completeness auto
termination
  by (relation "measure size") (auto simp: size_member less_Suc_eq_le intro: size_list_estimation')

lemma case_not_str:
  "\<nexists>s. v = JStr s \<Longrightarrow> (case v of JStr s \<Rightarrow> f s | _ \<Rightarrow> y) = y"
  by (cases v) auto

lemma walk_redact_hidden: "hidden (walk_redact v)"
proof (induction v rule: walk_redact.induct)
  case (1 fs)
  have member: "if is_secret_key k then redact_member walk_redact k v = JStr redacted
      else case redact_member walk_redact k v of JStr s \<Rightarrow> token_free s | _ \<Rightarrow> hidden (redact_member walk_redact k v)"
    if "(k, v) \<in> set fs" for k v
  proof (cases "is_secret_key k \<or> (\<exists>s. v = JStr s)")
    case True
    then show ?thesis by (auto simp: redact_member_def scrub_token_free)
  next
    case False
    then have m: "redact_member walk_redact k v = walk_redact v"
      by (auto simp: redact_member_def split: json.splits)
    have "hidden (walk_redact v)" using "1.IH"[OF that] by simp
    moreover have "\<nexists>s. walk_redact v = JStr s" using False by (cases v) auto
    ultimately show ?thesis unfolding m using False by (simp add: case_not_str)
  qed
  have "set (map_fields (map (\<lambda>(k, v). (k, redact_member walk_redact k v)) fs))
      \<subseteq> (\<lambda>(k, v). (k, redact_member walk_redact k v)) ` set fs"
    by (rule subset_trans[OF map_fields_subset]) (simp only: list.set_map subset_refl)
  then have "\<forall>x\<in>set (map_fields (map (\<lambda>(k, v). (k, redact_member walk_redact k v)) fs)).
      (\<lambda>(k, v). if is_secret_key k then v = JStr redacted
        else case v of JStr s \<Rightarrow> token_free s | _ \<Rightarrow> hidden v) x"
    using member by fastforce
  then show ?case by (simp only: walk_redact.simps hidden.simps list_all_iff)
next
  case (2 vs)
  then show ?case by (simp add: list_all_iff)
qed simp_all

lemma walk_redact_idem: "walk_redact (walk_redact v) = walk_redact v"
proof (induction v rule: walk_redact.induct)
  case (1 fs)
  let ?f = "\<lambda>(k, v). (k, redact_member walk_redact k v)"
  have secret_fixed: "redact_member walk_redact k (redact_member walk_redact k v) = redact_member walk_redact k v"
    if "(k, v) \<in> set fs" for k v
  proof (cases "is_secret_key k \<or> (\<exists>s. v = JStr s)")
    case True
    then show ?thesis by (auto simp: redact_member_def scrub_idem)
  next
    case False
    then have "redact_member walk_redact k v = walk_redact v"
      by (auto simp: redact_member_def split: json.splits)
    moreover have "\<nexists>s. walk_redact v = JStr s" using False by (cases v) auto
    ultimately show ?thesis
      using False "1.IH"[OF that] by (simp add: redact_member_def case_not_str)
  qed
  have "map ?f (map_fields (map ?f fs)) = map_fields (map ?f fs)"
  proof (rule map_idI)
    fix x assume "x \<in> set (map_fields (map ?f fs))"
    then have "x \<in> ?f ` set fs"
      using map_fields_subset[of "map ?f fs"] by auto
    then show "?f x = x" using secret_fixed by auto
  qed
  then show ?case by (simp add: map_fields_idem)
next
  case (2 vs)
  then show ?case by simp
qed simp_all

section \<open>Properties\<close>

fun body_hidden :: "body \<Rightarrow> bool" where
  \<comment> \<open>a non-JSON body of white space only is written as it is\<close>
  "body_hidden (Doc v) = hidden v"
| "body_hidden (NotJson s) = (token_free s \<or> trim_space s = [])"

lemma redact_body_hidden: "body_hidden (redact b)"
  by (cases b) (auto simp: walk_redact_hidden scrub_token_free)


text \<open>A string that is an element of an array is never scrubbed: a document that holds a
  provider key in a list comes out unchanged, key included, although the same key in a field is
  replaced.\<close>

theorem array_strings_leak:
  "(\<forall>s. redact (Doc (JObj [(''output'', JArr [JStr s])])) = Doc (JObj [(''output'', JArr [JStr s])]))
   \<and> redact (Doc (JObj [(''output'', JStr ''KEY=sk-livesecret99'')])) =
       Doc (JObj [(''output'', JStr ''KEY=[REDACTED]'')])
   \<and> redact (Doc (JStr ''KEY=sk-livesecret99'')) = Doc (JStr ''KEY=sk-livesecret99'')"
proof -
  have k: "\<not> is_secret_key ''output''" by code_simp
  have s: "scrub_bytes ''KEY=sk-livesecret99'' = ''KEY=[REDACTED]''" by code_simp
  have o: "map_fields [(''output'', v)] = [(''output'', v)]" for v
    by (simp add: map_fields_def obj_lookup_def)
  show ?thesis
    using k s by (simp add: redact_member_def o)
qed

end
