(* ===== verification/Transcript.thy ===== *)
theory Transcript
  imports Redact "HOL-Library.Monad_Syntax" "HOL-Library.Word"
begin

text \<open>
  The session transcript: the \<^verbatim>\<open>Line\<close> record of \<^verbatim>\<open>kit/session/transcript.go\<close>
  with its JSON form, and the Manager of \<^verbatim>\<open>kit/session/manager.go\<close>, sole owner of the
  append-only file. The file is the list of its newline-terminated entries and an unterminated tail.
  Every write has an outcome chosen by the environment: the whole record, only a part of it, or all
  of it but the newline (a process killed or a disk filled in mid-write). The next record is
  appended to that tail, so the two share one line, which is not JSON and which every reader skips.
  Timestamps are their texts and are arguments of the operations.
\<close>

section \<open>Lines\<close>

abbreviation (input) TypeSessionStart :: string where "TypeSessionStart \<equiv> ''session_start''"
abbreviation (input) TypeUserMessage :: string where "TypeUserMessage \<equiv> ''user_message''"
abbreviation (input) TypeRequestShaped :: string where "TypeRequestShaped \<equiv> ''request_shaped''"
abbreviation (input) TypeAgentMessageChunk :: string where "TypeAgentMessageChunk \<equiv> ''agent_message_chunk''"
abbreviation (input) TypeAssistantMessage :: string where "TypeAssistantMessage \<equiv> ''assistant_message''"
abbreviation (input) TypeToolCall :: string where "TypeToolCall \<equiv> ''tool_call''"
abbreviation (input) TypeToolResult :: string where "TypeToolResult \<equiv> ''tool_result''"
abbreviation (input) TypeBoundary :: string where "TypeBoundary \<equiv> ''boundary''"
abbreviation (input) TypeSubagentDispatch :: string where "TypeSubagentDispatch \<equiv> ''subagent_dispatch''"
abbreviation (input) TypeSubagentResult :: string where "TypeSubagentResult \<equiv> ''subagent_result''"
abbreviation (input) TypeUsage :: string where "TypeUsage \<equiv> ''usage''"
abbreviation (input) TypeCanceled :: string where "TypeCanceled \<equiv> ''canceled''"
abbreviation (input) TypeEngineDecision :: string where "TypeEngineDecision \<equiv> ''engine_decision''"
abbreviation (input) TypeError :: string where "TypeError \<equiv> ''error''"
abbreviation (input) TypeSessionEnd :: string where "TypeSessionEnd \<equiv> ''session_end''"
abbreviation (input) TypeCommandProvenance :: string where "TypeCommandProvenance \<equiv> ''command_provenance''"
abbreviation (input) TypeAskSuspended :: string where "TypeAskSuspended \<equiv> ''ask_suspended''"
abbreviation (input) TypeRawThinking :: string where "TypeRawThinking \<equiv> ''raw_thinking''"
abbreviation (input) TypeLocalCommand :: string where "TypeLocalCommand \<equiv> ''local_command''"
abbreviation (input) TypeCompaction :: string where "TypeCompaction \<equiv> ''compaction''"
abbreviation (input) TypeMentionProvenance :: string where "TypeMentionProvenance \<equiv> ''mention_provenance''"
abbreviation (input) TypeSteeringDelivery :: string where "TypeSteeringDelivery \<equiv> ''steering_delivery''"
abbreviation (input) TypeParkedAsk :: string where "TypeParkedAsk \<equiv> ''parked_ask''"
abbreviation (input) TypePlanMode :: string where "TypePlanMode \<equiv> ''plan_mode''"

record line =
  ln_type :: string
  ln_turn :: string
  ln_ts :: string
  ln_content :: raw_message
  ln_text :: string
  ln_message_id :: string
  ln_profile :: string
  ln_ref :: string
  ln_system_blocks :: int
  ln_tools :: int
  ln_model :: string
  ln_bytes :: int
  ln_tool_call :: string
  ln_name :: string
  ln_input :: raw_message
  ln_output :: raw_message
  ln_is_error :: bool
  ln_cause :: string
  ln_command_ref :: string
  ln_component :: string
  ln_message :: string
  ln_recoverable :: bool
  ln_stack :: string
  ln_parent_turn :: string
  ln_subagent_turn :: string
  ln_restricted :: "string list"
  ln_result :: string
  ln_input_tokens :: int
  ln_output_tokens :: int
  ln_matched_span :: string
  ln_config_source :: string
  ln_args :: string
  ln_source_chain :: "string list"
  ln_expansion :: string
  ln_resolved_model :: string
  ln_boundary_id :: string
  ln_cache_tokens :: int
  ln_pre_ref :: string
  ln_post_ref :: string
  ln_summary :: string

definition zero_line :: line where
  "zero_line = \<lparr>ln_type = [], ln_turn = [], ln_ts = [], ln_content = None, ln_text = [],
     ln_message_id = [], ln_profile = [], ln_ref = [], ln_system_blocks = 0,
     ln_tools = 0, ln_model = [], ln_bytes = 0, ln_tool_call = [],
     ln_name = [], ln_input = None, ln_output = None, ln_is_error = False,
     ln_cause = [], ln_command_ref = [], ln_component = [], ln_message = [],
     ln_recoverable = False, ln_stack = [], ln_parent_turn = [],
     ln_subagent_turn = [], ln_restricted = [], ln_result = [],
     ln_input_tokens = 0, ln_output_tokens = 0, ln_matched_span = [],
     ln_config_source = [], ln_args = [], ln_source_chain = [],
     ln_expansion = [], ln_resolved_model = [], ln_boundary_id = [],
     ln_cache_tokens = 0, ln_pre_ref = [], ln_post_ref = [],
     ln_summary = []\<rparr>"

subsection \<open>The JSON form\<close>

text \<open>\<^verbatim>\<open>omitempty\<close>: a zero value has no member (\<open>None\<close>).\<close>

definition opt_str :: "string \<Rightarrow> json option" where
  "opt_str s = (if s = [] then None else Some (JStr s))"

definition opt_int :: "int \<Rightarrow> json option" where
  "opt_int n = (if n = 0 then None else Some (JNum n))"

definition opt_bool :: "bool \<Rightarrow> json option" where
  "opt_bool b = (if b then Some (JBool b) else None)"

definition opt_strs :: "string list \<Rightarrow> json option" where
  "opt_strs ss = (if ss = [] then None else Some (JArr (map JStr ss)))"

definition line_members :: "line \<Rightarrow> (string \<times> json option) list" where
  "line_members l =
    [(''type'', Some (JStr (ln_type l))),
     (''turnID'', opt_str (ln_turn l)),
     (''timestamp'', Some (JStr (ln_ts l))),
     (''content'', ln_content l),
     (''text'', opt_str (ln_text l)),
     (''messageID'', opt_str (ln_message_id l)),
     (''profile'', opt_str (ln_profile l)),
     (''ref'', opt_str (ln_ref l)),
     (''systemBlocks'', opt_int (ln_system_blocks l)),
     (''tools'', opt_int (ln_tools l)),
     (''model'', opt_str (ln_model l)),
     (''bytes'', opt_int (ln_bytes l)),
     (''toolCallID'', opt_str (ln_tool_call l)),
     (''name'', opt_str (ln_name l)),
     (''input'', ln_input l),
     (''output'', ln_output l),
     (''isError'', opt_bool (ln_is_error l)),
     (''cause'', opt_str (ln_cause l)),
     (''commandRef'', opt_str (ln_command_ref l)),
     (''component'', opt_str (ln_component l)),
     (''message'', opt_str (ln_message l)),
     (''recoverable'', opt_bool (ln_recoverable l)),
     (''stack'', opt_str (ln_stack l)),
     (''parentTurnID'', opt_str (ln_parent_turn l)),
     (''subagentTurnID'', opt_str (ln_subagent_turn l)),
     (''restrictedTools'', opt_strs (ln_restricted l)),
     (''result'', opt_str (ln_result l)),
     (''inputTokens'', opt_int (ln_input_tokens l)),
     (''outputTokens'', opt_int (ln_output_tokens l)),
     (''matchedSpan'', opt_str (ln_matched_span l)),
     (''configSource'', opt_str (ln_config_source l)),
     (''args'', opt_str (ln_args l)),
     (''sourceChain'', opt_strs (ln_source_chain l)),
     (''expansion'', opt_str (ln_expansion l)),
     (''resolvedModel'', opt_str (ln_resolved_model l)),
     (''boundaryID'', opt_str (ln_boundary_id l)),
     (''cacheTokens'', opt_int (ln_cache_tokens l)),
     (''preRef'', opt_str (ln_pre_ref l)),
     (''postRef'', opt_str (ln_post_ref l)),
     (''summary'', opt_str (ln_summary l))]"

fun emit :: "(string \<times> json option) list \<Rightarrow> (string \<times> json) list" where
  "emit [] = []"
| "emit ((t, None) # ms) = emit ms"
| "emit ((t, Some v) # ms) = (t, v) # emit ms"

definition json_of_line :: "line \<Rightarrow> json" where
  "json_of_line l = JObj (emit (line_members l))"

definition line_of_fields :: "(string \<times> json) list \<Rightarrow> line option" where
  "line_of_fields fs = do {
     x_type \<leftarrow> get_field as_str ''type'' [] fs;
     x_turn \<leftarrow> get_field as_str ''turnID'' [] fs;
     x_ts \<leftarrow> get_field as_str ''timestamp'' [] fs;
     x_text \<leftarrow> get_field as_str ''text'' [] fs;
     x_message_id \<leftarrow> get_field as_str ''messageID'' [] fs;
     x_profile \<leftarrow> get_field as_str ''profile'' [] fs;
     x_ref \<leftarrow> get_field as_str ''ref'' [] fs;
     x_system_blocks \<leftarrow> get_field as_int64 ''systemBlocks'' 0 fs;
     x_tools \<leftarrow> get_field as_int64 ''tools'' 0 fs;
     x_model \<leftarrow> get_field as_str ''model'' [] fs;
     x_bytes \<leftarrow> get_field as_int64 ''bytes'' 0 fs;
     x_tool_call \<leftarrow> get_field as_str ''toolCallID'' [] fs;
     x_name \<leftarrow> get_field as_str ''name'' [] fs;
     x_is_error \<leftarrow> get_field as_bool ''isError'' False fs;
     x_cause \<leftarrow> get_field as_str ''cause'' [] fs;
     x_command_ref \<leftarrow> get_field as_str ''commandRef'' [] fs;
     x_component \<leftarrow> get_field as_str ''component'' [] fs;
     x_message \<leftarrow> get_field as_str ''message'' [] fs;
     x_recoverable \<leftarrow> get_field as_bool ''recoverable'' False fs;
     x_stack \<leftarrow> get_field as_str ''stack'' [] fs;
     x_parent_turn \<leftarrow> get_field as_str ''parentTurnID'' [] fs;
     x_subagent_turn \<leftarrow> get_field as_str ''subagentTurnID'' [] fs;
     x_restricted \<leftarrow> get_field as_strs ''restrictedTools'' [] fs;
     x_result \<leftarrow> get_field as_str ''result'' [] fs;
     x_input_tokens \<leftarrow> get_field as_int64 ''inputTokens'' 0 fs;
     x_output_tokens \<leftarrow> get_field as_int64 ''outputTokens'' 0 fs;
     x_matched_span \<leftarrow> get_field as_str ''matchedSpan'' [] fs;
     x_config_source \<leftarrow> get_field as_str ''configSource'' [] fs;
     x_args \<leftarrow> get_field as_str ''args'' [] fs;
     x_source_chain \<leftarrow> get_field as_strs ''sourceChain'' [] fs;
     x_expansion \<leftarrow> get_field as_str ''expansion'' [] fs;
     x_resolved_model \<leftarrow> get_field as_str ''resolvedModel'' [] fs;
     x_boundary_id \<leftarrow> get_field as_str ''boundaryID'' [] fs;
     x_cache_tokens \<leftarrow> get_field as_int64 ''cacheTokens'' 0 fs;
     x_pre_ref \<leftarrow> get_field as_str ''preRef'' [] fs;
     x_post_ref \<leftarrow> get_field as_str ''postRef'' [] fs;
     x_summary \<leftarrow> get_field as_str ''summary'' [] fs;
     Some \<lparr>ln_type = x_type, ln_turn = x_turn, ln_ts = x_ts,
       ln_content = get_raw ''content'' None fs, ln_text = x_text,
       ln_message_id = x_message_id, ln_profile = x_profile, ln_ref = x_ref,
       ln_system_blocks = x_system_blocks, ln_tools = x_tools,
       ln_model = x_model, ln_bytes = x_bytes, ln_tool_call = x_tool_call,
       ln_name = x_name, ln_input = get_raw ''input'' None fs,
       ln_output = get_raw ''output'' None fs, ln_is_error = x_is_error,
       ln_cause = x_cause, ln_command_ref = x_command_ref,
       ln_component = x_component, ln_message = x_message,
       ln_recoverable = x_recoverable, ln_stack = x_stack,
       ln_parent_turn = x_parent_turn, ln_subagent_turn = x_subagent_turn,
       ln_restricted = x_restricted, ln_result = x_result,
       ln_input_tokens = x_input_tokens, ln_output_tokens = x_output_tokens,
       ln_matched_span = x_matched_span, ln_config_source = x_config_source,
       ln_args = x_args, ln_source_chain = x_source_chain,
       ln_expansion = x_expansion, ln_resolved_model = x_resolved_model,
       ln_boundary_id = x_boundary_id, ln_cache_tokens = x_cache_tokens,
       ln_pre_ref = x_pre_ref, ln_post_ref = x_post_ref,
       ln_summary = x_summary\<rparr> }"

fun line_of_body :: "body \<Rightarrow> line option" where
  \<comment> \<open>json.Unmarshal into a zero Line; \<open>None\<close> is an error\<close>
  "line_of_body (Doc (JObj fs)) = line_of_fields fs"
| "line_of_body (Doc JNull) = Some zero_line"
| "line_of_body _ = None"

definition line_tags :: "string list" where
  "line_tags = map fst (line_members zero_line)"

text \<open>The reader accepts what the writer marshals.\<close>

lemma tags_members: "map fst (line_members l) = line_tags"
  by (simp add: line_members_def line_tags_def)

lemma tags_distinct: "distinct (map (map lower_ascii) line_tags)"
  by code_simp

lemma tags_public: "list_all (\<lambda>t. \<not> is_secret_key t) line_tags"
  by code_simp

lemma key_match_tags: "s \<in> set line_tags \<Longrightarrow> t \<in> set line_tags \<Longrightarrow> key_match s t \<longleftrightarrow> s = t"
  using tags_distinct unfolding key_match_def distinct_map inj_on_def by blast

definition wf_fields :: "(string \<times> json) list \<Rightarrow> bool" where
  "wf_fields fs = (distinct (map fst fs) \<and> fst ` set fs \<subseteq> set line_tags)"

lemma wf_fields_Cons:
  "wf_fields ((k, v) # fs) \<longleftrightarrow> k \<in> set line_tags \<and> k \<notin> fst ` set fs \<and> wf_fields fs"
  by (auto simp: wf_fields_def)

lemma get_field_absent:
  "wf_fields fs \<Longrightarrow> t \<in> set line_tags \<Longrightarrow> t \<notin> fst ` set fs \<Longrightarrow> get_field dec t acc fs = Some acc"
  by (induction dec t acc fs rule: get_field.induct) (auto simp: wf_fields_Cons key_match_tags)

lemma get_field_wf:
  "wf_fields fs \<Longrightarrow> t \<in> set line_tags \<Longrightarrow>
   get_field dec t acc fs = (case map_of fs t of None \<Rightarrow> Some acc
     | Some v \<Rightarrow> if v = JNull then Some acc else dec v)"
proof (induction fs arbitrary: acc)
  case (Cons x fs)
  obtain k v where x: "x = (k, v)" by fastforce
  with Cons.prems have k: "k \<in> set line_tags" "k \<notin> fst ` set fs" and wf: "wf_fields fs"
    by (simp_all add: wf_fields_Cons)
  show ?case
  proof (cases "k = t")
    case True
    with k wf Cons.prems(2) show ?thesis
      by (auto simp: x key_match_tags get_field_absent split: option.splits)
  next
    case False
    with k wf Cons show ?thesis by (simp add: x key_match_tags)
  qed
qed simp

lemma get_raw_absent:
  "wf_fields fs \<Longrightarrow> t \<in> set line_tags \<Longrightarrow> t \<notin> fst ` set fs \<Longrightarrow> get_raw t acc fs = acc"
  by (induction t acc fs rule: get_raw.induct) (auto simp: wf_fields_Cons key_match_tags)

lemma get_raw_wf:
  "wf_fields fs \<Longrightarrow> t \<in> set line_tags \<Longrightarrow>
   get_raw t acc fs = (case map_of fs t of None \<Rightarrow> acc | Some v \<Rightarrow> Some v)"
proof (induction fs arbitrary: acc)
  case (Cons x fs)
  obtain k v where x: "x = (k, v)" by fastforce
  with Cons.prems have k: "k \<in> set line_tags" "k \<notin> fst ` set fs" and wf: "wf_fields fs"
    by (simp_all add: wf_fields_Cons)
  show ?case
  proof (cases "k = t")
    case True
    with k wf Cons.prems(2) show ?thesis
      by (simp add: x key_match_tags get_raw_absent)
  next
    case False
    with k wf Cons show ?thesis by (simp add: x key_match_tags)
  qed
qed simp

lemma keys_emit: "fst ` set (emit ms) \<subseteq> fst ` set ms"
  by (induction ms rule: emit.induct) auto

lemma distinct_emit: "distinct (map fst ms) \<Longrightarrow> distinct (map fst (emit ms))"
proof (induction ms rule: emit.induct)
  case (3 t v ms)
  have "t \<notin> fst ` set (emit ms)" using keys_emit[of ms] "3.prems" by auto
  with 3 show ?case by simp
qed simp_all

lemma map_of_emit:
  "distinct (map fst ms) \<Longrightarrow> (t, vo) \<in> set ms \<Longrightarrow> map_of (emit ms) t = vo"
proof (induction ms rule: emit.induct)
  case (2 t' ms)
  have "t' \<notin> fst ` set (emit ms)" using keys_emit[of ms] "2.prems" by auto
  then have "map_of (emit ms) t' = None" by (simp add: map_of_eq_None_iff)
  with 2 show ?case by auto
next
  case (3 t' v ms)
  then show ?case by (auto simp: image_iff dest!: bspec)
qed simp_all

lemma tags_distinct': "distinct line_tags"
  using tags_distinct by (simp add: distinct_map)

lemma wf_emit:
  assumes "map fst ms = line_tags"
  shows "wf_fields (emit ms)"
  unfolding wf_fields_def
proof
  show "distinct (map fst (emit ms))"
    using distinct_emit[of ms] tags_distinct' assms by simp
  show "fst ` set (emit ms) \<subseteq> set line_tags"
    using keys_emit[of ms] assms by (metis list.set_map)
qed

lemma get_field_emit:
  assumes "map fst ms = line_tags" and "(t, vo) \<in> set ms"
  shows "get_field dec t acc (emit ms) = (case vo of None \<Rightarrow> Some acc
     | Some v \<Rightarrow> if v = JNull then Some acc else dec v)"
    and "get_raw t racc (emit ms) = (case vo of None \<Rightarrow> racc | Some v \<Rightarrow> Some v)"
proof -
  have t: "t \<in> set line_tags" using assms by (metis fst_conv image_eqI list.set_map)
  have m: "map_of (emit ms) t = vo"
    using map_of_emit[of ms t vo] tags_distinct' assms by simp
  show "get_field dec t acc (emit ms) = (case vo of None \<Rightarrow> Some acc
     | Some v \<Rightarrow> if v = JNull then Some acc else dec v)"
    using get_field_wf[OF wf_emit[OF assms(1)] t] m by simp
  show "get_raw t racc (emit ms) = (case vo of None \<Rightarrow> racc | Some v \<Rightarrow> Some v)"
    using get_raw_wf[OF wf_emit[OF assms(1)] t] m by simp
qed

text \<open>The same for the redacted document: redaction scrubs the texts and the raw fields and
  leaves the shape alone.\<close>

definition redact_raw :: "json \<Rightarrow> json" where
  "redact_raw v = (case v of JStr s \<Rightarrow> JStr (scrub_bytes s) | _ \<Rightarrow> walk_redact v)"

definition redact_line :: "line \<Rightarrow> line" where
  "redact_line l = l\<lparr>ln_type := scrub_bytes (ln_type l),
     ln_turn := scrub_bytes (ln_turn l),
     ln_ts := scrub_bytes (ln_ts l),
     ln_content := map_option redact_raw (ln_content l),
     ln_text := scrub_bytes (ln_text l),
     ln_message_id := scrub_bytes (ln_message_id l),
     ln_profile := scrub_bytes (ln_profile l),
     ln_ref := scrub_bytes (ln_ref l),
     ln_model := scrub_bytes (ln_model l),
     ln_tool_call := scrub_bytes (ln_tool_call l),
     ln_name := scrub_bytes (ln_name l),
     ln_input := map_option redact_raw (ln_input l),
     ln_output := map_option redact_raw (ln_output l),
     ln_cause := scrub_bytes (ln_cause l),
     ln_command_ref := scrub_bytes (ln_command_ref l),
     ln_component := scrub_bytes (ln_component l),
     ln_message := scrub_bytes (ln_message l),
     ln_stack := scrub_bytes (ln_stack l),
     ln_parent_turn := scrub_bytes (ln_parent_turn l),
     ln_subagent_turn := scrub_bytes (ln_subagent_turn l),
     ln_result := scrub_bytes (ln_result l),
     ln_matched_span := scrub_bytes (ln_matched_span l),
     ln_config_source := scrub_bytes (ln_config_source l),
     ln_args := scrub_bytes (ln_args l),
     ln_expansion := scrub_bytes (ln_expansion l),
     ln_resolved_model := scrub_bytes (ln_resolved_model l),
     ln_boundary_id := scrub_bytes (ln_boundary_id l),
     ln_pre_ref := scrub_bytes (ln_pre_ref l),
     ln_post_ref := scrub_bytes (ln_post_ref l),
     ln_summary := scrub_bytes (ln_summary l)\<rparr>"

definition int64_line :: "line \<Rightarrow> bool" where
  "int64_line l = list_all (\<lambda>n. - (2 ^ 63) \<le> n \<and> n < 2 ^ 63)
    [ln_system_blocks l, ln_tools l, ln_bytes l, ln_input_tokens l, ln_output_tokens l, ln_cache_tokens l]"

definition redacted_fields :: "line \<Rightarrow> (string \<times> json) list" where
  "redacted_fields l = map_fields (map (\<lambda>(k, v). (k, redact_raw v)) (emit (line_members l)))"

lemma walk_line: "walk_redact (json_of_line l) = JObj (redacted_fields l)"
proof -
  have "redact_member walk_redact k v = redact_raw v" if "(k, v) \<in> set (emit (line_members l))" for k v
  proof -
    have "k \<in> set line_tags"
      using that keys_emit[of "line_members l"] tags_members[of l]
      by (metis fst_conv image_eqI list.set_map subsetD)
    then have "\<not> is_secret_key k" using tags_public by (simp add: list_all_iff)
    then show ?thesis by (simp add: redact_member_def redact_raw_def)
  qed
  then have "map (\<lambda>(k, v). (k, redact_member walk_redact k v)) (emit (line_members l)) =
      map (\<lambda>(k, v). (k, redact_raw v)) (emit (line_members l))"
    by (intro map_cong) auto
  then show ?thesis by (simp only: json_of_line_def walk_redact.simps redacted_fields_def)
qed

definition member :: "line \<Rightarrow> string \<Rightarrow> json option option" where
  "member l = map_of (line_members l)"

lemma member_SomeD: "member l t = Some vo \<Longrightarrow> (t, vo) \<in> set (line_members l) \<and> t \<in> set line_tags"
  unfolding member_def using tags_members[of l] by (metis domI dom_map_of_conv_image_fst list.set_map map_of_SomeD)

lemma map_of_redacted:
  assumes "member l t \<noteq> None"
  shows "map_of (redacted_fields l) t = map_option redact_raw (the (member l t))"
proof -
  let ?e = "emit (line_members l)" let ?f = "map (\<lambda>(k, v). (k, redact_raw v)) ?e"
  have look: "map_of (map (\<lambda>(k, v). (k, redact_raw v)) xs) t = map_option redact_raw (map_of xs t)" for xs
    by (induction xs) auto
  have keys: "map fst ?f = map fst ?e" by (simp add: comp_def split_beta)
  have d: "distinct (map fst ?f)"
    unfolding keys by (rule distinct_emit) (simp add: tags_members tags_distinct')
  then have dr: "distinct (map fst (rev ?f))" by (simp add: rev_map [symmetric])
  have "map_of (redacted_fields l) t = obj_lookup (map_fields ?f) t"
    unfolding obj_lookup_def redacted_fields_def
    by (metis (no_types, lifting) distinct_map_fields distinct_rev map_of_eqI_rev)
  also have "\<dots> = obj_lookup ?f t" by (rule obj_lookup_map_fields)
  also have "\<dots> = map_of ?f t"
    unfolding obj_lookup_def using map_of_eqI_rev[OF d] by simp
  also have "\<dots> = map_option redact_raw (map_of ?e t)" by (rule look)
  also have "map_of ?e t = the (member l t)"
  proof (rule map_of_emit)
    show "distinct (map fst (line_members l))" by (simp add: tags_members tags_distinct')
    show "(t, the (member l t)) \<in> set (line_members l)"
      using assms member_SomeD by fastforce
  qed
  finally show ?thesis .
qed

lemma wf_redacted: "wf_fields (redacted_fields l)"
proof -
  let ?e = "emit (line_members l)"
  have "fst ` set (redacted_fields l) \<subseteq> fst ` set (map (\<lambda>(k, v). (k, redact_raw v)) ?e)"
    unfolding redacted_fields_def by (rule image_mono) (rule map_fields_subset)
  also have "\<dots> = fst ` set ?e" by force
  also have "\<dots> \<subseteq> set line_tags"
    using wf_emit[OF tags_members] by (simp add: wf_fields_def)
  finally show ?thesis
    unfolding wf_fields_def redacted_fields_def using distinct_map_fields by simp
qed

lemma get_field_redacted:
  assumes "member l t \<noteq> None"
  shows "get_field dec t acc (redacted_fields l) = (case the (member l t) of
      None \<Rightarrow> Some acc
    | Some v \<Rightarrow> if redact_raw v = JNull then Some acc else dec (redact_raw v))"
    and "get_raw t racc (redacted_fields l) = (case the (member l t) of None \<Rightarrow> racc | Some v \<Rightarrow> Some (redact_raw v))"
proof -
  have t: "t \<in> set line_tags"
    using assms member_SomeD by fastforce
  show "get_field dec t acc (redacted_fields l) = (case the (member l t) of
      None \<Rightarrow> Some acc
    | Some v \<Rightarrow> if redact_raw v = JNull then Some acc else dec (redact_raw v))"
    using get_field_wf[OF wf_redacted[of l] t, of dec acc] map_of_redacted[OF assms]
    by (cases "the (member l t)") simp_all
  show "get_raw t racc (redacted_fields l) = (case the (member l t) of None \<Rightarrow> racc | Some v \<Rightarrow> Some (redact_raw v))"
    using get_raw_wf[OF wf_redacted[of l] t, of racc] map_of_redacted[OF assms]
    by (cases "the (member l t)") simp_all
qed

lemma those_strs_JStr: "those_strs (map JStr ss) = Some ss"
  by (induction ss) auto

lemma scrub_Nil [simp]: "scrub_bytes [] = []"
  by (simp add: scrub_bytes_def)

lemma opt_reads:
  "(case opt_str s of None \<Rightarrow> Some [] | Some v \<Rightarrow> if redact_raw v = JNull then Some [] else as_str (redact_raw v)) = Some (scrub_bytes s)"
  "(case opt_bool b of None \<Rightarrow> Some False | Some v \<Rightarrow> if redact_raw v = JNull then Some False else as_bool (redact_raw v)) = Some b"
  "(case opt_strs ss of None \<Rightarrow> Some [] | Some v \<Rightarrow> if redact_raw v = JNull then Some [] else as_strs (redact_raw v)) = Some ss"
  "- (2 ^ 63) \<le> n \<and> n < 2 ^ 63 \<Longrightarrow>
   (case opt_int n of None \<Rightarrow> Some 0 | Some v \<Rightarrow> if redact_raw v = JNull then Some 0 else as_int64 (redact_raw v)) = Some n"
  "(case raw of None \<Rightarrow> None | Some v \<Rightarrow> Some (redact_raw v)) = map_option redact_raw raw"
  "(case Some (JStr s) of None \<Rightarrow> Some [] | Some v \<Rightarrow> if redact_raw v = JNull then Some [] else as_str (redact_raw v)) = Some (scrub_bytes s)"
  by (simp_all add: opt_str_def opt_bool_def opt_strs_def opt_int_def redact_raw_def comp_def
      those_strs_JStr option.case_eq_if map_option_case)

lemma opt_reads_plain:
  "(case opt_str s of None \<Rightarrow> Some [] | Some v \<Rightarrow> if v = JNull then Some [] else as_str v) = Some s"
  "(case opt_bool b of None \<Rightarrow> Some False | Some v \<Rightarrow> if v = JNull then Some False else as_bool v) = Some b"
  "(case opt_strs ss of None \<Rightarrow> Some [] | Some v \<Rightarrow> if v = JNull then Some [] else as_strs v) = Some ss"
  "- (2 ^ 63) \<le> n \<and> n < 2 ^ 63 \<Longrightarrow>
   (case opt_int n of None \<Rightarrow> Some 0 | Some v \<Rightarrow> if v = JNull then Some 0 else as_int64 v) = Some n"
  "(case raw of None \<Rightarrow> None | Some v \<Rightarrow> Some v) = raw"
  "(case Some (JStr s) of None \<Rightarrow> Some [] | Some v \<Rightarrow> if v = JNull then Some [] else as_str v) = Some s"
  by (simp_all add: opt_str_def opt_bool_def opt_strs_def opt_int_def
      those_strs_JStr option.case_eq_if)

lemma get_field_plain:
  assumes "member l t \<noteq> None"
  shows "get_field dec t acc (emit (line_members l)) = (case the (member l t) of
      None \<Rightarrow> Some acc | Some v \<Rightarrow> if v = JNull then Some acc else dec v)"
    and "get_raw t racc (emit (line_members l)) = (case the (member l t) of None \<Rightarrow> racc | Some v \<Rightarrow> Some v)"
proof -
  obtain vo where m: "member l t = Some vo" using assms by auto
  then have i: "(t, vo) \<in> set (line_members l)" using member_SomeD by blast
  show "get_field dec t acc (emit (line_members l)) = (case the (member l t) of
      None \<Rightarrow> Some acc | Some v \<Rightarrow> if v = JNull then Some acc else dec v)"
    using get_field_emit(1)[OF tags_members i, of dec acc] m by simp
  show "get_raw t racc (emit (line_members l)) = (case the (member l t) of None \<Rightarrow> racc | Some v \<Rightarrow> Some v)"
    using get_field_emit(2)[OF tags_members i, of racc] m by simp
qed

lemma member_values:
  "member l ''type'' = Some (Some (JStr (ln_type l)))"
  "member l ''turnID'' = Some (opt_str (ln_turn l))"
  "member l ''timestamp'' = Some (Some (JStr (ln_ts l)))"
  "member l ''content'' = Some (ln_content l)"
  "member l ''text'' = Some (opt_str (ln_text l))"
  "member l ''messageID'' = Some (opt_str (ln_message_id l))"
  "member l ''profile'' = Some (opt_str (ln_profile l))"
  "member l ''ref'' = Some (opt_str (ln_ref l))"
  "member l ''systemBlocks'' = Some (opt_int (ln_system_blocks l))"
  "member l ''tools'' = Some (opt_int (ln_tools l))"
  "member l ''model'' = Some (opt_str (ln_model l))"
  "member l ''bytes'' = Some (opt_int (ln_bytes l))"
  "member l ''toolCallID'' = Some (opt_str (ln_tool_call l))"
  "member l ''name'' = Some (opt_str (ln_name l))"
  "member l ''input'' = Some (ln_input l)"
  "member l ''output'' = Some (ln_output l)"
  "member l ''isError'' = Some (opt_bool (ln_is_error l))"
  "member l ''cause'' = Some (opt_str (ln_cause l))"
  "member l ''commandRef'' = Some (opt_str (ln_command_ref l))"
  "member l ''component'' = Some (opt_str (ln_component l))"
  "member l ''message'' = Some (opt_str (ln_message l))"
  "member l ''recoverable'' = Some (opt_bool (ln_recoverable l))"
  "member l ''stack'' = Some (opt_str (ln_stack l))"
  "member l ''parentTurnID'' = Some (opt_str (ln_parent_turn l))"
  "member l ''subagentTurnID'' = Some (opt_str (ln_subagent_turn l))"
  "member l ''restrictedTools'' = Some (opt_strs (ln_restricted l))"
  "member l ''result'' = Some (opt_str (ln_result l))"
  "member l ''inputTokens'' = Some (opt_int (ln_input_tokens l))"
  "member l ''outputTokens'' = Some (opt_int (ln_output_tokens l))"
  "member l ''matchedSpan'' = Some (opt_str (ln_matched_span l))"
  "member l ''configSource'' = Some (opt_str (ln_config_source l))"
  "member l ''args'' = Some (opt_str (ln_args l))"
  "member l ''sourceChain'' = Some (opt_strs (ln_source_chain l))"
  "member l ''expansion'' = Some (opt_str (ln_expansion l))"
  "member l ''resolvedModel'' = Some (opt_str (ln_resolved_model l))"
  "member l ''boundaryID'' = Some (opt_str (ln_boundary_id l))"
  "member l ''cacheTokens'' = Some (opt_int (ln_cache_tokens l))"
  "member l ''preRef'' = Some (opt_str (ln_pre_ref l))"
  "member l ''postRef'' = Some (opt_str (ln_post_ref l))"
  "member l ''summary'' = Some (opt_str (ln_summary l))"
  by (simp_all add: member_def line_members_def)

lemma read_plain_str:
  "get_field as_str ''type'' [] (emit (line_members l)) = Some (ln_type l)"
  "get_field as_str ''turnID'' [] (emit (line_members l)) = Some (ln_turn l)"
  "get_field as_str ''timestamp'' [] (emit (line_members l)) = Some (ln_ts l)"
  "get_field as_str ''text'' [] (emit (line_members l)) = Some (ln_text l)"
  "get_field as_str ''messageID'' [] (emit (line_members l)) = Some (ln_message_id l)"
  "get_field as_str ''profile'' [] (emit (line_members l)) = Some (ln_profile l)"
  "get_field as_str ''ref'' [] (emit (line_members l)) = Some (ln_ref l)"
  "get_field as_str ''model'' [] (emit (line_members l)) = Some (ln_model l)"
  "get_field as_str ''toolCallID'' [] (emit (line_members l)) = Some (ln_tool_call l)"
  "get_field as_str ''name'' [] (emit (line_members l)) = Some (ln_name l)"
  "get_field as_str ''cause'' [] (emit (line_members l)) = Some (ln_cause l)"
  "get_field as_str ''commandRef'' [] (emit (line_members l)) = Some (ln_command_ref l)"
  "get_field as_str ''component'' [] (emit (line_members l)) = Some (ln_component l)"
  "get_field as_str ''message'' [] (emit (line_members l)) = Some (ln_message l)"
  "get_field as_str ''stack'' [] (emit (line_members l)) = Some (ln_stack l)"
  "get_field as_str ''parentTurnID'' [] (emit (line_members l)) = Some (ln_parent_turn l)"
  "get_field as_str ''subagentTurnID'' [] (emit (line_members l)) = Some (ln_subagent_turn l)"
  "get_field as_str ''result'' [] (emit (line_members l)) = Some (ln_result l)"
  "get_field as_str ''matchedSpan'' [] (emit (line_members l)) = Some (ln_matched_span l)"
  "get_field as_str ''configSource'' [] (emit (line_members l)) = Some (ln_config_source l)"
  "get_field as_str ''args'' [] (emit (line_members l)) = Some (ln_args l)"
  "get_field as_str ''expansion'' [] (emit (line_members l)) = Some (ln_expansion l)"
  "get_field as_str ''resolvedModel'' [] (emit (line_members l)) = Some (ln_resolved_model l)"
  "get_field as_str ''boundaryID'' [] (emit (line_members l)) = Some (ln_boundary_id l)"
  "get_field as_str ''preRef'' [] (emit (line_members l)) = Some (ln_pre_ref l)"
  "get_field as_str ''postRef'' [] (emit (line_members l)) = Some (ln_post_ref l)"
  "get_field as_str ''summary'' [] (emit (line_members l)) = Some (ln_summary l)"
  by (simp_all add: get_field_plain member_values opt_reads_plain del: option.case)

lemma read_plain_bool:
  "get_field as_bool ''isError'' False (emit (line_members l)) = Some (ln_is_error l)"
  "get_field as_bool ''recoverable'' False (emit (line_members l)) = Some (ln_recoverable l)"
  by (simp_all add: get_field_plain member_values opt_reads_plain del: option.case)

lemma read_plain_strs:
  "get_field as_strs ''restrictedTools'' [] (emit (line_members l)) = Some (ln_restricted l)"
  "get_field as_strs ''sourceChain'' [] (emit (line_members l)) = Some (ln_source_chain l)"
  by (simp_all add: get_field_plain member_values opt_reads_plain del: option.case)

lemma read_plain_int:
  "int64_line l \<Longrightarrow> get_field as_int64 ''systemBlocks'' 0 (emit (line_members l)) = Some (ln_system_blocks l)"
  "int64_line l \<Longrightarrow> get_field as_int64 ''tools'' 0 (emit (line_members l)) = Some (ln_tools l)"
  "int64_line l \<Longrightarrow> get_field as_int64 ''bytes'' 0 (emit (line_members l)) = Some (ln_bytes l)"
  "int64_line l \<Longrightarrow> get_field as_int64 ''inputTokens'' 0 (emit (line_members l)) = Some (ln_input_tokens l)"
  "int64_line l \<Longrightarrow> get_field as_int64 ''outputTokens'' 0 (emit (line_members l)) = Some (ln_output_tokens l)"
  "int64_line l \<Longrightarrow> get_field as_int64 ''cacheTokens'' 0 (emit (line_members l)) = Some (ln_cache_tokens l)"
  by (simp_all add: get_field_plain member_values opt_reads_plain int64_line_def del: option.case)

lemma read_plain_raw:
  "get_raw ''content'' None (emit (line_members l)) = ln_content l"
  "get_raw ''input'' None (emit (line_members l)) = ln_input l"
  "get_raw ''output'' None (emit (line_members l)) = ln_output l"
  by (simp_all add: get_field_plain member_values opt_reads_plain del: option.case)

lemma read_redacted_str:
  "get_field as_str ''type'' [] (redacted_fields l) = Some (scrub_bytes (ln_type l))"
  "get_field as_str ''turnID'' [] (redacted_fields l) = Some (scrub_bytes (ln_turn l))"
  "get_field as_str ''timestamp'' [] (redacted_fields l) = Some (scrub_bytes (ln_ts l))"
  "get_field as_str ''text'' [] (redacted_fields l) = Some (scrub_bytes (ln_text l))"
  "get_field as_str ''messageID'' [] (redacted_fields l) = Some (scrub_bytes (ln_message_id l))"
  "get_field as_str ''profile'' [] (redacted_fields l) = Some (scrub_bytes (ln_profile l))"
  "get_field as_str ''ref'' [] (redacted_fields l) = Some (scrub_bytes (ln_ref l))"
  "get_field as_str ''model'' [] (redacted_fields l) = Some (scrub_bytes (ln_model l))"
  "get_field as_str ''toolCallID'' [] (redacted_fields l) = Some (scrub_bytes (ln_tool_call l))"
  "get_field as_str ''name'' [] (redacted_fields l) = Some (scrub_bytes (ln_name l))"
  "get_field as_str ''cause'' [] (redacted_fields l) = Some (scrub_bytes (ln_cause l))"
  "get_field as_str ''commandRef'' [] (redacted_fields l) = Some (scrub_bytes (ln_command_ref l))"
  "get_field as_str ''component'' [] (redacted_fields l) = Some (scrub_bytes (ln_component l))"
  "get_field as_str ''message'' [] (redacted_fields l) = Some (scrub_bytes (ln_message l))"
  "get_field as_str ''stack'' [] (redacted_fields l) = Some (scrub_bytes (ln_stack l))"
  "get_field as_str ''parentTurnID'' [] (redacted_fields l) = Some (scrub_bytes (ln_parent_turn l))"
  "get_field as_str ''subagentTurnID'' [] (redacted_fields l) = Some (scrub_bytes (ln_subagent_turn l))"
  "get_field as_str ''result'' [] (redacted_fields l) = Some (scrub_bytes (ln_result l))"
  "get_field as_str ''matchedSpan'' [] (redacted_fields l) = Some (scrub_bytes (ln_matched_span l))"
  "get_field as_str ''configSource'' [] (redacted_fields l) = Some (scrub_bytes (ln_config_source l))"
  "get_field as_str ''args'' [] (redacted_fields l) = Some (scrub_bytes (ln_args l))"
  "get_field as_str ''expansion'' [] (redacted_fields l) = Some (scrub_bytes (ln_expansion l))"
  "get_field as_str ''resolvedModel'' [] (redacted_fields l) = Some (scrub_bytes (ln_resolved_model l))"
  "get_field as_str ''boundaryID'' [] (redacted_fields l) = Some (scrub_bytes (ln_boundary_id l))"
  "get_field as_str ''preRef'' [] (redacted_fields l) = Some (scrub_bytes (ln_pre_ref l))"
  "get_field as_str ''postRef'' [] (redacted_fields l) = Some (scrub_bytes (ln_post_ref l))"
  "get_field as_str ''summary'' [] (redacted_fields l) = Some (scrub_bytes (ln_summary l))"
  by (simp_all add: get_field_redacted member_values opt_reads del: option.case)

lemma read_redacted_bool:
  "get_field as_bool ''isError'' False (redacted_fields l) = Some (ln_is_error l)"
  "get_field as_bool ''recoverable'' False (redacted_fields l) = Some (ln_recoverable l)"
  by (simp_all add: get_field_redacted member_values opt_reads del: option.case)

lemma read_redacted_strs:
  "get_field as_strs ''restrictedTools'' [] (redacted_fields l) = Some (ln_restricted l)"
  "get_field as_strs ''sourceChain'' [] (redacted_fields l) = Some (ln_source_chain l)"
  by (simp_all add: get_field_redacted member_values opt_reads del: option.case)

lemma read_redacted_int:
  "int64_line l \<Longrightarrow> get_field as_int64 ''systemBlocks'' 0 (redacted_fields l) = Some (ln_system_blocks l)"
  "int64_line l \<Longrightarrow> get_field as_int64 ''tools'' 0 (redacted_fields l) = Some (ln_tools l)"
  "int64_line l \<Longrightarrow> get_field as_int64 ''bytes'' 0 (redacted_fields l) = Some (ln_bytes l)"
  "int64_line l \<Longrightarrow> get_field as_int64 ''inputTokens'' 0 (redacted_fields l) = Some (ln_input_tokens l)"
  "int64_line l \<Longrightarrow> get_field as_int64 ''outputTokens'' 0 (redacted_fields l) = Some (ln_output_tokens l)"
  "int64_line l \<Longrightarrow> get_field as_int64 ''cacheTokens'' 0 (redacted_fields l) = Some (ln_cache_tokens l)"
  by (simp_all add: get_field_redacted member_values opt_reads int64_line_def del: option.case)

lemma read_redacted_raw:
  "get_raw ''content'' None (redacted_fields l) = map_option redact_raw (ln_content l)"
  "get_raw ''input'' None (redacted_fields l) = map_option redact_raw (ln_input l)"
  "get_raw ''output'' None (redacted_fields l) = map_option redact_raw (ln_output l)"
  by (simp_all add: get_field_redacted member_values opt_reads del: option.case)

lemma read_plain:
  "int64_line l \<Longrightarrow> line_of_body (Doc (json_of_line l)) = Some l"
  by (simp add: json_of_line_def line_of_fields_def read_plain_str read_plain_bool read_plain_strs
      read_plain_int read_plain_raw)

lemma read_redacted:
  "int64_line l \<Longrightarrow> line_of_body (redact (Doc (json_of_line l))) = Some (redact_line l)"
  by (simp add: walk_line line_of_fields_def read_redacted_str read_redacted_bool read_redacted_strs
      read_redacted_int read_redacted_raw redact_line_def)

end
