(* ===== verification/Manager.thy ===== *)
theory Manager
  imports Transcript
begin

text \<open>
  The Manager of \<^verbatim>\<open>kit/session/manager.go\<close>, sole owner of the append-only transcript
  file. The file is the list of its newline-terminated entries and an unterminated tail. Every
  write has an outcome chosen by the environment: the whole record, a part of it, or all of it but
  the newline (a process killed or a disk filled in mid-write). The next record is appended to that
  tail, so the two share one line, which is not JSON and which every reader skips. Timestamps and
  random bytes are arguments of the operations.
\<close>

section \<open>The file\<close>

datatype entry =
    Entry body
  | Merged \<comment> \<open>an unterminated record and the record written after it, on one line\<close>

datatype tail = NoTail | TornTail | FullTail body

datatype write_outcome = WroteAll | WrotePart | WroteNoNewline | WroteNothing

datatype manager_err = ErrManagerClosed | ErrWrite

record manager =
  mg_open :: bool \<comment> \<open>m.f is not nil\<close>
  mg_file :: "entry list"
  mg_tail :: tail

definition write_entry :: "write_outcome \<Rightarrow> body \<Rightarrow> manager \<Rightarrow> manager \<times> manager_err option" where
  \<comment> \<open>\<^verbatim>\<open>m.f.Write\<close> of the record and its newline, O_APPEND\<close>
  "write_entry w b m =
     (case w of
        WroteAll \<Rightarrow>
          (m\<lparr>mg_file := mg_file m @ [if mg_tail m = NoTail then Entry b else Merged],
             mg_tail := NoTail\<rparr>, None)
      | WroteNothing \<Rightarrow> (m, Some ErrWrite)
      | WrotePart \<Rightarrow> (m\<lparr>mg_tail := TornTail\<rparr>, Some ErrWrite)
      | WroteNoNewline \<Rightarrow>
          (m\<lparr>mg_tail := (if mg_tail m = NoTail then FullTail b else TornTail)\<rparr>, Some ErrWrite))"

definition open_manager :: "entry list \<Rightarrow> tail \<Rightarrow> manager" where
  \<comment> \<open>NewManager over the file a previous process left\<close>
  "open_manager es t = \<lparr>mg_open = True, mg_file = es, mg_tail = t\<rparr>"

definition close_manager :: "manager \<Rightarrow> manager" where
  "close_manager m = m\<lparr>mg_open := False\<rparr>"

section \<open>Appending\<close>

text \<open>
  The injected Redactor: its result, or \<open>None\<close> when it reports an error; then the scrubbed
  text of the record is written in its place.
\<close>

definition append_line ::
    "(body \<Rightarrow> body option) \<Rightarrow> (body \<Rightarrow> string) \<Rightarrow> write_outcome \<Rightarrow> line \<Rightarrow> manager \<Rightarrow>
     manager \<times> manager_err option" where
  "append_line red scrub w l m =
     (let raw = Doc (json_of_line l);
          out = (case red raw of Some b \<Rightarrow> b | None \<Rightarrow> NotJson (scrub raw))
      in if \<not> mg_open m then (m, Some ErrManagerClosed) else write_entry w out m)"

definition append_line_unredacted ::
    "write_outcome \<Rightarrow> line \<Rightarrow> manager \<Rightarrow> manager \<times> manager_err option" where
  "append_line_unredacted w l m =
     (if \<not> mg_open m then (m, Some ErrManagerClosed) else write_entry w (Doc (json_of_line l)) m)"

definition kit_red :: "body \<Rightarrow> body option" where
  \<comment> \<open>the Redactor the program wires: kit/redact, which never reports an error on a JSON value\<close>
  "kit_red b = Some (redact b)"

definition kit_scrub :: "(body \<Rightarrow> string) \<Rightarrow> body \<Rightarrow> string" where
  \<comment> \<open>ScrubError of the record's text, \<open>render\<close> giving the text\<close>
  "kit_scrub render b = scrub_error (Some (render b))"

subsection \<open>One record per event\<close>

definition record_line :: "string \<Rightarrow> string \<Rightarrow> string \<Rightarrow> line" where
  "record_line t turn ts = zero_line\<lparr>ln_type := t, ln_turn := turn, ln_ts := ts\<rparr>"

definition session_start_line :: "string \<Rightarrow> string \<Rightarrow> line" where
  "session_start_line sid ts = (record_line TypeSessionStart [] ts)\<lparr>ln_text := sid\<rparr>"

definition session_end_line :: "string \<Rightarrow> line" where
  "session_end_line ts = record_line TypeSessionEnd [] ts"

record content_block =
  cb_type :: string
  cb_text :: string
  cb_data_ref :: string
  cb_media_type :: string
  cb_width :: int
  cb_height :: int
  cb_orig_width :: int
  cb_orig_height :: int
  cb_orig_size :: int
  cb_scaled :: bool
  cb_data :: string \<comment> \<open>the inline payload, never marshaled\<close>

definition json_of_block :: "content_block \<Rightarrow> json" where
  "json_of_block b = JObj (emit
     [(''type'', Some (JStr (cb_type b))), (''text'', opt_str (cb_text b)),
      (''dataRef'', opt_str (cb_data_ref b)), (''mediaType'', opt_str (cb_media_type b)),
      (''width'', opt_int (cb_width b)), (''height'', opt_int (cb_height b)),
      (''origWidth'', opt_int (cb_orig_width b)), (''origHeight'', opt_int (cb_orig_height b)),
      (''origSize'', opt_int (cb_orig_size b)), (''scaled'', opt_bool (cb_scaled b))])"

definition user_message_line :: "string \<Rightarrow> content_block list \<Rightarrow> string \<Rightarrow> line" where
  "user_message_line turn content ts =
     (record_line TypeUserMessage turn ts)\<lparr>ln_content := Some (JArr (map json_of_block content))\<rparr>"

definition assistant_message_line :: "string \<Rightarrow> string \<Rightarrow> string \<Rightarrow> line" where
  "assistant_message_line turn txt ts = (record_line TypeAssistantMessage turn ts)\<lparr>ln_text := txt\<rparr>"

definition chunk_line :: "string \<Rightarrow> string \<Rightarrow> string \<Rightarrow> string \<Rightarrow> line" where
  "chunk_line turn mid txt ts =
     (record_line TypeAgentMessageChunk turn ts)\<lparr>ln_message_id := mid, ln_text := txt\<rparr>"

definition request_shaped_line ::
    "string \<Rightarrow> string \<Rightarrow> string \<Rightarrow> string \<Rightarrow> int \<Rightarrow> int \<Rightarrow> string \<Rightarrow> int \<Rightarrow> line" where
  "request_shaped_line turn prof ts ref sys tools model bytes =
     (record_line TypeRequestShaped turn ts)\<lparr>ln_profile := prof, ln_ref := ref,
       ln_system_blocks := sys, ln_tools := tools, ln_model := model, ln_bytes := bytes\<rparr>"

definition tool_call_line :: "string \<Rightarrow> string \<Rightarrow> string \<Rightarrow> raw_message \<Rightarrow> string \<Rightarrow> line" where
  "tool_call_line turn call name input ts =
     (record_line TypeToolCall turn ts)\<lparr>ln_tool_call := call, ln_name := name, ln_input := input\<rparr>"

definition tool_result_line :: "string \<Rightarrow> string \<Rightarrow> raw_message \<Rightarrow> bool \<Rightarrow> string \<Rightarrow> line" where
  "tool_result_line turn call out err ts =
     (record_line TypeToolResult turn ts)\<lparr>ln_tool_call := call, ln_output := out, ln_is_error := err\<rparr>"

definition boundary_line :: "string \<Rightarrow> string \<Rightarrow> string \<Rightarrow> string \<Rightarrow> line" where
  "boundary_line cause ref turn ts =
     (record_line TypeBoundary turn ts)\<lparr>ln_cause := cause, ln_command_ref := ref\<rparr>"

definition command_provenance_line :: "string \<Rightarrow> string \<Rightarrow> string \<Rightarrow> string \<Rightarrow> string \<Rightarrow> line" where
  "command_provenance_line turn key path args ts =
     (record_line TypeCommandProvenance turn ts)\<lparr>ln_name := key, ln_command_ref := path, ln_text := args\<rparr>"

definition mention_provenance_line :: "string \<Rightarrow> string \<Rightarrow> string \<Rightarrow> string \<Rightarrow> string \<Rightarrow> line" where
  "mention_provenance_line turn tok path form ts =
     (record_line TypeMentionProvenance turn ts)\<lparr>ln_name := tok, ln_command_ref := path, ln_text := form\<rparr>"

definition canceled_line :: "string \<Rightarrow> string \<Rightarrow> string \<Rightarrow> line" where
  "canceled_line turn reason ts = (record_line TypeCanceled turn ts)\<lparr>ln_text := reason\<rparr>"

definition error_line ::
    "(string \<Rightarrow> string) \<Rightarrow> string \<Rightarrow> string \<Rightarrow> string \<Rightarrow> raw_message \<Rightarrow> bool \<Rightarrow> string \<Rightarrow> string \<Rightarrow> line" where
  \<comment> \<open>the message passes the injected ScrubError before the record is built\<close>
  "error_line scrub turn component msg inputs recov stack ts =
     (record_line TypeError turn ts)\<lparr>ln_component := component, ln_message := scrub msg,
       ln_recoverable := recov, ln_stack := stack, ln_input := inputs\<rparr>"

definition subagent_dispatch_line ::
    "string \<Rightarrow> string \<Rightarrow> string \<Rightarrow> string list \<Rightarrow> string \<Rightarrow> string \<Rightarrow> line" where
  "subagent_dispatch_line parent sub call restricted model ts =
     (record_line TypeSubagentDispatch sub ts)\<lparr>ln_parent_turn := parent, ln_subagent_turn := sub,
       ln_tool_call := call, ln_restricted := restricted, ln_resolved_model := model\<rparr>"

definition subagent_result_line :: "string \<Rightarrow> string \<Rightarrow> string \<Rightarrow> string \<Rightarrow> string \<Rightarrow> line" where
  "subagent_result_line parent sub res msg ts =
     (record_line TypeSubagentResult sub ts)\<lparr>ln_parent_turn := parent, ln_subagent_turn := sub,
       ln_result := res, ln_message := msg\<rparr>"

definition usage_line :: "string \<Rightarrow> int \<Rightarrow> int \<Rightarrow> string \<Rightarrow> line" where
  "usage_line turn inp outp ts =
     (record_line TypeUsage turn ts)\<lparr>ln_input_tokens := inp, ln_output_tokens := outp\<rparr>"

definition ask_suspended_line :: "string \<Rightarrow> string \<Rightarrow> raw_message \<Rightarrow> string \<Rightarrow> line" where
  "ask_suspended_line turn call qs ts =
     (record_line TypeAskSuspended turn ts)\<lparr>ln_tool_call := call, ln_input := qs\<rparr>"

definition plan_mode_line :: "string \<Rightarrow> string \<Rightarrow> string \<Rightarrow> string \<Rightarrow> line" where
  "plan_mode_line cause call turn ts =
     (record_line TypePlanMode turn ts)\<lparr>ln_cause := cause, ln_tool_call := call\<rparr>"

definition raw_thinking_line :: "string \<Rightarrow> string \<Rightarrow> raw_message \<Rightarrow> string \<Rightarrow> line" where
  "raw_thinking_line turn model payload ts =
     (record_line TypeRawThinking turn ts)\<lparr>ln_model := model, ln_content := payload\<rparr>"

definition local_command_line ::
    "string \<Rightarrow> string \<Rightarrow> string \<Rightarrow> string \<Rightarrow> string list \<Rightarrow> string \<Rightarrow> line" where
  "local_command_line turn key args expansion chain ts =
     (record_line TypeLocalCommand turn ts)\<lparr>ln_name := key, ln_args := args,
       ln_expansion := expansion, ln_source_chain := chain\<rparr>"

definition compaction_line ::
    "string \<Rightarrow> string \<Rightarrow> string \<Rightarrow> string \<Rightarrow> string \<Rightarrow> int \<Rightarrow> int \<Rightarrow> int \<Rightarrow> string \<Rightarrow> line" where
  \<comment> \<open>\<open>uuid\<close> is the fresh boundary id\<close>
  "compaction_line turn uuid pre post summary inp outp cache ts =
     (record_line TypeCompaction turn ts)\<lparr>ln_boundary_id := uuid, ln_pre_ref := pre, ln_post_ref := post,
       ln_summary := summary, ln_input_tokens := inp, ln_output_tokens := outp, ln_cache_tokens := cache\<rparr>"

definition steering_delivery_line :: "string \<Rightarrow> string \<Rightarrow> int \<Rightarrow> string \<Rightarrow> line" where
  "steering_delivery_line turn txt n ts =
     (record_line TypeSteeringDelivery turn ts)\<lparr>ln_text := txt,
       ln_input := Some (JObj [(''count'', JNum n)])\<rparr>"

definition parked_ask_line :: "string \<Rightarrow> string \<Rightarrow> string \<Rightarrow> line" where
  "parked_ask_line turn summary ts = (record_line TypeParkedAsk turn ts)\<lparr>ln_text := summary\<rparr>"

section \<open>Reading\<close>

fun read_entry :: "entry \<Rightarrow> line option" where
  "read_entry (Entry b) = line_of_body b"
| "read_entry Merged = None"

definition read_tail :: "tail \<Rightarrow> line list" where
  "read_tail t = (case t of FullTail b \<Rightarrow> (case line_of_body b of Some l \<Rightarrow> [l] | None \<Rightarrow> [])
     | _ \<Rightarrow> [])"

definition read_all :: "manager \<Rightarrow> line list" where
  \<comment> \<open>readTranscriptFile: entries that do not parse are skipped\<close>
  "read_all m = List.map_filter read_entry (mg_file m) @ read_tail (mg_tail m)"

fun last_index :: "('a \<Rightarrow> bool) \<Rightarrow> 'a list \<Rightarrow> nat option" where
  \<comment> \<open>the greatest index whose element satisfies the predicate\<close>
  "last_index P [] = None"
| "last_index P (x # xs) =
     (case last_index P xs of Some i \<Rightarrow> Some (Suc i) | None \<Rightarrow> if P x then Some 0 else None)"

definition read_last_boundary :: "manager \<Rightarrow> line option" where
  "read_last_boundary m =
     map_option (\<lambda>i. read_all m ! i) (last_index (\<lambda>l. ln_type l = TypeBoundary) (read_all m))"

definition read_since :: "string \<Rightarrow> manager \<Rightarrow> line list" where
  "read_since turn m =
     (let ls = read_all m
      in if turn = [] then ls
         else (case last_index (\<lambda>l. ln_turn l = turn) ls of
             None \<Rightarrow> ls | Some i \<Rightarrow> drop (Suc i) ls))"

section \<open>The redactor's contract\<close>

text \<open>
  What the Manager relies on: what the redactor returns, and what the error scrubber returns, is
  safe to store.
\<close>

locale redactor =
  fixes red :: "body \<Rightarrow> body option" and scrub :: "body \<Rightarrow> string" and safe :: "body \<Rightarrow> bool"
  assumes red_safe: "red b = Some b' \<Longrightarrow> safe b'"
    and scrub_safe: "safe (NotJson (scrub b))"
begin

definition stored_ok :: "manager \<Rightarrow> bool" where
  "stored_ok m =
     ((\<forall>b. Entry b \<in> set (mg_file m) \<longrightarrow> safe b \<or> (\<exists>l. ln_type l = TypeRawThinking \<and> b = Doc (json_of_line l))) \<and>
      (\<forall>b. mg_tail m = FullTail b \<longrightarrow> safe b \<or> (\<exists>l. ln_type l = TypeRawThinking \<and> b = Doc (json_of_line l))))"

lemma write_entry_ok:
  assumes "stored_ok m" and "safe b \<or> (\<exists>l. ln_type l = TypeRawThinking \<and> b = Doc (json_of_line l))"
  shows "stored_ok (fst (write_entry w b m))"
  using assms unfolding stored_ok_def write_entry_def
  by (cases w) (auto split: if_splits)

lemma append_line_ok:
  assumes "stored_ok m"
  shows "stored_ok (fst (append_line red scrub w l m))"
proof -
  have "safe (case red (Doc (json_of_line l)) of Some b \<Rightarrow> b | None \<Rightarrow> NotJson (scrub (Doc (json_of_line l))))"
    using red_safe scrub_safe by (auto split: option.splits)
  then show ?thesis
    unfolding append_line_def Let_def using assms write_entry_ok by auto
qed

lemma append_unredacted_ok:
  "stored_ok m \<Longrightarrow> ln_type l = TypeRawThinking \<Longrightarrow> stored_ok (fst (append_line_unredacted w l m))"
  unfolding append_line_unredacted_def using write_entry_ok by auto

end

interpretation kitred: redactor kit_red "kit_scrub render" body_hidden for render
proof
  show "body_hidden b'" if "kit_red b = Some b'" for b b'
    using that redact_body_hidden by (auto simp: kit_red_def)
  show "body_hidden (NotJson (kit_scrub render b))" for b
    by (simp add: kit_scrub_def scrub_error_def scrub_token_free)
qed

section \<open>Histories of a transcript file\<close>

datatype mg_op =
    AppendRedacted line write_outcome
  | AppendThinking string string raw_message string write_outcome
  | CloseFile
  | ReopenFile \<comment> \<open>a later process opens the same file\<close>

fun mg_step :: "(body \<Rightarrow> string) \<Rightarrow> mg_op \<Rightarrow> manager \<Rightarrow> manager" where
  "mg_step render (AppendRedacted l w) m = fst (append_line kit_red (kit_scrub render) w l m)"
| "mg_step render (AppendThinking turn model payload ts w) m =
     fst (append_line_unredacted w (raw_thinking_line turn model payload ts) m)"
| "mg_step render CloseFile m = close_manager m"
| "mg_step render ReopenFile m = open_manager (mg_file m) (mg_tail m)"

definition mg_run :: "(body \<Rightarrow> string) \<Rightarrow> mg_op list \<Rightarrow> manager" where
  "mg_run render ops = fold (mg_step render) ops (open_manager [] NoTail)"

lemma mg_step_ok: "kitred.stored_ok m \<Longrightarrow> kitred.stored_ok (mg_step render op m)"
proof (cases op)
  case (AppendThinking turn model payload ts w)
  assume "kitred.stored_ok m"
  moreover have "ln_type (raw_thinking_line turn model payload ts) = TypeRawThinking"
    by (simp add: raw_thinking_line_def record_line_def)
  ultimately show ?thesis
    using AppendThinking kitred.append_unredacted_ok by simp
next
  case (AppendRedacted l w)
  assume "kitred.stored_ok m"
  then show ?thesis using AppendRedacted kitred.append_line_ok by simp
qed (simp_all add: close_manager_def open_manager_def kitred.stored_ok_def)

lemma mg_run_ok: "kitred.stored_ok (mg_run render ops)"
proof -
  have "kitred.stored_ok m \<Longrightarrow> kitred.stored_ok (fold (mg_step render) ops m)" for m
    by (induction ops arbitrary: m) (auto intro: mg_step_ok)
  moreover have "kitred.stored_ok (open_manager [] NoTail)"
    by (simp add: kitred.stored_ok_def open_manager_def)
  ultimately show ?thesis by (simp add: mg_run_def)
qed

lemma mg_step_appends: "prefix (mg_file m) (mg_file (mg_step render op m))"
  by (cases op) (auto simp: append_line_def append_line_unredacted_def write_entry_def Let_def
      close_manager_def open_manager_def split: write_outcome.splits)

section \<open>Reading back\<close>

lemma map_filter_append: "List.map_filter f (xs @ ys) = List.map_filter f xs @ List.map_filter f ys"
  by (induction xs) (auto simp: List.map_filter_simps split: option.splits)

lemma append_line_whole:
  assumes "mg_open m" "mg_tail m = NoTail"
  shows "append_line kit_red sc WroteAll l m =
     (m\<lparr>mg_file := mg_file m @ [Entry (redact (Doc (json_of_line l)))]\<rparr>, None)"
  using assms by (cases m) (simp add: append_line_def kit_red_def write_entry_def Let_def)

lemma append_line_read:
  assumes "mg_open m" "mg_tail m = NoTail" "int64_line l"
  shows "read_all (fst (append_line kit_red sc WroteAll l m)) = read_all m @ [redact_line l]"
proof -
  have e: "read_entry (Entry (redact (Doc (json_of_line l)))) = Some (redact_line l)"
    by (simp only: read_entry.simps read_redacted[OF assms(3)])
  show ?thesis
    unfolding append_line_whole[OF assms(1,2)]
    by (simp add: read_all_def map_filter_append List.map_filter_simps e read_tail_def assms(2)
        del: read_entry.simps redact.simps)
qed

section \<open>Properties\<close>



text \<open>A line appended with one complete write to a file that ends in a newline is read back
  as the last line, changed only by redaction, and every line that was readable stays in its
  place.\<close>

theorem append_then_read:
  "mg_open m \<Longrightarrow> mg_tail m = NoTail \<Longrightarrow> int64_line l \<Longrightarrow>
   read_all (fst (append_line kit_red (kit_scrub render) WroteAll l m)) = read_all m @ [redact_line l]"
  by (rule append_line_read)

theorem append_then_read_witness:
  "read_all (fst (append_line kit_red (kit_scrub (\<lambda>b. [])) WroteAll
      (canceled_line ''s-turn-001'' ''sk-secret77'' ''t'') (open_manager [] NoTail))) =
   [canceled_line ''s-turn-001'' ''[REDACTED]'' ''t'']"
proof -
  have "redact_line (canceled_line ''s-turn-001'' ''sk-secret77'' ''t'') =
      canceled_line ''s-turn-001'' ''[REDACTED]'' ''t''"
    by code_simp
  moreover have "int64_line (canceled_line ''s-turn-001'' ''sk-secret77'' ''t'')"
    by code_simp
  moreover have "read_all (open_manager [] NoTail) = []" by code_simp
  ultimately show ?thesis
    using append_then_read[of "open_manager [] NoTail" "canceled_line ''s-turn-001'' ''sk-secret77'' ''t''" "\<lambda>b. []"]
    by (simp add: open_manager_def)
qed

text \<open>After a write that was cut off, the next append reports success and is lost: the file
  then reads as the lines before the cut-off record, whatever was appended, and a cut-off record
  that still parsed is lost with it.\<close>

theorem torn_tail_eats_next_append:
  "mg_open m \<Longrightarrow> mg_tail m \<noteq> NoTail \<Longrightarrow>
   snd (append_line kit_red (kit_scrub render) WroteAll l m) = None \<and>
   read_all (fst (append_line kit_red (kit_scrub render) WroteAll l m)) =
     List.map_filter read_entry (mg_file m)"
  by (auto simp: append_line_def kit_red_def write_entry_def Let_def read_all_def map_filter_append
      List.map_filter_simps read_tail_def)

theorem torn_tail_eats_next_append_witness:
  "read_all (fst (append_line kit_red (kit_scrub (\<lambda>b. [])) WroteAll (session_end_line ''t'')
      (open_manager [] (FullTail (Doc (json_of_line (session_start_line ''s'' ''t''))))))) = []
   \<and> read_all (open_manager [] (FullTail (Doc (json_of_line (session_start_line ''s'' ''t''))))) =
       [session_start_line ''s'' ''t'']"
proof
  let ?m = "open_manager [] (FullTail (Doc (json_of_line (session_start_line ''s'' ''t''))))"
  show "read_all (fst (append_line kit_red (kit_scrub (\<lambda>b. [])) WroteAll (session_end_line ''t'') ?m)) = []"
    using torn_tail_eats_next_append[of ?m "\<lambda>b. []" "session_end_line ''t''"]
    by (simp add: open_manager_def List.map_filter_simps)
  have "int64_line (session_start_line ''s'' ''t'')" by code_simp
  then show "read_all ?m = [session_start_line ''s'' ''t'']"
    using read_plain by (simp add: read_all_def open_manager_def read_tail_def List.map_filter_simps)
qed

end
