(* ===== verification/TurnIds.thy ===== *)
theory TurnIds
  imports Transcript
begin

text \<open>
  Turn identifiers: the counter and the \<^verbatim>\<open>%s-turn-%03d\<close> format of
  \<^verbatim>\<open>kit/session/session.go\<close>, the transcript scan of \<^verbatim>\<open>kit/session/seed.go\<close> that
  seeds a resumed session, and the plan-mode state of \<^verbatim>\<open>kit/session/planmode.go\<close> that
  the same resume restores. The counter is an \<^verbatim>\<open>atomic.Int64\<close>, a 64-bit word.
\<close>

section \<open>Decimal texts\<close>

definition digit_of :: "nat \<Rightarrow> char" where
  "digit_of d = char_of (48 + d)"

definition digit_val :: "char \<Rightarrow> nat" where
  "digit_val c = of_char c - 48"

definition is_digit :: "char \<Rightarrow> bool" where
  \<comment> \<open>\<^verbatim>\<open>s[i] < '0' || s[i] > '9'\<close> is its negation\<close>
  "is_digit c = (48 \<le> (of_char c :: nat) \<and> (of_char c :: nat) \<le> 57)"

fun decimal :: "nat \<Rightarrow> string" where
  "decimal n = (if n < 10 then [digit_of n] else decimal (n div 10) @ [digit_of (n mod 10)])"

declare decimal.simps [simp del]

definition parse_digits :: "string \<Rightarrow> nat" where
  "parse_digits s = foldl (\<lambda>a c. 10 * a + digit_val c) 0 s"

definition parse_int64 :: "string \<Rightarrow> int option" where
  \<comment> \<open>\<^verbatim>\<open>strconv.ParseInt(s, 10, 64)\<close> on a text of digits; \<open>None\<close> is its range error\<close>
  "parse_int64 s = (let n = int (parse_digits s) in if n < 2 ^ 63 then Some n else None)"

definition pad3 :: "string \<Rightarrow> string" where
  "pad3 s = replicate (3 - length s) CHR ''0'' @ s"

definition show_int03 :: "int \<Rightarrow> string" where
  \<comment> \<open>\<^verbatim>\<open>%03d\<close>: the sign counts in the width\<close>
  "show_int03 n =
     (if 0 \<le> n then pad3 (decimal (nat n))
      else CHR ''-'' # replicate (2 - length (decimal (nat (- n)))) CHR ''0'' @ decimal (nat (- n)))"

lemma digit_of_code: "d < 10 \<Longrightarrow> of_char (digit_of d) = 48 + d"
  by (simp add: digit_of_def)

lemma digit_val_digit_of [simp]: "d < 10 \<Longrightarrow> digit_val (digit_of d) = d"
  by (simp add: digit_val_def digit_of_code)

lemma is_digit_digit_of [simp]: "d < 10 \<Longrightarrow> is_digit (digit_of d)"
  by (simp add: is_digit_def digit_of_code)

lemma parse_digits_snoc: "parse_digits (s @ [c]) = 10 * parse_digits s + digit_val c"
  by (simp add: parse_digits_def)

lemma parse_decimal: "parse_digits (decimal n) = n"
proof (induction n rule: decimal.induct)
  case (1 n)
  then show ?case
    by (subst decimal.simps) (auto simp: parse_digits_snoc, simp add: parse_digits_def)
qed

lemma decimal_digits: "list_all is_digit (decimal n)"
proof (induction n rule: decimal.induct)
  case (1 n)
  then show ?case by (subst decimal.simps) auto
qed

lemma parse_zeros: "parse_digits (replicate k CHR ''0'' @ s) = parse_digits s"
proof -
  have z: "digit_val CHR ''0'' = 0" by code_simp
  have "foldl (\<lambda>a c. 10 * a + digit_val c) 0 (replicate k CHR ''0'') = 0"
    by (induction k) (simp_all add: z)
  then show ?thesis by (simp add: parse_digits_def)
qed

lemma parse_pad3 [simp]: "parse_digits (pad3 (decimal n)) = n"
  by (simp add: pad3_def parse_zeros parse_decimal)

lemma pad3_digits: "list_all is_digit (pad3 (decimal n))"
proof -
  have "is_digit CHR ''0''" by code_simp
  then show ?thesis using decimal_digits[of n] by (auto simp: pad3_def list_all_iff)
qed

lemma pad3_length: "3 \<le> length (pad3 s)"
  by (simp add: pad3_def)

section \<open>The counter\<close>

definition turn_infix :: string where
  "turn_infix = ''-turn-''"

definition turn_id :: "string \<Rightarrow> int \<Rightarrow> string" where
  "turn_id sid n = sid @ turn_infix @ show_int03 n"

record turn_state =
  tu_session :: string
  tu_counter :: "64 word" \<comment> \<open>read as a signed integer\<close>

definition next_turn_id :: "turn_state \<Rightarrow> turn_state \<times> string" where
  "next_turn_id s =
     (let n = tu_counter s + 1 in (s\<lparr>tu_counter := n\<rparr>, turn_id (tu_session s) (sint n)))"

definition current_turn_id :: "turn_state \<Rightarrow> string" where
  "current_turn_id s = (if tu_counter s = 0 then [] else turn_id (tu_session s) (sint (tu_counter s)))"

section \<open>The scan\<close>

definition is_turn_suffix :: "string \<Rightarrow> bool" where
  "is_turn_suffix s = (3 \<le> length s \<and> list_all is_digit s)"

definition turn_suffix_value :: "string \<Rightarrow> line \<Rightarrow> int option" where
  \<comment> \<open>the guards of one iteration; \<open>None\<close> is \<^verbatim>\<open>continue\<close>\<close>
  "turn_suffix_value sid l =
     (case cut_prefix (ln_turn l) (sid @ turn_infix) of
        None \<Rightarrow> None
      | Some sfx \<Rightarrow>
          if \<not> is_turn_suffix sfx then None
          else (case parse_int64 sfx of
              None \<Rightarrow> None
            | Some n \<Rightarrow> if n \<le> 0 then None else Some n))"

definition max_turn_counter :: "string \<Rightarrow> line list \<Rightarrow> int" where
  "max_turn_counter sid ls =
     foldl (\<lambda>m l. case turn_suffix_value sid l of None \<Rightarrow> m | Some n \<Rightarrow> if m < n then n else m) 0 ls"

lemma max_turn_foldl_mono:
  "(a :: int) \<le> foldl (\<lambda>m l. case f l of None \<Rightarrow> m | Some n \<Rightarrow> if m < n then n else m) a ls"
  by (induction ls arbitrary: a) (auto split: option.splits intro: order_trans less_imp_le)

lemma max_turn_upper:
  "l \<in> set ls \<Longrightarrow> turn_suffix_value sid l = Some n \<Longrightarrow> n \<le> max_turn_counter sid ls"
proof -
  have "l \<in> set ls \<Longrightarrow> turn_suffix_value sid l = Some n \<Longrightarrow>
    n \<le> foldl (\<lambda>m l. case turn_suffix_value sid l of None \<Rightarrow> m | Some n \<Rightarrow> if m < n then n else m) a ls" for a
  proof (induction ls arbitrary: a)
    case (Cons x ls)
    show ?case
    proof (cases "l \<in> set ls")
      case True
      with Cons show ?thesis by simp
    next
      case False
      with Cons.prems have "x = l" by simp
      then have "n \<le> (case turn_suffix_value sid x of None \<Rightarrow> a | Some n \<Rightarrow> if a < n then n else a)"
        using Cons.prems by simp
      then show ?thesis
        using max_turn_foldl_mono order_trans by fastforce
    qed
  qed simp
  then show "l \<in> set ls \<Longrightarrow> turn_suffix_value sid l = Some n \<Longrightarrow> n \<le> max_turn_counter sid ls"
    by (simp add: max_turn_counter_def)
qed

lemma max_turn_attained:
  "max_turn_counter sid ls = 0 \<or> (\<exists>l\<in>set ls. turn_suffix_value sid l = Some (max_turn_counter sid ls))"
proof -
  let ?f = "\<lambda>m l. case turn_suffix_value sid l of None \<Rightarrow> m | Some n \<Rightarrow> if m < n then n else m"
  have "foldl ?f a ls = a \<or> (\<exists>l\<in>set ls. turn_suffix_value sid l = Some (foldl ?f a ls))" for a
  proof (induction ls arbitrary: a)
    case (Cons x ls)
    from Cons[of "?f a x"] show ?case
      by (auto split: option.splits if_splits)
  qed simp
  then show ?thesis by (simp add: max_turn_counter_def)
qed

lemma turn_suffix_range: "turn_suffix_value sid l = Some n \<Longrightarrow> 0 < n \<and> n < 2 ^ 63"
  by (auto simp: turn_suffix_value_def parse_int64_def Let_def split: option.splits if_splits)

lemma max_turn_range: "0 \<le> max_turn_counter sid ls \<and> max_turn_counter sid ls < 2 ^ 63"
  using max_turn_attained[of sid ls] turn_suffix_range by fastforce

lemma turn_suffix_minted:
  assumes "0 < n" "n < 2 ^ 63" "ln_turn l = turn_id sid n"
  shows "turn_suffix_value sid l = Some n"
proof -
  have "cut_prefix (ln_turn l) (sid @ turn_infix) = Some (show_int03 n)"
    using assms(3) by (simp add: cut_prefix_Some turn_id_def)
  moreover have "show_int03 n = pad3 (decimal (nat n))"
    using assms by (simp add: show_int03_def)
  ultimately show ?thesis
    using assms by (simp add: turn_suffix_value_def is_turn_suffix_def pad3_digits pad3_length
        parse_int64_def Let_def)
qed

lemma max_turn_append:
  "max_turn_counter sid (xs @ ys) =
     foldl (\<lambda>m l. case turn_suffix_value sid l of None \<Rightarrow> m | Some n \<Rightarrow> if m < n then n else m)
       (max_turn_counter sid xs) ys"
  by (simp add: max_turn_counter_def)

lemma max_turn_append_same:
  assumes "\<And>l n. l \<in> set ys \<Longrightarrow> turn_suffix_value sid l = Some n \<Longrightarrow> n \<le> max_turn_counter sid xs"
  shows "max_turn_counter sid (xs @ ys) = max_turn_counter sid xs"
proof -
  have "(\<And>l n. l \<in> set ys \<Longrightarrow> turn_suffix_value sid l = Some n \<Longrightarrow> n \<le> a) \<Longrightarrow>
    foldl (\<lambda>m l. case turn_suffix_value sid l of None \<Rightarrow> m | Some n \<Rightarrow> if m < n then n else m) a ys = a" for a
    by (induction ys) (auto split: option.splits, force)
  with assms show ?thesis by (simp add: max_turn_append)
qed

section \<open>Plan mode and the resume seed\<close>

record plan_mode =
  pm_on :: bool
  pm_used :: bool

definition new_plan_mode :: plan_mode where
  "new_plan_mode = \<lparr>pm_on = False, pm_used = False\<rparr>"

definition plan_enter :: "plan_mode \<Rightarrow> plan_mode" where
  "plan_enter p = p\<lparr>pm_on := True, pm_used := True\<rparr>"

definition plan_exit :: "plan_mode \<Rightarrow> plan_mode" where
  "plan_exit p = p\<lparr>pm_on := False, pm_used := True\<rparr>"

abbreviation (input) PlanModeCauseEnter :: string where
  "PlanModeCauseEnter \<equiv> ''plan_mode_enter''"

abbreviation (input) PlanModeCauseExit :: string where
  "PlanModeCauseExit \<equiv> ''plan_mode_exit''"

definition seed_resume ::
    "int \<Rightarrow> string \<Rightarrow> turn_state \<times> plan_mode option \<Rightarrow> turn_state \<times> plan_mode option" where
  \<comment> \<open>the plan-mode state is \<open>None\<close> when it is not wired\<close>
  "seed_resume max_turns target st =
     (let s = (fst st)\<lparr>tu_counter := word_of_int max_turns\<rparr>
      in case snd st of
           None \<Rightarrow> (s, None)
         | Some p \<Rightarrow>
             if target = [] then (s, Some p)
             else if target = PlanModeCauseEnter then (s, Some (plan_enter p))
             else if target = PlanModeCauseExit then (s, Some (plan_exit p))
             else (s, Some p))"

definition current_mode :: "plan_mode option \<Rightarrow> string option" where
  \<comment> \<open>the \<^verbatim>\<open>currentModeId\<close> of \<^verbatim>\<open>ModesState\<close>, \<open>None\<close> for a nil state\<close>
  "current_mode st =
     (case st of
        None \<Rightarrow> None
      | Some p \<Rightarrow> if \<not> pm_used p then None else Some (if pm_on p then ''plan'' else ''default''))"

fun mint_turns :: "nat \<Rightarrow> turn_state \<Rightarrow> turn_state \<times> string list" where
  \<comment> \<open>the next turns of a session\<close>
  "mint_turns 0 s = (s, [])"
| "mint_turns (Suc k) s =
     (let (s', i) = next_turn_id s; (s'', is) = mint_turns k s' in (s'', i # is))"

lemma sint_counter:
  assumes "0 \<le> n" "n + int k < 2 ^ 63"
  shows "sint (word_of_int n + of_nat k :: 64 word) = n + int k"
proof -
  have "(word_of_int n + of_nat k :: 64 word) = word_of_int (n + int k)" by simp
  then have "sint (word_of_int n + of_nat k :: 64 word) = signed_take_bit 63 (n + int k)"
    by (simp only: sint_sbintrunc') simp
  also have "\<dots> = n + int k"
    using assms by (simp add: signed_take_bit_int_eq_self)
  finally show ?thesis .
qed

lemma mint_turns_ids:
  assumes "0 \<le> n" "n + int k < 2 ^ 63" "tu_counter s = word_of_int n"
  shows "snd (mint_turns k s) = map (\<lambda>i. turn_id (tu_session s) (n + int (Suc i))) [0..<k]"
  using assms
proof (induction k arbitrary: n s)
  case (Suc k)
  let ?s' = "s\<lparr>tu_counter := tu_counter s + 1\<rparr>"
  have c: "tu_counter ?s' = word_of_int (n + 1)" using Suc.prems by simp
  have "sint (tu_counter ?s') = n + 1"
    using sint_counter[of n 1] Suc.prems by simp
  then have "snd (mint_turns (Suc k) s) = turn_id (tu_session s) (n + 1) # snd (mint_turns k ?s')"
    by (simp add: next_turn_id_def Let_def split_beta)
  also have "snd (mint_turns k ?s') = map (\<lambda>i. turn_id (tu_session s) (n + 1 + int (Suc i))) [0..<k]"
    using Suc.IH[OF _ _ c] Suc.prems by simp
  also have "turn_id (tu_session s) (n + 1) # map (\<lambda>i. turn_id (tu_session s) (n + 1 + int (Suc i))) [0..<k]
      = map (\<lambda>i. turn_id (tu_session s) (n + int (Suc i))) [0..<Suc k]"
  proof -
    have "[0..<Suc k] = 0 # map Suc [0..<k]"
      by (simp only: upt_conv_Cons[OF zero_less_Suc] map_Suc_upt)
    then show ?thesis by (simp add: comp_def algebra_simps)
  qed
  finally show ?case .
qed simp

lemma turn_id_inject:
  assumes "0 < i" "0 < j" "turn_id sid i = turn_id sid j"
  shows "i = j"
proof -
  have "pad3 (decimal (nat i)) = pad3 (decimal (nat j))"
    using assms by (simp add: turn_id_def show_int03_def)
  then have "nat i = nat j" by (metis parse_pad3)
  with assms show ?thesis by simp
qed

lemma sint_word_of_int63: "0 \<le> n \<Longrightarrow> n < 2 ^ 63 \<Longrightarrow> sint (word_of_int n :: 64 word) = n"
  using sint_counter[of n 0] by simp

section \<open>Properties\<close>

text \<open>C40. After a resume, as long as the counter stays below the 64-bit limit, every turn id the
  session mints is new: it is not the turn id of any line of the transcript, and no two of them
  are equal.\<close>

theorem resumed_turn_ids_fresh:
  "max_turn_counter sid ls + int k < 2 ^ 63 \<Longrightarrow> tu_session s = sid \<Longrightarrow>
   (let ids = snd (mint_turns k (fst (seed_resume (max_turn_counter sid ls) target (s, plan))))
    in distinct ids \<and> length ids = k \<and> set ids \<inter> ln_turn ` set ls = {})"
proof -
  assume b: "max_turn_counter sid ls + int k < 2 ^ 63" and sid: "tu_session s = sid"
  let ?n = "max_turn_counter sid ls"
  let ?s = "fst (seed_resume ?n target (s, plan))"
  have n: "0 \<le> ?n" using max_turn_range by blast
  have s: "tu_counter ?s = word_of_int ?n" "tu_session ?s = sid"
    using sid by (auto simp: seed_resume_def Let_def split: option.splits)
  have ids: "snd (mint_turns k ?s) = map (\<lambda>i. turn_id sid (?n + int (Suc i))) [0..<k]"
    using mint_turns_ids[OF n b s(1)] s(2) by simp
  have "inj_on (\<lambda>i. turn_id sid (?n + int (Suc i))) {0..<k}"
    using n by (intro inj_onI) (auto dest!: turn_id_inject[rotated -1])
  then have d: "distinct (snd (mint_turns k ?s))"
    unfolding ids by (simp add: distinct_map)
  have f: "turn_id sid (?n + int (Suc i)) \<noteq> ln_turn l" if "i < k" "l \<in> set ls" for i l
  proof
    assume "turn_id sid (?n + int (Suc i)) = ln_turn l"
    then have "turn_suffix_value sid l = Some (?n + int (Suc i))"
      using turn_suffix_minted[of "?n + int (Suc i)" l sid] n b that by simp
    from max_turn_upper[OF that(2) this] show False by simp
  qed
  have "set (snd (mint_turns k ?s)) \<inter> ln_turn ` set ls = {}"
    unfolding ids using f by auto
  then show ?thesis
    using d ids by (simp add: Let_def)
qed

theorem resumed_turn_ids_fresh_witness:
  "snd (mint_turns 2 (fst (seed_resume 7 [] (\<lparr>tu_session = ''s'', tu_counter = 0\<rparr>, None)))) =
     [''s-turn-008'', ''s-turn-009''] \<and>
   set [''s-turn-008'', ''s-turn-009''] \<inter>
     ln_turn ` set [zero_line\<lparr>ln_turn := ''s-turn-007''\<rparr>, zero_line\<lparr>ln_turn := ''s-turn-+99''\<rparr>] = {}"
proof -
  let ?ls = "[zero_line\<lparr>ln_turn := ''s-turn-007''\<rparr>, zero_line\<lparr>ln_turn := ''s-turn-+99''\<rparr>]"
  let ?s = "\<lparr>tu_session = ''s'', tu_counter = 0\<rparr>"
  have m: "max_turn_counter ''s'' ?ls = 7" by code_simp
  have i: "snd (mint_turns 2 (fst (seed_resume 7 [] (?s, None)))) = [''s-turn-008'', ''s-turn-009'']"
    by code_simp
  show ?thesis
    using resumed_turn_ids_fresh[of "''s''" ?ls 2 ?s "[]" None] m i
    by (simp add: Let_def del: Int_iff list.set)
qed

end
