(* ===== verification/Reconcile.thy ===== *)
theory Reconcile
  imports TurnIds Manager "HOL-Library.Multiset"
begin

text \<open>
  The reconciliation engine of \<^verbatim>\<open>kit/session/reconcile.go\<close>: one ordered pass over the
  transcript classifies the expectations that a killed process left open, and one synthetic closing
  line answers each of them. The pass keeps Go maps; a map is a partial function here, and the order
  in which a \<^verbatim>\<open>range\<close> loop visits its keys, which Go leaves open, is an argument. The
  load-time clock is one reading, \<open>ts\<close>. The last section composes the engine with the
  Manager as \<^verbatim>\<open>ResumeSession\<close> of \<^verbatim>\<open>kit/runtime/runtime.go\<close> does.
\<close>

section \<open>State of the pass\<close>

record reconcile_turn =
  rt_user_opener :: nat
  rt_has_user :: bool
  rt_terminal :: bool
  rt_has_assistant :: bool
  rt_has_chunk :: bool
  rt_chunk_opener :: nat

definition new_turn :: reconcile_turn where
  "new_turn = \<lparr>rt_user_opener = 0, rt_has_user = False, rt_terminal = False,
     rt_has_assistant = False, rt_has_chunk = False, rt_chunk_opener = 0\<rparr>"

record reconcile_seed =
  sd_max_turns :: int
  sd_plan_mode :: string
  sd_plan_mode_present :: bool

record reconcile_scan =
  sc_seed :: reconcile_seed
  sc_turns :: "string \<rightharpoonup> reconcile_turn"
  sc_tool_calls :: "string \<rightharpoonup> nat"
  sc_asks :: "string \<rightharpoonup> nat"
  sc_dispatch :: "string \<rightharpoonup> nat"
  sc_ended :: bool

definition interrupted_cause :: string where
  "interrupted_cause = ''interrupted''"

definition interrupted_text :: string where
  "interrupted_text = ''interrupted by process death''"

definition interrupted_tool_result_output :: json where
  "interrupted_tool_result_output = JObj [(''error'', JStr interrupted_text)]"

definition cancelled_ask_output :: json where
  "cancelled_ask_output = JObj [(''output'', JStr
     (''Tool call cancelled: the session was interrupted while the ask was pending. '' @
      ''Continue without this call'' @ [char_of (39 :: nat)] @ ''s result.''))]"

section \<open>The pass\<close>

definition turn_of :: "string \<Rightarrow> reconcile_scan \<Rightarrow> reconcile_scan" where
  \<comment> \<open>creates the state of a turn on first sight\<close>
  "turn_of turn sc =
     (if turn = [] then sc
      else (case sc_turns sc turn of
          Some st \<Rightarrow> sc
        | None \<Rightarrow> sc\<lparr>sc_turns := (sc_turns sc)(turn \<mapsto> new_turn)\<rparr>))"

definition upd_turn :: "string \<Rightarrow> (reconcile_turn \<Rightarrow> reconcile_turn) \<Rightarrow> reconcile_scan \<Rightarrow> reconcile_scan" where
  \<comment> \<open>an assignment through the pointer \<open>st\<close>, skipped when it is nil\<close>
  "upd_turn turn f sc =
     (if turn = [] then sc
      else sc\<lparr>sc_turns := (sc_turns sc)(turn \<mapsto> f (the (sc_turns sc turn)))\<rparr>)"

definition set_terminal :: "reconcile_turn \<Rightarrow> reconcile_turn" where
  "set_terminal st = st\<lparr>rt_terminal := True\<rparr>"

definition track_turn :: "line \<Rightarrow> nat \<Rightarrow> reconcile_turn \<Rightarrow> reconcile_turn" where
  "track_turn l i st =
     (if ln_type l = TypeUserMessage then
        (if \<not> rt_has_user st then st\<lparr>rt_has_user := True, rt_user_opener := i\<rparr> else st)
      else if ln_type l = TypeAssistantMessage then
        st\<lparr>rt_terminal := True, rt_has_assistant := True\<rparr>
      else if ln_type l = TypeAgentMessageChunk then
        (if \<not> rt_has_chunk st then st\<lparr>rt_has_chunk := True, rt_chunk_opener := i\<rparr> else st)
      else st)"

definition track_pair :: "line \<Rightarrow> nat \<Rightarrow> reconcile_scan \<Rightarrow> reconcile_scan" where
  "track_pair l i sc =
     (if ln_type l = TypeToolCall then
        sc\<lparr>sc_tool_calls := (sc_tool_calls sc)(ln_tool_call l \<mapsto> i)\<rparr>
      else if ln_type l = TypeAskSuspended then
        upd_turn (ln_turn l) set_terminal
          (sc\<lparr>sc_tool_calls := (sc_tool_calls sc)(ln_tool_call l := None),
              sc_asks := (sc_asks sc)(ln_tool_call l \<mapsto> i)\<rparr>)
      else if ln_type l = TypeToolResult then
        sc\<lparr>sc_tool_calls := (sc_tool_calls sc)(ln_tool_call l := None),
           sc_asks := (sc_asks sc)(ln_tool_call l := None)\<rparr>
      else if ln_type l = TypeSubagentDispatch then
        sc\<lparr>sc_dispatch := (sc_dispatch sc)(ln_subagent_turn l \<mapsto> i)\<rparr>
      else if ln_type l = TypeSubagentResult then
        upd_turn (ln_turn l) set_terminal
          (sc\<lparr>sc_dispatch := (sc_dispatch sc)(ln_subagent_turn l := None)\<rparr>)
      else sc)"

definition note_plan :: "line \<Rightarrow> reconcile_scan \<Rightarrow> reconcile_scan" where
  \<comment> \<open>the last plan_mode line wins\<close>
  "note_plan l sc =
     (if ln_type l = TypePlanMode
      then sc\<lparr>sc_seed := (sc_seed sc)\<lparr>sd_plan_mode := ln_cause l, sd_plan_mode_present := True\<rparr>\<rparr>
      else sc)"

definition route_line :: "nat \<Rightarrow> line \<Rightarrow> reconcile_scan \<Rightarrow> reconcile_scan" where
  \<comment> \<open>the switch on the line's type\<close>
  "route_line i l sc =
     (if ln_type l = TypeUserMessage \<or> ln_type l = TypeAssistantMessage \<or>
         ln_type l = TypeAgentMessageChunk then
        upd_turn (ln_turn l) (track_turn l i) sc
      else if ln_type l = TypeCanceled \<or> ln_type l = TypeError then
        upd_turn (ln_turn l) set_terminal sc
      else if ln_type l = TypeSessionEnd then
        upd_turn (ln_turn l) set_terminal (sc\<lparr>sc_ended := True\<rparr>)
      else track_pair l i sc)"

definition scan_line :: "nat \<Rightarrow> line \<Rightarrow> reconcile_scan \<Rightarrow> reconcile_scan" where
  \<comment> \<open>one iteration of the loop\<close>
  "scan_line i l sc = route_line i l (turn_of (ln_turn l) (note_plan l sc))"

fun scan_from :: "nat \<Rightarrow> line list \<Rightarrow> reconcile_scan \<Rightarrow> reconcile_scan" where
  "scan_from i [] sc = sc"
| "scan_from i (l # ls) sc = scan_from (Suc i) ls (scan_line i l sc)"

definition scan_start :: "int \<Rightarrow> reconcile_scan" where
  "scan_start n = \<lparr>sc_seed = \<lparr>sd_max_turns = n, sd_plan_mode = [], sd_plan_mode_present = False\<rparr>,
     sc_turns = Map.empty, sc_tool_calls = Map.empty, sc_asks = Map.empty, sc_dispatch = Map.empty,
     sc_ended = False\<rparr>"

definition scan_transcript :: "string \<Rightarrow> line list \<Rightarrow> reconcile_scan" where
  "scan_transcript sid ls = scan_from 0 ls (scan_start (max_turn_counter sid ls))"

section \<open>The closures\<close>

type_synonym closure = "nat \<times> line"

record key_orders =
  ko_tool_calls :: "string list"
  ko_asks :: "string list"
  ko_dispatch :: "string list"
  ko_turns :: "string list"

definition key_order :: "(string \<rightharpoonup> 'a) \<Rightarrow> string list \<Rightarrow> bool" where
  \<comment> \<open>a \<^verbatim>\<open>range\<close> loop visits every key of the map once\<close>
  "key_order m ks = (distinct ks \<and> set ks = dom m)"

definition orders_ok :: "key_orders \<Rightarrow> reconcile_scan \<Rightarrow> bool" where
  "orders_ok ko sc = (key_order (sc_tool_calls sc) (ko_tool_calls ko) \<and> key_order (sc_asks sc) (ko_asks ko)
     \<and> key_order (sc_dispatch sc) (ko_dispatch ko) \<and> key_order (sc_turns sc) (ko_turns ko))"

definition tool_call_closure :: "string \<Rightarrow> line list \<Rightarrow> string \<Rightarrow> nat \<Rightarrow> closure" where
  "tool_call_closure ts ls call i =
     (i, zero_line\<lparr>ln_type := TypeToolResult, ln_turn := ln_turn (ls ! i), ln_ts := ts,
        ln_tool_call := call, ln_output := Some interrupted_tool_result_output,
        ln_is_error := True, ln_cause := interrupted_cause\<rparr>)"

definition ask_closure :: "string \<Rightarrow> line list \<Rightarrow> string \<Rightarrow> nat \<Rightarrow> closure" where
  "ask_closure ts ls call i =
     (i, zero_line\<lparr>ln_type := TypeToolResult, ln_turn := ln_turn (ls ! i), ln_ts := ts,
        ln_tool_call := call, ln_output := Some cancelled_ask_output,
        ln_cause := interrupted_cause\<rparr>)"

definition dispatch_closure :: "string \<Rightarrow> line list \<Rightarrow> string \<Rightarrow> nat \<Rightarrow> closure" where
  "dispatch_closure ts ls sub i =
     (i, zero_line\<lparr>ln_type := TypeSubagentResult, ln_turn := sub, ln_ts := ts,
        ln_parent_turn := ln_parent_turn (ls ! i), ln_subagent_turn := sub,
        ln_message := interrupted_text, ln_cause := interrupted_cause\<rparr>)"

definition turn_closures :: "string \<Rightarrow> string \<Rightarrow> reconcile_turn \<Rightarrow> closure list" where
  "turn_closures ts turn st =
     (if rt_has_user st \<and> \<not> rt_terminal st
      then [(rt_user_opener st, zero_line\<lparr>ln_type := TypeCanceled, ln_turn := turn, ln_ts := ts,
               ln_text := interrupted_text, ln_cause := interrupted_cause\<rparr>)] else []) @
     (if rt_has_chunk st \<and> \<not> rt_has_assistant st \<and> \<not> rt_terminal st
      then [(rt_chunk_opener st, zero_line\<lparr>ln_type := TypeAssistantMessage, ln_turn := turn, ln_ts := ts,
               ln_text := interrupted_text, ln_cause := interrupted_cause\<rparr>)] else [])"

definition end_closures :: "string \<Rightarrow> line list \<Rightarrow> reconcile_scan \<Rightarrow> closure list" where
  "end_closures ts ls sc =
     (if sc_ended sc then []
      else [(length ls, zero_line\<lparr>ln_type := TypeSessionEnd, ln_ts := ts, ln_cause := interrupted_cause\<rparr>)])"

definition all_closures :: "key_orders \<Rightarrow> string \<Rightarrow> line list \<Rightarrow> reconcile_scan \<Rightarrow> closure list" where
  \<comment> \<open>\<open>out\<close> before the sort\<close>
  "all_closures ko ts ls sc =
     map (\<lambda>k. tool_call_closure ts ls k (the (sc_tool_calls sc k))) (ko_tool_calls ko) @
     map (\<lambda>k. ask_closure ts ls k (the (sc_asks sc k))) (ko_asks ko) @
     map (\<lambda>k. dispatch_closure ts ls k (the (sc_dispatch sc k))) (ko_dispatch ko) @
     concat (map (\<lambda>k. turn_closures ts k (the (sc_turns sc k))) (ko_turns ko)) @
     end_closures ts ls sc"

definition closures :: "key_orders \<Rightarrow> string \<Rightarrow> line list \<Rightarrow> reconcile_scan \<Rightarrow> line list" where
  \<comment> \<open>\<open>sort_key\<close> is stable, as \<^verbatim>\<open>slices.SortStableFunc\<close>\<close>
  "closures ko ts ls sc = map snd (sort_key fst (all_closures ko ts ls sc))"

definition reconcile ::
    "key_orders \<Rightarrow> string \<Rightarrow> string \<Rightarrow> line list \<Rightarrow> line list \<times> reconcile_seed" where
  "reconcile ko ts sid ls =
     (let sc = scan_transcript sid ls in (closures ko ts ls sc, sc_seed sc))"

section \<open>What the pass knows\<close>

lemma scan_from_append:
  "scan_from i (xs @ ys) sc = scan_from (i + length xs) ys (scan_from i xs sc)"
  by (induction xs arbitrary: i sc) simp_all

lemma scan_snoc: "scan_from i (xs @ [l]) sc = scan_line (i + length xs) l (scan_from i xs sc)"
  by (simp add: scan_from_append)

text \<open>
  Every opener recorded is the index of a line of its kind with its key.
\<close>

definition opens :: "line list \<Rightarrow> string \<Rightarrow> (line \<Rightarrow> string) \<Rightarrow> string \<Rightarrow> nat \<Rightarrow> bool" where
  "opens ls ty key k i = (i < length ls \<and> ln_type (ls ! i) = ty \<and> key (ls ! i) = k)"

definition openers_ok :: "line list \<Rightarrow> reconcile_scan \<Rightarrow> bool" where
  "openers_ok ls sc =
     ((\<forall>k i. sc_tool_calls sc k = Some i \<longrightarrow> opens ls TypeToolCall ln_tool_call k i) \<and>
      (\<forall>k i. sc_asks sc k = Some i \<longrightarrow> opens ls TypeAskSuspended ln_tool_call k i) \<and>
      (\<forall>k i. sc_dispatch sc k = Some i \<longrightarrow> opens ls TypeSubagentDispatch ln_subagent_turn k i) \<and>
      (\<forall>k st. sc_turns sc k = Some st \<longrightarrow> k \<noteq> [] \<and>
         (rt_has_user st \<longrightarrow> opens ls TypeUserMessage ln_turn k (rt_user_opener st)) \<and>
         (rt_has_chunk st \<longrightarrow> opens ls TypeAgentMessageChunk ln_turn k (rt_chunk_opener st))))"

lemma opens_snoc: "opens ls ty key k i \<Longrightarrow> opens (ls @ [l]) ty key k i"
  by (simp add: opens_def nth_append)

lemma opens_last: "opens (ls @ [l]) ty key k (length ls) \<longleftrightarrow> ln_type l = ty \<and> key l = k"
  by (auto simp: opens_def)

lemma turn_of_known: "turn \<noteq> [] \<Longrightarrow> \<exists>st. sc_turns (turn_of turn sc) turn = Some st"
  by (auto simp: turn_of_def split: option.splits)

lemma openers_mono: "openers_ok ls sc \<Longrightarrow> openers_ok (ls @ [l]) sc"
  unfolding openers_ok_def using opens_snoc by blast

lemma openers_turn_of: "openers_ok ls sc \<Longrightarrow> openers_ok ls (turn_of turn sc)"
  unfolding openers_ok_def turn_of_def
  by (auto simp: new_turn_def split: option.splits if_splits)

lemma openers_upd_turn:
  assumes "openers_ok ls sc" "turn \<noteq> [] \<Longrightarrow> sc_turns sc turn \<noteq> None"
    and "\<And>st. sc_turns sc turn = Some st \<Longrightarrow> turn \<noteq> [] \<Longrightarrow>
      (rt_has_user (f st) \<longrightarrow> opens ls TypeUserMessage ln_turn turn (rt_user_opener (f st))) \<and>
      (rt_has_chunk (f st) \<longrightarrow> opens ls TypeAgentMessageChunk ln_turn turn (rt_chunk_opener (f st)))"
  shows "openers_ok ls (upd_turn turn f sc)"
  using assms unfolding openers_ok_def upd_turn_def by auto

lemma openers_terminal:
  assumes "openers_ok ls sc" "turn \<noteq> [] \<Longrightarrow> sc_turns sc turn \<noteq> None"
  shows "openers_ok ls (upd_turn turn set_terminal sc)"
  using assms(1) by (intro openers_upd_turn assms) (auto simp: openers_ok_def set_terminal_def)

lemma openers_route:
  assumes o: "openers_ok (ls @ [l]) sc" and k: "ln_turn l \<noteq> [] \<Longrightarrow> sc_turns sc (ln_turn l) \<noteq> None"
  shows "openers_ok (ls @ [l]) (route_line (length ls) l sc)"
proof -
  have ended: "openers_ok (ls @ [l]) (sc\<lparr>sc_ended := True\<rparr>)" using o by (simp add: openers_ok_def)
  have turn: "openers_ok (ls @ [l]) (upd_turn (ln_turn l) (track_turn l (length ls)) sc)"
  proof (intro openers_upd_turn o k, assumption)
    fix st assume "sc_turns sc (ln_turn l) = Some st" "ln_turn l \<noteq> []"
    then show "(rt_has_user (track_turn l (length ls) st) \<longrightarrow>
        opens (ls @ [l]) TypeUserMessage ln_turn (ln_turn l) (rt_user_opener (track_turn l (length ls) st))) \<and>
      (rt_has_chunk (track_turn l (length ls) st) \<longrightarrow>
        opens (ls @ [l]) TypeAgentMessageChunk ln_turn (ln_turn l) (rt_chunk_opener (track_turn l (length ls) st)))"
      using o by (auto simp: openers_ok_def track_turn_def opens_last)
  qed
  have pair: "openers_ok (ls @ [l]) (track_pair l (length ls) sc)"
  proof -
    have "openers_ok (ls @ [l]) (sc\<lparr>sc_tool_calls := (sc_tool_calls sc)(ln_tool_call l := None),
        sc_asks := (sc_asks sc)(ln_tool_call l \<mapsto> length ls)\<rparr>)" if "ln_type l = TypeAskSuspended"
      using o that by (auto simp: openers_ok_def opens_last)
    moreover have "openers_ok (ls @ [l]) (sc\<lparr>sc_dispatch := (sc_dispatch sc)(ln_subagent_turn l := None)\<rparr>)"
      using o by (auto simp: openers_ok_def)
    moreover have "openers_ok (ls @ [l]) (sc\<lparr>sc_tool_calls := (sc_tool_calls sc)(ln_tool_call l := None),
        sc_asks := (sc_asks sc)(ln_tool_call l := None)\<rparr>)"
      using o by (auto simp: openers_ok_def)
    moreover have "openers_ok (ls @ [l]) (sc\<lparr>sc_tool_calls := (sc_tool_calls sc)(ln_tool_call l \<mapsto> length ls)\<rparr>)"
      if "ln_type l = TypeToolCall"
      using o that by (auto simp: openers_ok_def opens_last)
    moreover have "openers_ok (ls @ [l]) (sc\<lparr>sc_dispatch := (sc_dispatch sc)(ln_subagent_turn l \<mapsto> length ls)\<rparr>)"
      if "ln_type l = TypeSubagentDispatch"
      using o that by (auto simp: openers_ok_def opens_last)
    ultimately show ?thesis
      unfolding track_pair_def using o k by (auto intro!: openers_terminal)
  qed
  show ?thesis
    unfolding route_line_def using turn pair openers_terminal[OF o k] openers_terminal[OF ended] k
    by (simp split: if_split)
qed

lemma openers_note_plan: "openers_ok ls sc \<Longrightarrow> openers_ok ls (note_plan l sc)"
  by (simp add: note_plan_def openers_ok_def)

lemma openers_scan_line:
  assumes "openers_ok ls sc"
  shows "openers_ok (ls @ [l]) (scan_line (length ls) l sc)"
  unfolding scan_line_def
proof (rule openers_route)
  show "openers_ok (ls @ [l]) (turn_of (ln_turn l) (note_plan l sc))"
    using assms by (intro openers_turn_of openers_note_plan openers_mono)
  show "ln_turn l \<noteq> [] \<Longrightarrow> sc_turns (turn_of (ln_turn l) (note_plan l sc)) (ln_turn l) \<noteq> None"
    using turn_of_known by fastforce
qed

lemma openers_scan: "openers_ok ls (scan_from 0 ls (scan_start n))"
proof (induction ls rule: rev_induct)
  case Nil
  then show ?case by (simp add: openers_ok_def scan_start_def)
next
  case (snoc l ls)
  then show ?case using openers_scan_line by (simp add: scan_snoc)
qed

section \<open>The order of the closures\<close>

lemma keyed_openers:
  assumes "distinct ks" "\<And>k. k \<in> set ks \<Longrightarrow> opens ls ty key k (f k)"
  shows "distinct (map f ks)" and "\<forall>i\<in>set (map f ks). i < length ls \<and> ln_type (ls ! i) = ty"
proof -
  have "inj_on f (set ks)"
  proof (rule inj_onI)
    fix k k' assume kk: "k \<in> set ks" "k' \<in> set ks" "f k = f k'"
    have "key (ls ! f k) = k" "key (ls ! f k') = k'"
      using assms(2)[OF kk(1)] assms(2)[OF kk(2)] by (simp_all add: opens_def)
    with kk(3) show "k = k'" by metis
  qed
  with assms(1) show "distinct (map f ks)" unfolding distinct_map by blast
  show "\<forall>i\<in>set (map f ks). i < length ls \<and> ln_type (ls ! i) = ty"
    using assms(2) by (simp add: opens_def)
qed

lemma openers_turnD:
  assumes "openers_ok ls sc" "sc_turns sc k = Some st"
  shows "k \<noteq> []" and "rt_has_user st \<Longrightarrow> opens ls TypeUserMessage ln_turn k (rt_user_opener st)"
    and "rt_has_chunk st \<Longrightarrow> opens ls TypeAgentMessageChunk ln_turn k (rt_chunk_opener st)"
  using assms unfolding openers_ok_def by blast+

lemma distinct_classes:
  fixes a b c d e :: "nat list" and ty :: "nat \<Rightarrow> string"
  assumes "\<forall>i\<in>set a. i < n \<and> ty i = TypeToolCall" "distinct a"
    and "\<forall>i\<in>set b. i < n \<and> ty i = TypeAskSuspended" "distinct b"
    and "\<forall>i\<in>set c. i < n \<and> ty i = TypeSubagentDispatch" "distinct c"
    and "\<forall>i\<in>set d. i < n \<and> (ty i = TypeUserMessage \<or> ty i = TypeAgentMessageChunk)" "distinct d"
    and "\<forall>i\<in>set e. i = n" "distinct e"
  shows "distinct (a @ b @ c @ d @ e)"
proof -
  have "set d \<inter> set e = {}" "set c \<inter> set e = {}" "set b \<inter> set e = {}" "set a \<inter> set e = {}"
    using assms(1,3,5,7,9) by fastforce+
  moreover have "set a \<inter> set b = {}" "set a \<inter> set c = {}" "set b \<inter> set c = {}"
    using assms(1,3,5) by fastforce+
  moreover have "set a \<inter> set d = {}" "set b \<inter> set d = {}" "set c \<inter> set d = {}"
    using assms(1,3,5,7) by fastforce+
  ultimately show ?thesis using assms(2,4,6,8,10) by (simp add: Int_Un_distrib)
qed

lemma closure_openers_inj:
  assumes o: "openers_ok ls sc" and ko: "orders_ok ko sc"
  shows "distinct (map fst (all_closures ko ts ls sc))"
proof -
  have keys: "distinct (ko_tool_calls ko)" "set (ko_tool_calls ko) = dom (sc_tool_calls sc)"
    "distinct (ko_asks ko)" "set (ko_asks ko) = dom (sc_asks sc)"
    "distinct (ko_dispatch ko)" "set (ko_dispatch ko) = dom (sc_dispatch sc)"
    "distinct (ko_turns ko)" "set (ko_turns ko) = dom (sc_turns sc)"
    using ko by (auto simp: orders_ok_def key_order_def)
  let ?ty = "\<lambda>i. ln_type (ls ! i)"
  let ?A = "map (\<lambda>k. the (sc_tool_calls sc k)) (ko_tool_calls ko)"
  let ?B = "map (\<lambda>k. the (sc_asks sc k)) (ko_asks ko)"
  let ?C = "map (\<lambda>k. the (sc_dispatch sc k)) (ko_dispatch ko)"
  let ?D = "concat (map (\<lambda>k. map fst (turn_closures ts k (the (sc_turns sc k)))) (ko_turns ko))"
  let ?E = "map fst (end_closures ts ls sc)"
  have A: "\<forall>i\<in>set ?A. i < length ls \<and> ?ty i = TypeToolCall" "distinct ?A"
  proof -
    have op: "opens ls TypeToolCall ln_tool_call k (the (sc_tool_calls sc k))" if k: "k \<in> set (ko_tool_calls ko)" for k
    proof -
      obtain i where "sc_tool_calls sc k = Some i" using keys k by auto
      then show ?thesis using o by (simp add: openers_ok_def)
    qed
    show "\<forall>i\<in>set ?A. i < length ls \<and> ?ty i = TypeToolCall" "distinct ?A"
      by (rule keyed_openers(2)[OF _ op], rule keys, assumption)
        (rule keyed_openers(1)[OF _ op], rule keys, assumption)
  qed
  have B: "\<forall>i\<in>set ?B. i < length ls \<and> ?ty i = TypeAskSuspended" "distinct ?B"
  proof -
    have op: "opens ls TypeAskSuspended ln_tool_call k (the (sc_asks sc k))" if k: "k \<in> set (ko_asks ko)" for k
    proof -
      obtain i where "sc_asks sc k = Some i" using keys k by auto
      then show ?thesis using o by (simp add: openers_ok_def)
    qed
    show "\<forall>i\<in>set ?B. i < length ls \<and> ?ty i = TypeAskSuspended" "distinct ?B"
      by (rule keyed_openers(2)[OF _ op], rule keys, assumption)
        (rule keyed_openers(1)[OF _ op], rule keys, assumption)
  qed
  have C: "\<forall>i\<in>set ?C. i < length ls \<and> ?ty i = TypeSubagentDispatch" "distinct ?C"
  proof -
    have op: "opens ls TypeSubagentDispatch ln_subagent_turn k (the (sc_dispatch sc k))" if k: "k \<in> set (ko_dispatch ko)" for k
    proof -
      obtain i where "sc_dispatch sc k = Some i" using keys k by auto
      then show ?thesis using o by (simp add: openers_ok_def)
    qed
    show "\<forall>i\<in>set ?C. i < length ls \<and> ?ty i = TypeSubagentDispatch" "distinct ?C"
      by (rule keyed_openers(2)[OF _ op], rule keys, assumption)
        (rule keyed_openers(1)[OF _ op], rule keys, assumption)
  qed
  have top: "k \<in> set (ko_turns ko) \<Longrightarrow> i \<in> set (map fst (turn_closures ts k (the (sc_turns sc k)))) \<Longrightarrow>
      i < length ls \<and> (?ty i = TypeUserMessage \<or> ?ty i = TypeAgentMessageChunk) \<and> ln_turn (ls ! i) = k"
    for k i
  proof -
    assume k: "k \<in> set (ko_turns ko)" and i: "i \<in> set (map fst (turn_closures ts k (the (sc_turns sc k))))"
    obtain st where st: "sc_turns sc k = Some st" using k keys by auto
    from i have "(rt_has_user st \<and> i = rt_user_opener st) \<or> (rt_has_chunk st \<and> i = rt_chunk_opener st)"
      by (auto simp: turn_closures_def st split: if_splits)
    then show ?thesis using openers_turnD(2,3)[OF o st] unfolding opens_def by blast
  qed
  have D: "\<forall>i\<in>set ?D. i < length ls \<and> (?ty i = TypeUserMessage \<or> ?ty i = TypeAgentMessageChunk)"
    using top by auto
  have D': "distinct ?D"
  proof (rule distinct_concat_map)
    show "distinct (ko_turns ko)" by (rule keys)
    fix k assume k: "k \<in> set (ko_turns ko)"
    then obtain st where st: "sc_turns sc k = Some st" using keys by auto
    have "rt_has_user st \<Longrightarrow> rt_has_chunk st \<Longrightarrow> rt_user_opener st \<noteq> rt_chunk_opener st"
    proof
      assume h: "rt_has_user st" "rt_has_chunk st" "rt_user_opener st = rt_chunk_opener st"
      have "ln_type (ls ! rt_user_opener st) = TypeUserMessage"
        using openers_turnD(2)[OF o st h(1)] by (simp only: opens_def)
      moreover have "ln_type (ls ! rt_chunk_opener st) = TypeAgentMessageChunk"
        using openers_turnD(3)[OF o st h(2)] by (simp only: opens_def)
      ultimately show False using h(3) by simp
    qed
    then show "distinct (map fst (turn_closures ts k (the (sc_turns sc k))))"
      using st
      by (cases "rt_has_user st"; cases "rt_has_chunk st"; cases "rt_terminal st";
          cases "rt_has_assistant st"; simp add: turn_closures_def)
  next
    fix k k' assume "k \<in> set (ko_turns ko)" "k' \<in> set (ko_turns ko)" "k \<noteq> k'"
    then show "set (map fst (turn_closures ts k (the (sc_turns sc k)))) \<inter>
        set (map fst (turn_closures ts k' (the (sc_turns sc k')))) = {}"
      using top by blast
  qed
  have E: "\<forall>i\<in>set ?E. i = length ls" "distinct ?E" by (auto simp: end_closures_def)
  have m: "map fst (all_closures ko ts ls sc) = ?A @ ?B @ ?C @ ?D @ ?E"
    by (simp add: all_closures_def comp_def tool_call_closure_def ask_closure_def dispatch_closure_def
        map_concat)
  show ?thesis
    unfolding m by (rule distinct_classes[OF A B C D D' E])
qed

lemma mset_map_order:
  "key_order m ks \<Longrightarrow> key_order m ks' \<Longrightarrow> mset ks = mset ks'"
  unfolding key_order_def using set_eq_iff_mset_eq_distinct[of ks ks'] by simp

lemma mset_all_closures:
  assumes "orders_ok ko sc" "orders_ok ko' sc"
  shows "mset (all_closures ko ts ls sc) = mset (all_closures ko' ts ls sc)"
proof -
  have m: "mset (ko_tool_calls ko) = mset (ko_tool_calls ko')" "mset (ko_asks ko) = mset (ko_asks ko')"
    "mset (ko_dispatch ko) = mset (ko_dispatch ko')" "mset (ko_turns ko) = mset (ko_turns ko')"
  proof -
    show "mset (ko_tool_calls ko) = mset (ko_tool_calls ko')"
      by (rule mset_map_order[of "sc_tool_calls sc"]) (use assms in \<open>simp_all add: orders_ok_def\<close>)
    show "mset (ko_asks ko) = mset (ko_asks ko')"
      by (rule mset_map_order[of "sc_asks sc"]) (use assms in \<open>simp_all add: orders_ok_def\<close>)
    show "mset (ko_dispatch ko) = mset (ko_dispatch ko')"
      by (rule mset_map_order[of "sc_dispatch sc"]) (use assms in \<open>simp_all add: orders_ok_def\<close>)
    show "mset (ko_turns ko) = mset (ko_turns ko')"
      by (rule mset_map_order[of "sc_turns sc"]) (use assms in \<open>simp_all add: orders_ok_def\<close>)
  qed
  have c: "mset (concat (map f xs)) = mset (concat (map f ys))"
    if "mset xs = mset ys" for f :: "string \<Rightarrow> closure list" and xs ys
  proof -
    have "mset (concat (map f zs)) = sum_mset (image_mset (\<lambda>k. mset (f k)) (mset zs))" for zs
      by (induction zs) simp_all
    then show ?thesis by (simp only: that)
  qed
  show ?thesis
    unfolding all_closures_def by (simp only: mset_append mset_map m(1-3) c[OF m(4)])
qed

lemma closures_order:
  assumes "openers_ok ls sc" "orders_ok ko sc" "orders_ok ko' sc"
  shows "closures ko ts ls sc = closures ko' ts ls sc"
proof -
  let ?a = "all_closures ko ts ls sc" let ?b = "all_closures ko' ts ls sc"
  have "inj_on fst (set ?a)"
    using closure_openers_inj[OF assms(1,2)] by (simp add: distinct_map)
  then have "sort_key fst ?a = sort_key fst ?b"
    using mset_all_closures[OF assms(2,3)]
    by (intro sort_key_inj_key_eq) simp_all
  then show ?thesis by (simp add: closures_def)
qed

section \<open>A second pass finds nothing\<close>

text \<open>
  \<open>settles sc sc'\<close>: \<open>sc'\<close> has no more open than \<open>sc\<close>. That is what closing lines do
  to the state of the pass.
\<close>

definition turn_settled :: "reconcile_turn option \<Rightarrow> reconcile_turn \<Rightarrow> bool" where
  "turn_settled old st' =
     (case old of
        None \<Rightarrow> \<not> rt_has_user st' \<and> \<not> rt_has_chunk st'
      | Some st \<Rightarrow> (rt_has_user st' \<longrightarrow> rt_has_user st) \<and> (rt_has_chunk st' \<longrightarrow> rt_has_chunk st) \<and>
          (rt_terminal st \<longrightarrow> rt_terminal st') \<and> (rt_has_assistant st \<longrightarrow> rt_has_assistant st'))"

definition settles :: "reconcile_scan \<Rightarrow> reconcile_scan \<Rightarrow> bool" where
  "settles sc sc' =
     (sc_tool_calls sc' \<subseteq>\<^sub>m sc_tool_calls sc \<and> sc_asks sc' \<subseteq>\<^sub>m sc_asks sc \<and>
      sc_dispatch sc' \<subseteq>\<^sub>m sc_dispatch sc \<and> (sc_ended sc \<longrightarrow> sc_ended sc') \<and>
      sc_seed sc' = sc_seed sc \<and> dom (sc_turns sc) \<subseteq> dom (sc_turns sc') \<and>
      (\<forall>k st'. sc_turns sc' k = Some st' \<longrightarrow> turn_settled (sc_turns sc k) st'))"

lemma turn_settled_trans:
  "turn_settled old st \<Longrightarrow> turn_settled (Some st) st' \<Longrightarrow> turn_settled old st'"
  unfolding turn_settled_def by (cases old) auto

lemma turn_settled_refl: "turn_settled (Some st) st"
  by (simp add: turn_settled_def)

lemma settles_refl: "settles sc sc"
  unfolding settles_def by (auto simp: turn_settled_refl)

lemma settles_trans:
  assumes a: "settles x y" and b: "settles y z"
  shows "settles x z"
proof -
  have "turn_settled (sc_turns x k) st'" if z: "sc_turns z k = Some st'" for k st'
  proof (cases "sc_turns y k")
    case None
    then have "sc_turns x k = None" using a unfolding settles_def by blast
    moreover have "turn_settled None st'" using b z None unfolding settles_def by metis
    ultimately show ?thesis by simp
  next
    case (Some sy)
    then have "turn_settled (sc_turns x k) sy" "turn_settled (Some sy) st'"
      using a b z unfolding settles_def by metis+
    then show ?thesis by (rule turn_settled_trans)
  qed
  moreover have "sc_tool_calls z \<subseteq>\<^sub>m sc_tool_calls x" "sc_asks z \<subseteq>\<^sub>m sc_asks x"
    "sc_dispatch z \<subseteq>\<^sub>m sc_dispatch x"
    using a b map_le_trans unfolding settles_def by blast+
  ultimately show ?thesis
    using a b unfolding settles_def by simp blast
qed

lemma settles_turn_of: "settles sc (turn_of turn sc)"
  unfolding settles_def turn_of_def
  by (auto simp: turn_settled_refl turn_settled_def new_turn_def split: option.splits if_splits)

lemma settles_upd_turn:
  assumes "turn \<noteq> [] \<Longrightarrow> sc_turns sc turn \<noteq> None"
    and "\<And>st. turn_settled (Some st) (f st)"
  shows "settles sc (upd_turn turn f sc)"
  using assms unfolding settles_def upd_turn_def
  by (auto simp: turn_settled_refl split: if_splits)

definition closing_type :: "string \<Rightarrow> bool" where
  "closing_type ty = (ty \<in> {TypeToolResult, TypeSubagentResult, TypeCanceled, TypeAssistantMessage, TypeSessionEnd})"

lemma settles_route:
  assumes "closing_type (ln_type l)" "ln_turn l \<noteq> [] \<Longrightarrow> sc_turns sc (ln_turn l) \<noteq> None"
  shows "settles sc (route_line i l sc)"
proof -
  have t: "turn_settled (Some st) (set_terminal st)" for st
    by (simp add: turn_settled_def set_terminal_def)
  have tt: "ln_type l = TypeAssistantMessage \<Longrightarrow> turn_settled (Some st) (track_turn l i st)" for st
    by (simp add: turn_settled_def track_turn_def)
  have e: "settles sc (sc\<lparr>sc_ended := True\<rparr>)"
    "settles sc (sc\<lparr>sc_dispatch := (sc_dispatch sc)(k := None)\<rparr>)"
    "settles sc (sc\<lparr>sc_tool_calls := (sc_tool_calls sc)(k := None), sc_asks := (sc_asks sc)(k := None)\<rparr>)" for k
    by (auto simp: settles_def turn_settled_refl map_le_def)
  from assms(1) consider "ln_type l = TypeToolResult" | "ln_type l = TypeSubagentResult"
    | "ln_type l = TypeCanceled" | "ln_type l = TypeAssistantMessage" | "ln_type l = TypeSessionEnd"
    by (auto simp: closing_type_def)
  then show ?thesis
  proof cases
    case 1
    then show ?thesis using e(3) by (simp add: route_line_def track_pair_def)
  next
    case 2
    have "settles (sc\<lparr>sc_dispatch := (sc_dispatch sc)(ln_subagent_turn l := None)\<rparr>)
        (upd_turn (ln_turn l) set_terminal (sc\<lparr>sc_dispatch := (sc_dispatch sc)(ln_subagent_turn l := None)\<rparr>))"
      using assms(2) t by (intro settles_upd_turn) simp_all
    with 2 show ?thesis using settles_trans[OF e(2)] by (simp add: route_line_def track_pair_def)
  next
    case 3
    then show ?thesis using settles_upd_turn[OF assms(2) t] by (simp add: route_line_def)
  next
    case 4
    then show ?thesis using settles_upd_turn[OF assms(2) tt] by (simp add: route_line_def)
  next
    case 5
    have "settles (sc\<lparr>sc_ended := True\<rparr>) (upd_turn (ln_turn l) set_terminal (sc\<lparr>sc_ended := True\<rparr>))"
      using assms(2) t by (intro settles_upd_turn) simp_all
    with 5 show ?thesis using settles_trans[OF e(1)] by (simp add: route_line_def)
  qed
qed

lemma settles_scan_line:
  assumes "closing_type (ln_type l)"
  shows "settles sc (scan_line i l sc)"
proof -
  have "note_plan l sc = sc" using assms by (auto simp: note_plan_def closing_type_def)
  moreover have "settles (turn_of (ln_turn l) sc) (route_line i l (turn_of (ln_turn l) sc))"
    using assms turn_of_known by (intro settles_route) fastforce+
  ultimately show ?thesis
    unfolding scan_line_def using settles_trans[OF settles_turn_of] by simp
qed

lemma settles_scan_from:
  "list_all (\<lambda>l. closing_type (ln_type l)) ls \<Longrightarrow> settles sc (scan_from i ls sc)"
proof (induction ls arbitrary: i sc)
  case (Cons l ls)
  then have "settles sc (scan_line i l sc)" by (simp add: settles_scan_line)
  moreover have "settles (scan_line i l sc) (scan_from (Suc i) ls (scan_line i l sc))"
    using Cons by simp
  ultimately show ?case by (simp add: settles_trans)
qed (simp add: settles_refl)

lemma settles_effect:
  assumes "list_all (\<lambda>l. closing_type (ln_type l)) cs" "l \<in> set cs"
    and "\<And>i sc. Q (scan_line i l sc)" and "\<And>sc sc'. Q sc \<Longrightarrow> settles sc sc' \<Longrightarrow> Q sc'"
  shows "Q (scan_from i cs sc)"
  using assms(1,2)
proof (induction cs arbitrary: i sc)
  case (Cons c cs)
  show ?case
  proof (cases "l \<in> set cs")
    case True
    with Cons show ?thesis by simp
  next
    case False
    with Cons.prems have "c = l" by simp
    then have "Q (scan_line i c sc)" using assms(3) by simp
    moreover have "settles (scan_line i c sc) (scan_from (Suc i) cs (scan_line i c sc))"
      using Cons.prems(1) by (intro settles_scan_from) simp
    ultimately show ?thesis using assms(4) by simp
  qed
qed simp

lemma effect_tool_result:
  assumes "list_all (\<lambda>l. closing_type (ln_type l)) cs" "l \<in> set cs" "ln_type l = TypeToolResult"
  shows "sc_tool_calls (scan_from i cs sc) (ln_tool_call l) = None \<and>
         sc_asks (scan_from i cs sc) (ln_tool_call l) = None"
proof (rule settles_effect[OF assms(1,2)])
  fix i sc
  show "sc_tool_calls (scan_line i l sc) (ln_tool_call l) = None \<and> sc_asks (scan_line i l sc) (ln_tool_call l) = None"
    using assms(3) by (simp add: scan_line_def route_line_def track_pair_def)
next
  fix sc sc' assume "sc_tool_calls sc (ln_tool_call l) = None \<and> sc_asks sc (ln_tool_call l) = None" "settles sc sc'"
  then show "sc_tool_calls sc' (ln_tool_call l) = None \<and> sc_asks sc' (ln_tool_call l) = None"
    unfolding settles_def map_le_def dom_def by (metis (mono_tags, lifting) mem_Collect_eq)
qed

lemma effect_subagent_result:
  assumes "list_all (\<lambda>l. closing_type (ln_type l)) cs" "l \<in> set cs" "ln_type l = TypeSubagentResult"
  shows "sc_dispatch (scan_from i cs sc) (ln_subagent_turn l) = None"
proof (rule settles_effect[OF assms(1,2)])
  fix i sc show "sc_dispatch (scan_line i l sc) (ln_subagent_turn l) = None"
    using assms(3) by (simp add: scan_line_def route_line_def track_pair_def upd_turn_def)
next
  fix sc sc' assume "sc_dispatch sc (ln_subagent_turn l) = None" "settles sc sc'"
  then show "sc_dispatch sc' (ln_subagent_turn l) = None"
    unfolding settles_def map_le_def dom_def by (metis (mono_tags, lifting) mem_Collect_eq)
qed

lemma effect_terminal:
  assumes "list_all (\<lambda>l. closing_type (ln_type l)) cs" "l \<in> set cs"
    and "ln_type l = TypeCanceled \<or> ln_type l = TypeAssistantMessage" "ln_turn l \<noteq> []"
  shows "\<exists>st. sc_turns (scan_from i cs sc) (ln_turn l) = Some st \<and> rt_terminal st"
proof (rule settles_effect[OF assms(1,2)])
  fix i sc show "\<exists>st. sc_turns (scan_line i l sc) (ln_turn l) = Some st \<and> rt_terminal st"
    using assms(3,4) by (auto simp: scan_line_def route_line_def upd_turn_def track_turn_def set_terminal_def)
next
  fix sc sc' assume a: "\<exists>st. sc_turns sc (ln_turn l) = Some st \<and> rt_terminal st" "settles sc sc'"
  then obtain st where st: "sc_turns sc (ln_turn l) = Some st" "rt_terminal st" by blast
  then have "ln_turn l \<in> dom (sc_turns sc')" using a(2) unfolding settles_def by blast
  then obtain st' where st': "sc_turns sc' (ln_turn l) = Some st'" by blast
  then have "turn_settled (sc_turns sc (ln_turn l)) st'" using a(2) unfolding settles_def by blast
  with st st' show "\<exists>st. sc_turns sc' (ln_turn l) = Some st \<and> rt_terminal st"
    by (simp add: turn_settled_def)
qed

lemma effect_end:
  assumes "list_all (\<lambda>l. closing_type (ln_type l)) cs" "l \<in> set cs" "ln_type l = TypeSessionEnd"
  shows "sc_ended (scan_from i cs sc)"
proof (rule settles_effect[OF assms(1,2)])
  fix i sc show "sc_ended (scan_line i l sc)"
    using assms(3) by (simp add: scan_line_def route_line_def upd_turn_def)
qed (simp add: settles_def)

text \<open>
  \<open>covers sc cs\<close>: each open expectation of \<open>sc\<close> is answered by a line of \<open>cs\<close>.
\<close>

definition covers :: "reconcile_scan \<Rightarrow> line list \<Rightarrow> bool" where
  "covers sc cs =
     ((\<forall>k. sc_tool_calls sc k \<noteq> None \<or> sc_asks sc k \<noteq> None \<longrightarrow>
        (\<exists>l\<in>set cs. ln_type l = TypeToolResult \<and> ln_tool_call l = k)) \<and>
      (\<forall>k. sc_dispatch sc k \<noteq> None \<longrightarrow>
        (\<exists>l\<in>set cs. ln_type l = TypeSubagentResult \<and> ln_subagent_turn l = k)) \<and>
      (\<forall>k st. sc_turns sc k = Some st \<and> rt_has_user st \<and> \<not> rt_terminal st \<longrightarrow>
        (\<exists>l\<in>set cs. ln_type l = TypeCanceled \<and> ln_turn l = k)) \<and>
      (\<forall>k st. sc_turns sc k = Some st \<and> rt_has_chunk st \<and> \<not> rt_has_assistant st \<and> \<not> rt_terminal st \<longrightarrow>
        (\<exists>l\<in>set cs. ln_type l = TypeAssistantMessage \<and> ln_turn l = k)) \<and>
      (sc_ended sc \<or> (\<exists>l\<in>set cs. ln_type l = TypeSessionEnd)))"

lemma coversD:
  assumes "covers sc cs"
  shows "sc_tool_calls sc k \<noteq> None \<Longrightarrow> \<exists>l\<in>set cs. ln_type l = TypeToolResult \<and> ln_tool_call l = k"
    and "sc_asks sc k \<noteq> None \<Longrightarrow> \<exists>l\<in>set cs. ln_type l = TypeToolResult \<and> ln_tool_call l = k"
    and "sc_dispatch sc k \<noteq> None \<Longrightarrow> \<exists>l\<in>set cs. ln_type l = TypeSubagentResult \<and> ln_subagent_turn l = k"
    and "sc_turns sc k = Some st \<Longrightarrow> rt_has_user st \<and> \<not> rt_terminal st \<Longrightarrow>
      \<exists>l\<in>set cs. ln_type l = TypeCanceled \<and> ln_turn l = k"
    and "sc_turns sc k = Some st \<Longrightarrow> rt_has_chunk st \<and> \<not> rt_has_assistant st \<and> \<not> rt_terminal st \<Longrightarrow>
      \<exists>l\<in>set cs. ln_type l = TypeAssistantMessage \<and> ln_turn l = k"
    and "\<not> sc_ended sc \<Longrightarrow> \<exists>l\<in>set cs. ln_type l = TypeSessionEnd"
  using assms unfolding covers_def by blast+

definition nothing_open :: "reconcile_scan \<Rightarrow> bool" where
  "nothing_open sc =
     (sc_tool_calls sc = Map.empty \<and> sc_asks sc = Map.empty \<and> sc_dispatch sc = Map.empty \<and>
      (\<forall>k st. sc_turns sc k = Some st \<longrightarrow> (rt_has_user st \<longrightarrow> rt_terminal st) \<and>
         (rt_has_chunk st \<longrightarrow> rt_has_assistant st \<or> rt_terminal st)) \<and>
      sc_ended sc)"

lemma covers_closed:
  assumes cl: "list_all (\<lambda>l. closing_type (ln_type l)) cs" and cov: "covers sc cs"
    and ne: "\<And>k st. sc_turns sc k = Some st \<Longrightarrow> k \<noteq> []"
  shows "nothing_open (scan_from i cs sc)"
proof -
  let ?f = "scan_from i cs sc"
  have s: "settles sc ?f" using cl by (rule settles_scan_from)
  have le: "sc_tool_calls ?f \<subseteq>\<^sub>m sc_tool_calls sc" "sc_asks ?f \<subseteq>\<^sub>m sc_asks sc" "sc_dispatch ?f \<subseteq>\<^sub>m sc_dispatch sc"
    using s unfolding settles_def by blast+
  have mle: "m' k = Some x \<Longrightarrow> m' \<subseteq>\<^sub>m m \<Longrightarrow> m k \<noteq> None" for m m' :: "string \<rightharpoonup> nat" and k x
    by (drule map_le_implies_dom_le) auto
  have "sc_tool_calls ?f k = None" for k
  proof (rule ccontr)
    assume h: "sc_tool_calls ?f k \<noteq> None"
    then have "sc_tool_calls sc k \<noteq> None" using mle le(1) by blast
    then obtain l where l: "l \<in> set cs" "ln_type l = TypeToolResult" "ln_tool_call l = k"
      using coversD(1)[OF cov] by blast
    with effect_tool_result[OF cl l(1,2), of i sc] h show False by simp
  qed
  moreover have "sc_asks ?f k = None" for k
  proof (rule ccontr)
    assume h: "sc_asks ?f k \<noteq> None"
    then have "sc_asks sc k \<noteq> None" using mle le(2) by blast
    then obtain l where l: "l \<in> set cs" "ln_type l = TypeToolResult" "ln_tool_call l = k"
      using coversD(2)[OF cov] by blast
    with effect_tool_result[OF cl l(1,2), of i sc] h show False by simp
  qed
  moreover have "sc_dispatch ?f k = None" for k
  proof (rule ccontr)
    assume h: "sc_dispatch ?f k \<noteq> None"
    then have "sc_dispatch sc k \<noteq> None" using mle le(3) by blast
    then obtain l where l: "l \<in> set cs" "ln_type l = TypeSubagentResult" "ln_subagent_turn l = k"
      using coversD(3)[OF cov] by blast
    with effect_subagent_result[OF cl l(1,2), of i sc] h show False by simp
  qed
  moreover have "(rt_has_user st' \<longrightarrow> rt_terminal st') \<and> (rt_has_chunk st' \<longrightarrow> rt_has_assistant st' \<or> rt_terminal st')"
    if st': "sc_turns ?f k = Some st'" for k st'
  proof -
    have ts: "turn_settled (sc_turns sc k) st'" using s st' unfolding settles_def by blast
    show ?thesis
    proof (cases "sc_turns sc k")
      case None
      then show ?thesis using ts by (simp add: turn_settled_def)
    next
      case (Some st)
      have fin: "rt_terminal st'" if "l \<in> set cs" "ln_turn l = k"
        "ln_type l = TypeCanceled \<or> ln_type l = TypeAssistantMessage" for l
        using effect_terminal[OF cl that(1,3), of i sc] ne[OF Some] that(2) st' by auto
      have "rt_has_user st' \<Longrightarrow> rt_terminal st'"
      proof (rule ccontr)
        assume "rt_has_user st'" "\<not> rt_terminal st'"
        then have "rt_has_user st \<and> \<not> rt_terminal st" using ts Some by (auto simp: turn_settled_def)
        then obtain l where l: "l \<in> set cs" "ln_type l = TypeCanceled" "ln_turn l = k"
          using coversD(4)[OF cov Some] by blast
        with fin[OF l(1,3)] l(2) \<open>\<not> rt_terminal st'\<close> show False by simp
      qed
      moreover have "rt_has_chunk st' \<Longrightarrow> rt_has_assistant st' \<or> rt_terminal st'"
      proof (rule ccontr)
        assume "rt_has_chunk st'" "\<not> (rt_has_assistant st' \<or> rt_terminal st')"
        then have "rt_has_chunk st \<and> \<not> rt_has_assistant st \<and> \<not> rt_terminal st"
          using ts Some by (auto simp: turn_settled_def)
        then obtain l where l: "l \<in> set cs" "ln_type l = TypeAssistantMessage" "ln_turn l = k"
          using coversD(5)[OF cov Some] by blast
        with fin[OF l(1,3)] l(2) \<open>\<not> (rt_has_assistant st' \<or> rt_terminal st')\<close> show False by simp
      qed
      ultimately show ?thesis by blast
    qed
  qed
  moreover have "sc_ended ?f"
  proof (cases "sc_ended sc")
    case True
    then show ?thesis using s unfolding settles_def by blast
  next
    case False
    then obtain l where l: "l \<in> set cs" "ln_type l = TypeSessionEnd"
      using coversD(6)[OF cov] by blast
    then show ?thesis using effect_end[OF cl l] by blast
  qed
  ultimately show ?thesis unfolding nothing_open_def by (simp add: fun_eq_iff)
qed

lemma nothing_open_closures:
  assumes "nothing_open sc" "orders_ok ko sc"
  shows "closures ko ts ls sc = []"
proof -
  have "ko_tool_calls ko = []" "ko_asks ko = []" "ko_dispatch ko = []"
    using assms unfolding nothing_open_def orders_ok_def key_order_def by simp_all
  moreover have "turn_closures ts k (the (sc_turns sc k)) = []" if "k \<in> set (ko_turns ko)" for k
  proof -
    have "k \<in> dom (sc_turns sc)"
      using that assms(2) by (simp add: orders_ok_def key_order_def)
    then obtain st where "sc_turns sc k = Some st" by blast
    then show ?thesis using assms(1) unfolding nothing_open_def turn_closures_def by auto
  qed
  moreover have "end_closures ts ls sc = []"
    using assms(1) by (simp add: nothing_open_def end_closures_def)
  ultimately have "all_closures ko ts ls sc = []"
    by (simp add: all_closures_def)
  then show ?thesis by (simp add: closures_def)
qed

section \<open>The closures answer everything\<close>

lemma set_closures: "set (closures ko ts ls sc) = snd ` set (all_closures ko ts ls sc)"
  by (simp add: closures_def)

lemmas closure_defs = tool_call_closure_def ask_closure_def dispatch_closure_def turn_closures_def
  end_closures_def

lemma closures_closing: "list_all (\<lambda>l. closing_type (ln_type l)) (closures ko ts ls sc)"
  unfolding list_all_iff set_closures all_closures_def
  by (auto simp: closure_defs closing_type_def split: if_splits)

lemma all_closuresI:
  assumes ko: "orders_ok ko sc"
  shows "sc_tool_calls sc k = Some i \<Longrightarrow> tool_call_closure ts ls k i \<in> set (all_closures ko ts ls sc)"
    and "sc_asks sc k = Some i \<Longrightarrow> ask_closure ts ls k i \<in> set (all_closures ko ts ls sc)"
    and "sc_dispatch sc k = Some i \<Longrightarrow> dispatch_closure ts ls k i \<in> set (all_closures ko ts ls sc)"
    and "sc_turns sc k = Some st \<Longrightarrow> set (turn_closures ts k st) \<subseteq> set (all_closures ko ts ls sc)"
    and "set (end_closures ts ls sc) \<subseteq> set (all_closures ko ts ls sc)"
proof -
  have keys: "set (ko_tool_calls ko) = dom (sc_tool_calls sc)" "set (ko_asks ko) = dom (sc_asks sc)"
    "set (ko_dispatch ko) = dom (sc_dispatch sc)" "set (ko_turns ko) = dom (sc_turns sc)"
    using ko by (simp_all add: orders_ok_def key_order_def)
  show "sc_tool_calls sc k = Some i \<Longrightarrow> tool_call_closure ts ls k i \<in> set (all_closures ko ts ls sc)"
    unfolding all_closures_def using keys(1) by (force simp: image_iff)
  show "sc_asks sc k = Some i \<Longrightarrow> ask_closure ts ls k i \<in> set (all_closures ko ts ls sc)"
    unfolding all_closures_def using keys(2) by (force simp: image_iff)
  show "sc_dispatch sc k = Some i \<Longrightarrow> dispatch_closure ts ls k i \<in> set (all_closures ko ts ls sc)"
    unfolding all_closures_def using keys(3) by (force simp: image_iff)
  show "sc_turns sc k = Some st \<Longrightarrow> set (turn_closures ts k st) \<subseteq> set (all_closures ko ts ls sc)"
  proof -
    assume st: "sc_turns sc k = Some st"
    then have "k \<in> set (ko_turns ko)" using keys(4) by auto
    then have "set (turn_closures ts k (the (sc_turns sc k))) \<subseteq>
        set (concat (map (\<lambda>k. turn_closures ts k (the (sc_turns sc k))) (ko_turns ko)))"
      by auto
    then show ?thesis using st by (simp add: all_closures_def) blast
  qed
  show "set (end_closures ts ls sc) \<subseteq> set (all_closures ko ts ls sc)"
    by (auto simp: all_closures_def)
qed

lemma closures_cover:
  assumes "orders_ok ko sc"
  shows "covers sc (closures ko ts ls sc)"
  unfolding covers_def set_closures
proof (intro conjI allI impI)
  fix k assume "sc_tool_calls sc k \<noteq> None \<or> sc_asks sc k \<noteq> None"
  then show "\<exists>l\<in>snd ` set (all_closures ko ts ls sc). ln_type l = TypeToolResult \<and> ln_tool_call l = k"
  proof
    assume "sc_tool_calls sc k \<noteq> None"
    then obtain i where "sc_tool_calls sc k = Some i" by blast
    from all_closuresI(1)[OF assms this] show ?thesis
      by (rule bexI[rotated, OF imageI]) (simp add: tool_call_closure_def)
  next
    assume "sc_asks sc k \<noteq> None"
    then obtain i where "sc_asks sc k = Some i" by blast
    from all_closuresI(2)[OF assms this] show ?thesis
      by (rule bexI[rotated, OF imageI]) (simp add: ask_closure_def)
  qed
next
  fix k assume "sc_dispatch sc k \<noteq> None"
  then obtain i where "sc_dispatch sc k = Some i" by blast
  from all_closuresI(3)[OF assms this]
  show "\<exists>l\<in>snd ` set (all_closures ko ts ls sc). ln_type l = TypeSubagentResult \<and> ln_subagent_turn l = k"
    by (rule bexI[rotated, OF imageI]) (simp add: dispatch_closure_def)
next
  fix k st assume "sc_turns sc k = Some st \<and> rt_has_user st \<and> \<not> rt_terminal st"
  then have "set (turn_closures ts k st) \<subseteq> set (all_closures ko ts ls sc)"
    "(rt_user_opener st, zero_line\<lparr>ln_type := TypeCanceled, ln_turn := k, ln_ts := ts,
       ln_text := interrupted_text, ln_cause := interrupted_cause\<rparr>) \<in> set (turn_closures ts k st)"
    using all_closuresI(4)[OF assms] by (blast, simp add: turn_closures_def)
  then show "\<exists>l\<in>snd ` set (all_closures ko ts ls sc). ln_type l = TypeCanceled \<and> ln_turn l = k"
    by (intro bexI[rotated, OF imageI]) (erule subsetD, assumption, simp)
next
  fix k st assume "sc_turns sc k = Some st \<and> rt_has_chunk st \<and> \<not> rt_has_assistant st \<and> \<not> rt_terminal st"
  then have "set (turn_closures ts k st) \<subseteq> set (all_closures ko ts ls sc)"
    "(rt_chunk_opener st, zero_line\<lparr>ln_type := TypeAssistantMessage, ln_turn := k, ln_ts := ts,
       ln_text := interrupted_text, ln_cause := interrupted_cause\<rparr>) \<in> set (turn_closures ts k st)"
    using all_closuresI(4)[OF assms] by (blast, simp add: turn_closures_def)
  then show "\<exists>l\<in>snd ` set (all_closures ko ts ls sc). ln_type l = TypeAssistantMessage \<and> ln_turn l = k"
    by (intro bexI[rotated, OF imageI]) (erule subsetD, assumption, simp)
next
  show "sc_ended sc \<or> (\<exists>l\<in>snd ` set (all_closures ko ts ls sc). ln_type l = TypeSessionEnd)"
  proof (cases "sc_ended sc")
    case False
    then have "(length ls, zero_line\<lparr>ln_type := TypeSessionEnd, ln_ts := ts, ln_cause := interrupted_cause\<rparr>)
        \<in> set (all_closures ko ts ls sc)"
      using all_closuresI(5)[OF assms, of ts ls] by (simp add: end_closures_def)
    then have "\<exists>l\<in>snd ` set (all_closures ko ts ls sc). ln_type l = TypeSessionEnd"
      by (rule bexI[rotated, OF imageI]) simp
    then show ?thesis ..
  qed simp
qed

lemma closure_turns:
  assumes "openers_ok ls sc" "orders_ok ko sc" "c \<in> set (closures ko ts ls sc)"
  shows "ln_turn c = [] \<or> ln_turn c \<in> ln_turn ` set ls \<or>
    (\<exists>l\<in>set ls. ln_type l = TypeSubagentDispatch \<and> ln_subagent_turn l = ln_turn c)"
proof -
  have keys: "set (ko_tool_calls ko) = dom (sc_tool_calls sc)" "set (ko_asks ko) = dom (sc_asks sc)"
    "set (ko_dispatch ko) = dom (sc_dispatch sc)" "set (ko_turns ko) = dom (sc_turns sc)"
    using assms(2) by (simp_all add: orders_ok_def key_order_def)
  from assms(3) consider
      (call) k where "k \<in> dom (sc_tool_calls sc)" "c = snd (tool_call_closure ts ls k (the (sc_tool_calls sc k)))"
    | (ask) k where "k \<in> dom (sc_asks sc)" "c = snd (ask_closure ts ls k (the (sc_asks sc k)))"
    | (sub) k where "k \<in> dom (sc_dispatch sc)" "c = snd (dispatch_closure ts ls k (the (sc_dispatch sc k)))"
    | (turn) k a where "k \<in> dom (sc_turns sc)" "(a, c) \<in> set (turn_closures ts k (the (sc_turns sc k)))"
    | (fin) "c \<in> snd ` set (end_closures ts ls sc)"
    unfolding set_closures all_closures_def keys[symmetric] by auto
  then show ?thesis
  proof cases
    case call
    then obtain i where "sc_tool_calls sc k = Some i" by blast
    then have "opens ls TypeToolCall ln_tool_call k i" using assms(1) unfolding openers_ok_def by metis
    then show ?thesis using call \<open>sc_tool_calls sc k = Some i\<close>
      by (simp add: tool_call_closure_def opens_def)
  next
    case ask
    then obtain i where "sc_asks sc k = Some i" by blast
    then have "opens ls TypeAskSuspended ln_tool_call k i" using assms(1) unfolding openers_ok_def by metis
    then show ?thesis using ask \<open>sc_asks sc k = Some i\<close>
      by (simp add: ask_closure_def opens_def)
  next
    case sub
    then obtain i where i: "sc_dispatch sc k = Some i" by blast
    then have "opens ls TypeSubagentDispatch ln_subagent_turn k i" using assms(1) unfolding openers_ok_def by metis
    then have "ls ! i \<in> set ls \<and> ln_type (ls ! i) = TypeSubagentDispatch \<and> ln_subagent_turn (ls ! i) = ln_turn c"
      using sub i by (simp add: dispatch_closure_def opens_def)
    then show ?thesis by blast
  next
    case turn
    then obtain st where st: "sc_turns sc k = Some st" by blast
    with turn have k: "ln_turn c = k" by (auto simp: turn_closures_def split: if_splits)
    have "rt_has_user st \<or> rt_has_chunk st" using turn st by (auto simp: turn_closures_def split: if_splits)
    then have "k \<in> ln_turn ` set ls"
      using openers_turnD(2,3)[OF assms(1) st] by (auto simp: opens_def)
    then show ?thesis using k by simp
  next
    case fin
    then show ?thesis by (auto simp: end_closures_def zero_line_def split: if_splits)
  qed
qed

section \<open>What a transcript leaves open\<close>

text \<open>
  The open expectations, read off the transcript alone: a line that opens one and no later line
  that settles it.
\<close>

definition dangling_call :: "line list \<Rightarrow> string \<Rightarrow> nat \<Rightarrow> bool" where
  "dangling_call ls k i = (opens ls TypeToolCall ln_tool_call k i \<and>
     (\<forall>j. i < j \<and> j < length ls \<and> ln_tool_call (ls ! j) = k \<longrightarrow>
        ln_type (ls ! j) \<notin> {TypeToolCall, TypeToolResult, TypeAskSuspended}))"

definition dangling_ask :: "line list \<Rightarrow> string \<Rightarrow> nat \<Rightarrow> bool" where
  "dangling_ask ls k i = (opens ls TypeAskSuspended ln_tool_call k i \<and>
     (\<forall>j. i < j \<and> j < length ls \<and> ln_tool_call (ls ! j) = k \<longrightarrow>
        ln_type (ls ! j) \<notin> {TypeToolResult, TypeAskSuspended}))"

definition dangling_dispatch :: "line list \<Rightarrow> string \<Rightarrow> nat \<Rightarrow> bool" where
  "dangling_dispatch ls k i = (opens ls TypeSubagentDispatch ln_subagent_turn k i \<and>
     (\<forall>j. i < j \<and> j < length ls \<and> ln_subagent_turn (ls ! j) = k \<longrightarrow>
        ln_type (ls ! j) \<notin> {TypeSubagentDispatch, TypeSubagentResult}))"

definition terminal_type :: "string \<Rightarrow> bool" where
  "terminal_type ty = (ty \<in> {TypeAssistantMessage, TypeCanceled, TypeError, TypeSessionEnd,
     TypeAskSuspended, TypeSubagentResult})"

definition turn_has :: "line list \<Rightarrow> string \<Rightarrow> (string \<Rightarrow> bool) \<Rightarrow> bool" where
  "turn_has ls k P = (\<exists>l\<in>set ls. ln_turn l = k \<and> P (ln_type l))"

lemma later_snoc:
  "(\<forall>j. i < j \<and> j < length (ls @ [l]) \<and> key ((ls @ [l]) ! j) = k \<longrightarrow> R ((ls @ [l]) ! j)) \<longleftrightarrow>
   (i < length ls \<and> key l = k \<longrightarrow> R l) \<and>
   (\<forall>j. i < j \<and> j < length ls \<and> key (ls ! j) = k \<longrightarrow> R (ls ! j))"
  (is "?L \<longleftrightarrow> ?A \<and> ?B")
proof
  assume L: ?L
  show "?A \<and> ?B"
  proof (intro conjI impI allI)
    assume "i < length ls \<and> key l = k"
    then show "R l" using L[rule_format, of "length ls"] by simp
  next
    fix j assume "i < j \<and> j < length ls \<and> key (ls ! j) = k"
    then show "R (ls ! j)" using L[rule_format, of j] by (simp add: nth_append)
  qed
next
  assume R: "?A \<and> ?B"
  show ?L
  proof (intro allI impI)
    fix j assume j: "i < j \<and> j < length (ls @ [l]) \<and> key ((ls @ [l]) ! j) = k"
    show "R ((ls @ [l]) ! j)"
    proof (cases "j = length ls")
      case True
      then show ?thesis using j R by simp
    next
      case False
      then have "j < length ls" using j by simp
      then show ?thesis using j R by (simp add: nth_append)
    qed
  qed
qed

lemma last_setter:
  assumes step: "\<And>ls l. m (ls @ [l]) = (if P l then (m ls)(key l \<mapsto> length ls) else if Q l then (m ls)(key l := None) else m ls)"
    and start: "m [] = Map.empty"
  shows "m ls k = Some i \<longleftrightarrow> i < length ls \<and> P (ls ! i) \<and> key (ls ! i) = k \<and>
     (\<forall>j. i < j \<and> j < length ls \<and> key (ls ! j) = k \<longrightarrow> \<not> P (ls ! j) \<and> \<not> Q (ls ! j))"
proof (induction ls rule: rev_induct)
  case Nil
  then show ?case by (simp add: start)
next
  case (snoc l ls)
  note lat = later_snoc[of i ls l key k "\<lambda>x. \<not> P x \<and> \<not> Q x"]
  consider "i < length ls" | "i = length ls" | "length ls < i" by linarith
  then show ?case
  proof cases
    case 1
    then have "(ls @ [l]) ! i = ls ! i" "i < length (ls @ [l])" by (simp_all add: nth_append)
    then show ?thesis unfolding lat using snoc 1 by (simp add: step)
  next
    case 2
    then have "m ls k \<noteq> Some i" using snoc by simp
    then show ?thesis unfolding lat using 2 by (auto simp: step)
  next
    case 3
    then have "m ls k \<noteq> Some i" using snoc by simp
    then show ?thesis unfolding lat using 3 by (simp add: step)
  qed
qed

lemma scan_line_maps:
  "sc_tool_calls (scan_line i l sc) =
     (if ln_type l = TypeToolCall then (sc_tool_calls sc)(ln_tool_call l \<mapsto> i)
      else if ln_type l = TypeToolResult \<or> ln_type l = TypeAskSuspended
      then (sc_tool_calls sc)(ln_tool_call l := None) else sc_tool_calls sc)"
  "sc_asks (scan_line i l sc) =
     (if ln_type l = TypeAskSuspended then (sc_asks sc)(ln_tool_call l \<mapsto> i)
      else if ln_type l = TypeToolResult then (sc_asks sc)(ln_tool_call l := None) else sc_asks sc)"
  "sc_dispatch (scan_line i l sc) =
     (if ln_type l = TypeSubagentDispatch then (sc_dispatch sc)(ln_subagent_turn l \<mapsto> i)
      else if ln_type l = TypeSubagentResult then (sc_dispatch sc)(ln_subagent_turn l := None)
      else sc_dispatch sc)"
  "sc_ended (scan_line i l sc) \<longleftrightarrow> ln_type l = TypeSessionEnd \<or> sc_ended sc"
proof -
  have n: "sc_tool_calls (turn_of t (note_plan l sc)) = sc_tool_calls sc"
    "sc_asks (turn_of t (note_plan l sc)) = sc_asks sc"
    "sc_dispatch (turn_of t (note_plan l sc)) = sc_dispatch sc"
    "sc_ended (turn_of t (note_plan l sc)) = sc_ended sc" for t
    by (simp_all add: turn_of_def note_plan_def split: option.split)
  have u: "sc_tool_calls (upd_turn t f s) = sc_tool_calls s" "sc_asks (upd_turn t f s) = sc_asks s"
    "sc_dispatch (upd_turn t f s) = sc_dispatch s" "sc_ended (upd_turn t f s) = sc_ended s" for t f s
    by (simp_all add: upd_turn_def)
  show "sc_tool_calls (scan_line i l sc) =
     (if ln_type l = TypeToolCall then (sc_tool_calls sc)(ln_tool_call l \<mapsto> i)
      else if ln_type l = TypeToolResult \<or> ln_type l = TypeAskSuspended
      then (sc_tool_calls sc)(ln_tool_call l := None) else sc_tool_calls sc)"
    by (simp add: scan_line_def route_line_def track_pair_def n u)
  show "sc_asks (scan_line i l sc) =
     (if ln_type l = TypeAskSuspended then (sc_asks sc)(ln_tool_call l \<mapsto> i)
      else if ln_type l = TypeToolResult then (sc_asks sc)(ln_tool_call l := None) else sc_asks sc)"
    by (simp add: scan_line_def route_line_def track_pair_def n u)
  show "sc_dispatch (scan_line i l sc) =
     (if ln_type l = TypeSubagentDispatch then (sc_dispatch sc)(ln_subagent_turn l \<mapsto> i)
      else if ln_type l = TypeSubagentResult then (sc_dispatch sc)(ln_subagent_turn l := None)
      else sc_dispatch sc)"
    by (simp add: scan_line_def route_line_def track_pair_def n u)
  show "sc_ended (scan_line i l sc) \<longleftrightarrow> ln_type l = TypeSessionEnd \<or> sc_ended sc"
    by (simp add: scan_line_def route_line_def track_pair_def n u)
qed

lemma scan_dangling:
  "sc_tool_calls (scan_from 0 ls (scan_start n)) k = Some i \<longleftrightarrow> dangling_call ls k i"
  "sc_asks (scan_from 0 ls (scan_start n)) k = Some i \<longleftrightarrow> dangling_ask ls k i"
  "sc_dispatch (scan_from 0 ls (scan_start n)) k = Some i \<longleftrightarrow> dangling_dispatch ls k i"
proof -
  let ?S = "\<lambda>ls. scan_from 0 ls (scan_start n)"
  show "sc_tool_calls (?S ls) k = Some i \<longleftrightarrow> dangling_call ls k i"
    by (subst last_setter[where P="\<lambda>l. ln_type l = TypeToolCall" and key=ln_tool_call
          and Q="\<lambda>l. ln_type l = TypeToolResult \<or> ln_type l = TypeAskSuspended"])
      (auto simp: scan_snoc scan_line_maps scan_start_def dangling_call_def opens_def)
  show "sc_asks (?S ls) k = Some i \<longleftrightarrow> dangling_ask ls k i"
    by (subst last_setter[where P="\<lambda>l. ln_type l = TypeAskSuspended" and key=ln_tool_call
          and Q="\<lambda>l. ln_type l = TypeToolResult"])
      (auto simp: scan_snoc scan_line_maps scan_start_def dangling_ask_def opens_def)
  show "sc_dispatch (?S ls) k = Some i \<longleftrightarrow> dangling_dispatch ls k i"
    by (subst last_setter[where P="\<lambda>l. ln_type l = TypeSubagentDispatch" and key=ln_subagent_turn
          and Q="\<lambda>l. ln_type l = TypeSubagentResult"])
      (auto simp: scan_snoc scan_line_maps scan_start_def dangling_dispatch_def opens_def)
qed

definition turn_step :: "line \<Rightarrow> nat \<Rightarrow> reconcile_turn \<Rightarrow> reconcile_turn" where
  "turn_step l i st =
     (if ln_type l = TypeUserMessage \<or> ln_type l = TypeAssistantMessage \<or>
         ln_type l = TypeAgentMessageChunk then track_turn l i st
      else if terminal_type (ln_type l) then set_terminal st else st)"

lemma scan_line_turns:
  "sc_turns (scan_line i l sc) k =
     (if k \<noteq> [] \<and> ln_turn l = k
      then Some (turn_step l i (case sc_turns sc k of None \<Rightarrow> new_turn | Some st \<Rightarrow> st))
      else sc_turns sc k)"
proof -
  let ?sc = "turn_of (ln_turn l) (note_plan l sc)"
  have n: "sc_turns ?sc k = (if k \<noteq> [] \<and> ln_turn l = k
      then Some (case sc_turns sc k of None \<Rightarrow> new_turn | Some st \<Rightarrow> st) else sc_turns sc k)"
    by (auto simp: turn_of_def note_plan_def split: option.split)
  have r: "sc_turns (route_line i l s) k = (if k \<noteq> [] \<and> ln_turn l = k
      then Some (turn_step l i (the (sc_turns s k))) else sc_turns s k)" if "ln_turn l \<noteq> [] \<Longrightarrow> sc_turns s (ln_turn l) \<noteq> None" for s
    using that
    by (auto simp: route_line_def track_pair_def upd_turn_def turn_step_def terminal_type_def)
  have "ln_turn l \<noteq> [] \<Longrightarrow> sc_turns ?sc (ln_turn l) \<noteq> None"
    using turn_of_known by fastforce
  from r[OF this] have "sc_turns (scan_line i l sc) k = (if k \<noteq> [] \<and> ln_turn l = k
      then Some (turn_step l i (the (sc_turns ?sc k))) else sc_turns ?sc k)"
    unfolding scan_line_def .
  then show ?thesis unfolding n by (cases "k \<noteq> [] \<and> ln_turn l = k") auto
qed

lemma turn_has_snoc: "turn_has (ls @ [l]) k P \<longleftrightarrow> turn_has ls k P \<or> (ln_turn l = k \<and> P (ln_type l))"
  by (auto simp: turn_has_def)

definition turn_summary :: "line list \<Rightarrow> string \<Rightarrow> reconcile_turn \<Rightarrow> bool" where
  "turn_summary ls k st =
     ((rt_has_user st \<longleftrightarrow> turn_has ls k (\<lambda>ty. ty = TypeUserMessage)) \<and>
      (rt_has_chunk st \<longleftrightarrow> turn_has ls k (\<lambda>ty. ty = TypeAgentMessageChunk)) \<and>
      (rt_terminal st \<longleftrightarrow> turn_has ls k terminal_type) \<and>
      (rt_has_assistant st \<longrightarrow> rt_terminal st))"

lemma turn_summary_step:
  "turn_summary ls k st \<Longrightarrow> ln_turn l = k \<Longrightarrow> turn_summary (ls @ [l]) k (turn_step l i st)"
  unfolding turn_summary_def turn_has_snoc
  by (auto simp: turn_step_def track_turn_def set_terminal_def terminal_type_def)

lemma turn_summary_other:
  "turn_summary ls k st \<Longrightarrow> ln_turn l \<noteq> k \<Longrightarrow> turn_summary (ls @ [l]) k st"
  unfolding turn_summary_def turn_has_snoc by blast

lemma turn_summary_new:
  "\<forall>l\<in>set ls. ln_turn l \<noteq> k \<Longrightarrow> turn_summary ls k new_turn"
  by (auto simp: turn_summary_def turn_has_def new_turn_def)

lemma scan_turns:
  "k \<noteq> [] \<Longrightarrow> (case sc_turns (scan_from 0 ls (scan_start n)) k of
     None \<Rightarrow> \<forall>l\<in>set ls. ln_turn l \<noteq> k | Some st \<Rightarrow> turn_summary ls k st)"
proof (induction ls rule: rev_induct)
  case Nil
  then show ?case by (simp add: scan_start_def)
next
  case (snoc l ls)
  let ?m = "sc_turns (scan_from 0 ls (scan_start n)) k"
  have "turn_summary ls k (case ?m of None \<Rightarrow> new_turn | Some st \<Rightarrow> st)"
    using snoc turn_summary_new by (auto split: option.splits)
  with snoc show ?case
    by (auto simp: scan_snoc scan_line_turns turn_summary_step turn_summary_other split: option.splits)
qed

lemma turns_nonempty_keys: "sc_turns (scan_from 0 ls (scan_start n)) [] = None"
  by (induction ls rule: rev_induct) (simp_all add: scan_start_def scan_snoc scan_line_turns)

lemma scan_ended: "sc_ended (scan_from 0 ls (scan_start n)) \<longleftrightarrow> (\<exists>l\<in>set ls. ln_type l = TypeSessionEnd)"
  by (induction ls rule: rev_induct) (auto simp: scan_start_def scan_snoc scan_line_maps)

section \<open>Which closures there are\<close>

lemma in_closures:
  assumes "orders_ok ko sc"
  shows "c \<in> set (closures ko ts ls sc) \<longleftrightarrow>
     (\<exists>k i. sc_tool_calls sc k = Some i \<and> c = snd (tool_call_closure ts ls k i)) \<or>
     (\<exists>k i. sc_asks sc k = Some i \<and> c = snd (ask_closure ts ls k i)) \<or>
     (\<exists>k i. sc_dispatch sc k = Some i \<and> c = snd (dispatch_closure ts ls k i)) \<or>
     (\<exists>k st. sc_turns sc k = Some st \<and> c \<in> snd ` set (turn_closures ts k st)) \<or>
     c \<in> snd ` set (end_closures ts ls sc)"
proof -
  have keys: "set (ko_tool_calls ko) = dom (sc_tool_calls sc)" "set (ko_asks ko) = dom (sc_asks sc)"
    "set (ko_dispatch ko) = dom (sc_dispatch sc)" "set (ko_turns ko) = dom (sc_turns sc)"
    using assms by (simp_all add: orders_ok_def key_order_def)
  have one: "(\<exists>k\<in>dom m. Q k (the (m k))) \<longleftrightarrow> (\<exists>k i. m k = Some i \<and> Q k i)" for m :: "string \<rightharpoonup> 'a" and Q
    by (metis domD domI option.sel)
  have "c \<in> set (closures ko ts ls sc) \<longleftrightarrow>
     (\<exists>k\<in>dom (sc_tool_calls sc). c = snd (tool_call_closure ts ls k (the (sc_tool_calls sc k)))) \<or>
     (\<exists>k\<in>dom (sc_asks sc). c = snd (ask_closure ts ls k (the (sc_asks sc k)))) \<or>
     (\<exists>k\<in>dom (sc_dispatch sc). c = snd (dispatch_closure ts ls k (the (sc_dispatch sc k)))) \<or>
     (\<exists>k\<in>dom (sc_turns sc). c \<in> snd ` set (turn_closures ts k (the (sc_turns sc k)))) \<or>
     c \<in> snd ` set (end_closures ts ls sc)"
    unfolding set_closures all_closures_def keys[symmetric] by (auto simp: image_iff)
  also have "\<dots> \<longleftrightarrow>
     (\<exists>k i. sc_tool_calls sc k = Some i \<and> c = snd (tool_call_closure ts ls k i)) \<or>
     (\<exists>k i. sc_asks sc k = Some i \<and> c = snd (ask_closure ts ls k i)) \<or>
     (\<exists>k i. sc_dispatch sc k = Some i \<and> c = snd (dispatch_closure ts ls k i)) \<or>
     (\<exists>k st. sc_turns sc k = Some st \<and> c \<in> snd ` set (turn_closures ts k st)) \<or>
     c \<in> snd ` set (end_closures ts ls sc)"
    by (intro arg_cong2[where f="(\<or>)"] refl one)
  finally show ?thesis .
qed

text \<open>
  The closing lines that the transcript calls for: one for each open expectation, and the end of
  the session when it has none.
\<close>

definition needed_closure :: "string \<Rightarrow> line list \<Rightarrow> line \<Rightarrow> bool" where
  "needed_closure ts ls c =
     ((\<exists>k i. dangling_call ls k i \<and> c = snd (tool_call_closure ts ls k i)) \<or>
      (\<exists>k i. dangling_ask ls k i \<and> c = snd (ask_closure ts ls k i)) \<or>
      (\<exists>k i. dangling_dispatch ls k i \<and> c = snd (dispatch_closure ts ls k i)) \<or>
      (\<exists>k. k \<noteq> [] \<and> turn_has ls k (\<lambda>ty. ty = TypeUserMessage) \<and> \<not> turn_has ls k terminal_type \<and>
         c = zero_line\<lparr>ln_type := TypeCanceled, ln_turn := k, ln_ts := ts,
               ln_text := interrupted_text, ln_cause := interrupted_cause\<rparr>) \<or>
      (\<exists>k. k \<noteq> [] \<and> turn_has ls k (\<lambda>ty. ty = TypeAgentMessageChunk) \<and> \<not> turn_has ls k terminal_type \<and>
         c = zero_line\<lparr>ln_type := TypeAssistantMessage, ln_turn := k, ln_ts := ts,
               ln_text := interrupted_text, ln_cause := interrupted_cause\<rparr>) \<or>
      (\<not> (\<exists>l\<in>set ls. ln_type l = TypeSessionEnd) \<and>
         c = zero_line\<lparr>ln_type := TypeSessionEnd, ln_ts := ts, ln_cause := interrupted_cause\<rparr>))"

lemma turn_closures_iff:
  "(\<exists>k st. sc_turns (scan_from 0 ls (scan_start n)) k = Some st \<and> c \<in> snd ` set (turn_closures ts k st)) \<longleftrightarrow>
     (\<exists>k. k \<noteq> [] \<and> turn_has ls k (\<lambda>ty. ty = TypeUserMessage) \<and> \<not> turn_has ls k terminal_type \<and>
         c = zero_line\<lparr>ln_type := TypeCanceled, ln_turn := k, ln_ts := ts,
               ln_text := interrupted_text, ln_cause := interrupted_cause\<rparr>) \<or>
      (\<exists>k. k \<noteq> [] \<and> turn_has ls k (\<lambda>ty. ty = TypeAgentMessageChunk) \<and> \<not> turn_has ls k terminal_type \<and>
         c = zero_line\<lparr>ln_type := TypeAssistantMessage, ln_turn := k, ln_ts := ts,
               ln_text := interrupted_text, ln_cause := interrupted_cause\<rparr>)"
  (is "?L \<longleftrightarrow> ?R")
proof -
  let ?S = "scan_from 0 ls (scan_start n)"
  have mem: "c \<in> snd ` set (turn_closures ts k st) \<longleftrightarrow>
      (rt_has_user st \<and> \<not> rt_terminal st \<and> c = zero_line\<lparr>ln_type := TypeCanceled, ln_turn := k, ln_ts := ts,
               ln_text := interrupted_text, ln_cause := interrupted_cause\<rparr>) \<or>
      (rt_has_chunk st \<and> \<not> rt_has_assistant st \<and> \<not> rt_terminal st \<and>
         c = zero_line\<lparr>ln_type := TypeAssistantMessage, ln_turn := k, ln_ts := ts,
               ln_text := interrupted_text, ln_cause := interrupted_cause\<rparr>)" for k st
    by (auto simp: turn_closures_def)
  show ?thesis
  proof
    assume ?L
    then obtain k st where st: "sc_turns ?S k = Some st" and c: "c \<in> snd ` set (turn_closures ts k st)" by blast
    have k: "k \<noteq> []" using st turns_nonempty_keys[of ls n] by auto
    then have "turn_summary ls k st" using scan_turns[OF k, of ls n] st by simp
    then show ?R using c k unfolding mem turn_summary_def by blast
  next
    assume r: ?R
    then obtain k where k: "k \<noteq> []" and h: "turn_has ls k (\<lambda>ty. ty = TypeUserMessage) \<or> turn_has ls k (\<lambda>ty. ty = TypeAgentMessageChunk)"
      and nt: "\<not> turn_has ls k terminal_type" and c: "turn_has ls k (\<lambda>ty. ty = TypeUserMessage) \<and> c = zero_line\<lparr>ln_type := TypeCanceled, ln_turn := k, ln_ts := ts,
               ln_text := interrupted_text, ln_cause := interrupted_cause\<rparr> \<or>
        turn_has ls k (\<lambda>ty. ty = TypeAgentMessageChunk) \<and> c = zero_line\<lparr>ln_type := TypeAssistantMessage, ln_turn := k, ln_ts := ts,
               ln_text := interrupted_text, ln_cause := interrupted_cause\<rparr>" by blast
    from h obtain l where "l \<in> set ls" "ln_turn l = k" by (auto simp: turn_has_def)
    then obtain st where st: "sc_turns ?S k = Some st" "turn_summary ls k st"
      using scan_turns[OF k, of ls n] by (auto split: option.splits)
    have "c \<in> snd ` set (turn_closures ts k st)"
      using st(2) nt c unfolding mem turn_summary_def by blast
    with st show ?L by blast
  qed
qed

lemma closures_exact:
  assumes "orders_ok ko (scan_transcript sid ls)"
  shows "c \<in> set (closures ko ts ls (scan_transcript sid ls)) \<longleftrightarrow> needed_closure ts ls c"
proof -
  have e: "c \<in> snd ` set (end_closures ts ls (scan_transcript sid ls)) \<longleftrightarrow>
     \<not> (\<exists>l\<in>set ls. ln_type l = TypeSessionEnd) \<and>
         c = zero_line\<lparr>ln_type := TypeSessionEnd, ln_ts := ts, ln_cause := interrupted_cause\<rparr>"
    by (auto simp: end_closures_def scan_transcript_def scan_ended)
  show ?thesis
    unfolding in_closures[OF assms] e needed_closure_def
    unfolding scan_transcript_def scan_dangling turn_closures_iff by blast
qed

lemma scan_turn_keys: "sc_turns (scan_from 0 ls (scan_start n)) k = Some st \<Longrightarrow> k \<noteq> []"
  using turns_nonempty_keys by fastforce

lemma scan_after_cover:
  assumes "list_all (\<lambda>l. closing_type (ln_type l)) cs" "covers (scan_from 0 ls (scan_start n)) cs"
  shows "nothing_open (scan_from 0 (ls @ cs) (scan_start n))"
    and "sc_seed (scan_from 0 (ls @ cs) (scan_start n)) = sc_seed (scan_from 0 ls (scan_start n))"
proof -
  show "nothing_open (scan_from 0 (ls @ cs) (scan_start n))"
    unfolding scan_from_append by (rule covers_closed[OF assms]) (rule scan_turn_keys)
  show "sc_seed (scan_from 0 (ls @ cs) (scan_start n)) = sc_seed (scan_from 0 ls (scan_start n))"
    unfolding scan_from_append using settles_scan_from[OF assms(1)] unfolding settles_def by blast
qed

text \<open>A dispatch line carries the subagent's turn as its own, as the Manager writes it.\<close>

definition dispatch_tagged :: "line list \<Rightarrow> bool" where
  "dispatch_tagged ls = list_all (\<lambda>l. ln_type l = TypeSubagentDispatch \<longrightarrow> ln_turn l = ln_subagent_turn l) ls"

lemma max_turn_closures:
  assumes "dispatch_tagged ls" "orders_ok ko (scan_transcript sid ls)"
  shows "max_turn_counter sid (ls @ closures ko ts ls (scan_transcript sid ls)) = max_turn_counter sid ls"
proof (rule max_turn_append_same)
  fix c n assume c: "c \<in> set (closures ko ts ls (scan_transcript sid ls))" "turn_suffix_value sid c = Some n"
  have o: "openers_ok ls (scan_transcript sid ls)"
    unfolding scan_transcript_def by (rule openers_scan)
  have "ln_turn c = [] \<or> ln_turn c \<in> ln_turn ` set ls"
    using closure_turns[OF o assms(2) c(1)]
  proof (elim disjE bexE conjE)
    fix l assume "l \<in> set ls" "ln_type l = TypeSubagentDispatch" "ln_subagent_turn l = ln_turn c"
    moreover from this have "ln_turn l = ln_subagent_turn l"
      using assms(1) by (simp add: dispatch_tagged_def list_all_iff)
    ultimately show ?thesis by (metis imageI)
  qed simp_all
  moreover have "ln_turn c \<noteq> []"
    using c(2) by (auto simp: turn_suffix_value_def cut_prefix_def has_prefix_def turn_infix_def split: option.splits)
  ultimately obtain l where l: "l \<in> set ls" "ln_turn l = ln_turn c" by fastforce
  then have "turn_suffix_value sid l = Some n" using c(2) by (simp add: turn_suffix_value_def)
  then show "n \<le> max_turn_counter sid ls" using max_turn_upper[OF l(1)] by simp
qed

section \<open>Resuming a session\<close>

text \<open>
  \<^verbatim>\<open>Runner.ResumeSession\<close> under the session's turn mutex. A failed append is logged and the
  loop goes on; the outcome of the \<open>i\<close>th write is \<open>ws i\<close>.
\<close>

fun append_closures ::
    "(body \<Rightarrow> string) \<Rightarrow> (nat \<Rightarrow> write_outcome) \<Rightarrow> nat \<Rightarrow> line list \<Rightarrow> manager \<Rightarrow> manager" where
  "append_closures render ws i [] m = m"
| "append_closures render ws i (c # cs) m =
     append_closures render ws (Suc i) cs (fst (append_line kit_red (kit_scrub render) (ws i) c m))"

definition resume_session ::
    "(body \<Rightarrow> string) \<Rightarrow> (nat \<Rightarrow> write_outcome) \<Rightarrow> key_orders \<Rightarrow> string \<Rightarrow>
     manager \<Rightarrow> turn_state \<times> plan_mode option \<Rightarrow> manager \<times> (turn_state \<times> plan_mode option)" where
  "resume_session render ws ko ts m st =
     (let (cs, seed) = reconcile ko ts (tu_session (fst st)) (read_all m);
          m' = append_closures render ws 0 cs m;
          target = (if sd_plan_mode_present seed then sd_plan_mode seed else [])
      in (m', seed_resume (sd_max_turns seed) target st))"

lemma append_closures_whole:
  assumes "mg_open m" "mg_tail m = NoTail" "list_all int64_line cs" "\<And>i. ws i = WroteAll"
  shows "read_all (append_closures render ws i cs m) = read_all m @ map redact_line cs \<and>
         mg_open (append_closures render ws i cs m) \<and> mg_tail (append_closures render ws i cs m) = NoTail"
  using assms(1-3)
proof (induction cs arbitrary: i m)
  case (Cons c cs)
  let ?m = "fst (append_line kit_red (kit_scrub render) WroteAll c m)"
  have "mg_open ?m" "mg_tail ?m = NoTail"
    using append_line_whole[OF Cons.prems(1,2)] Cons.prems by simp_all
  moreover have "read_all ?m = read_all m @ [redact_line c]"
    using append_line_read Cons.prems by simp
  ultimately show ?case
    using Cons assms(4) by simp
qed simp

definition plain_ids :: "line list \<Rightarrow> bool" where
  \<comment> \<open>no identifier in the transcript looks like a token\<close>
  "plain_ids ls = list_all (\<lambda>l. token_free (ln_turn l) \<and> token_free (ln_tool_call l) \<and>
     token_free (ln_subagent_turn l)) ls"

lemma token_free_Nil: "token_free []"
  by (simp add: token_free_def)

lemma closing_type_plain: "closing_type ty \<Longrightarrow> token_free ty"
proof -
  have "list_all token_free [TypeToolResult, TypeSubagentResult, TypeCanceled, TypeAssistantMessage, TypeSessionEnd]"
    by code_simp
  then show "closing_type ty \<Longrightarrow> token_free ty"
    by (auto simp: closing_type_def list_all_iff)
qed

lemma closures_int64: "list_all int64_line (closures ko ts ls sc)"
  unfolding list_all_iff set_closures all_closures_def
  by (auto simp: closure_defs int64_line_def zero_line_def split: if_splits)

lemma closures_plain:
  assumes "plain_ids ls" "orders_ok ko (scan_transcript sid ls)"
    and "c \<in> set (closures ko ts ls (scan_transcript sid ls))"
  shows "token_free (ln_turn c) \<and> token_free (ln_tool_call c) \<and> token_free (ln_subagent_turn c)"
proof -
  have at: "token_free (ln_turn (ls ! i)) \<and> token_free (ln_tool_call (ls ! i)) \<and> token_free (ln_subagent_turn (ls ! i))"
    if "i < length ls" for i
    using assms(1) that by (simp add: plain_ids_def list_all_length)
  have tn: "token_free k" if "turn_has ls k P" for k P
    using that assms(1) by (auto simp: turn_has_def plain_ids_def list_all_iff)
  from assms(3) have "needed_closure ts ls c" using closures_exact[OF assms(2)] by simp
  then show ?thesis
    unfolding needed_closure_def
  proof (elim disjE exE conjE)
    fix k i assume "dangling_call ls k i" "c = snd (tool_call_closure ts ls k i)"
    then show ?thesis using at[of i] by (auto simp: dangling_call_def opens_def tool_call_closure_def zero_line_def token_free_Nil)
  next
    fix k i assume "dangling_ask ls k i" "c = snd (ask_closure ts ls k i)"
    then show ?thesis using at[of i] by (auto simp: dangling_ask_def opens_def ask_closure_def zero_line_def token_free_Nil)
  next
    fix k i assume "dangling_dispatch ls k i" "c = snd (dispatch_closure ts ls k i)"
    then show ?thesis using at[of i] by (auto simp: dangling_dispatch_def opens_def dispatch_closure_def zero_line_def token_free_Nil)
  qed (auto simp: zero_line_def token_free_Nil dest: tn)
qed

lemma redact_line_keys:
  assumes "token_free (ln_type c)" "token_free (ln_turn c)" "token_free (ln_tool_call c)" "token_free (ln_subagent_turn c)"
  shows "ln_type (redact_line c) = ln_type c \<and> ln_turn (redact_line c) = ln_turn c \<and>
    ln_tool_call (redact_line c) = ln_tool_call c \<and> ln_subagent_turn (redact_line c) = ln_subagent_turn c"
  using assms by (simp add: redact_line_def scrub_fixed)

lemma covers_map:
  assumes "covers sc cs" "\<And>c. c \<in> set cs \<Longrightarrow> ln_type (f c) = ln_type c \<and> ln_turn (f c) = ln_turn c \<and>
    ln_tool_call (f c) = ln_tool_call c \<and> ln_subagent_turn (f c) = ln_subagent_turn c"
  shows "covers sc (map f cs)"
proof -
  have ex: "(\<exists>l\<in>set (map f cs). P (ln_type l) (ln_turn l) (ln_tool_call l) (ln_subagent_turn l)) \<longleftrightarrow>
    (\<exists>l\<in>set cs. P (ln_type l) (ln_turn l) (ln_tool_call l) (ln_subagent_turn l))" for P
    using assms(2) by auto
  show ?thesis
    using assms(1) unfolding covers_def
      ex[of "\<lambda>a b c d. a = TypeToolResult \<and> c = k" for k]
      ex[of "\<lambda>a b c d. a = TypeSubagentResult \<and> d = k" for k]
      ex[of "\<lambda>a b c d. a = TypeCanceled \<and> b = k" for k]
      ex[of "\<lambda>a b c d. a = TypeAssistantMessage \<and> b = k" for k]
      ex[of "\<lambda>a b c d. a = TypeSessionEnd"] .
qed

lemma reconcile_closed:
  assumes ko: "orders_ok ko (scan_transcript sid ls)" and tag: "dispatch_tagged ls"
    and cs: "cs = closures ko ts ls (scan_transcript sid ls)"
    and f: "\<And>c. c \<in> set cs \<Longrightarrow> ln_type (f c) = ln_type c \<and> ln_turn (f c) = ln_turn c \<and>
      ln_tool_call (f c) = ln_tool_call c \<and> ln_subagent_turn (f c) = ln_subagent_turn c"
    and ko': "orders_ok ko' (scan_transcript sid (ls @ map f cs))"
  shows "reconcile ko' ts' sid (ls @ map f cs) = ([], sc_seed (scan_transcript sid ls))"
proof -
  have cl: "list_all (\<lambda>l. closing_type (ln_type l)) (map f cs)"
    using closures_closing[of ko ts ls "scan_transcript sid ls"] f unfolding cs by (simp add: list_all_iff)
  have n: "max_turn_counter sid (ls @ map f cs) = max_turn_counter sid ls"
  proof -
    have "max_turn_counter sid (xs @ map f ys) = max_turn_counter sid (xs @ ys)"
      if "\<And>c. c \<in> set ys \<Longrightarrow> ln_turn (f c) = ln_turn c" for xs ys
      using that
    proof (induction ys rule: rev_induct)
      case (snoc y ys)
      have "max_turn_counter sid ((xs @ map f ys) @ [f y]) = max_turn_counter sid ((xs @ ys) @ [y])"
        using snoc unfolding max_turn_append[of sid "xs @ map f ys" "[f y]"] max_turn_append[of sid "xs @ ys" "[y]"]
        by (simp add: turn_suffix_value_def)
      then show ?case by simp
    qed simp
    then show ?thesis using f max_turn_closures[OF tag ko, of ts] unfolding cs by simp
  qed
  let ?n = "max_turn_counter sid ls"
  have cov: "covers (scan_from 0 ls (scan_start ?n)) (map f cs)"
    using covers_map[OF closures_cover[OF ko, of ts ls]] f unfolding cs scan_transcript_def by blast
  have S: "scan_transcript sid (ls @ map f cs) = scan_from 0 (ls @ map f cs) (scan_start ?n)"
    by (simp add: scan_transcript_def n)
  show ?thesis
    unfolding reconcile_def Let_def
    using nothing_open_closures[OF _ ko'] scan_after_cover[OF cl cov] unfolding S
    by (simp add: scan_transcript_def)
qed

section \<open>Properties\<close>

text \<open>C24. Reconciliation answers exactly the expectations the transcript leaves open: a line is
  among the closures if and only if it answers a tool call, a suspended ask or a dispatch whose last
  opening no later line settled, or ends a turn that a user message or a chunk opened and nothing
  ended, or ends a session that has no end.\<close>

theorem reconcile_answers_exactly:
  "orders_ok ko (scan_transcript sid ls) \<Longrightarrow>
   c \<in> set (fst (reconcile ko ts sid ls)) \<longleftrightarrow> needed_closure ts ls c"
  by (simp add: reconcile_def Let_def closures_exact)

theorem reconcile_answers_exactly_witness:
  "needed_closure ''t'' [tool_call_line ''s-turn-001'' ''c1'' ''Bash'' None ''t0''] (session_end_line ''t''\<lparr>ln_cause := ''interrupted''\<rparr>)"
proof -
  let ?ls = "[tool_call_line ''s-turn-001'' ''c1'' ''Bash'' None ''t0'']"
  let ?ko = "\<lparr>ko_tool_calls = [''c1''], ko_asks = [], ko_dispatch = [], ko_turns = [''s-turn-001'']\<rparr>"
  have m: "max_turn_counter ''s'' ?ls = 1" by code_simp
  have o: "orders_ok ?ko (scan_transcript ''s'' ?ls)"
    by (simp add: orders_ok_def key_order_def scan_transcript_def m scan_line_def note_plan_def turn_of_def
        route_line_def track_pair_def scan_start_def tool_call_line_def record_line_def)
  have "session_end_line ''t''\<lparr>ln_cause := ''interrupted''\<rparr> \<in> set (fst (reconcile ?ko ''t'' ''s'' ?ls))"
    unfolding reconcile_def Let_def fst_conv set_closures all_closures_def
    by (simp add: end_closures_def scan_transcript_def m scan_line_def note_plan_def turn_of_def
        route_line_def track_pair_def scan_start_def tool_call_line_def record_line_def session_end_line_def
        interrupted_cause_def zero_line_def)
  then show ?thesis using reconcile_answers_exactly[OF o] by blast
qed

text \<open>The result does not depend on the order in which Go visits the keys of the maps.\<close>

theorem reconcile_map_order:
  "orders_ok ko (scan_transcript sid ls) \<Longrightarrow> orders_ok ko' (scan_transcript sid ls) \<Longrightarrow>
   reconcile ko ts sid ls = reconcile ko' ts sid ls"
  unfolding reconcile_def Let_def scan_transcript_def
  by (rule arg_cong2[where f=Pair, OF closures_order[OF openers_scan] refl])

theorem reconcile_map_order_witness:
  "reconcile \<lparr>ko_tool_calls = [''a'', ''b''], ko_asks = [], ko_dispatch = [], ko_turns = []\<rparr> ''t'' ''s''
     [tool_call_line [] ''b'' ''Bash'' None ''t0'', tool_call_line [] ''a'' ''Bash'' None ''t0''] =
   reconcile \<lparr>ko_tool_calls = [''b'', ''a''], ko_asks = [], ko_dispatch = [], ko_turns = []\<rparr> ''t'' ''s''
     [tool_call_line [] ''b'' ''Bash'' None ''t0'', tool_call_line [] ''a'' ''Bash'' None ''t0'']"
proof (rule reconcile_map_order)
  let ?ls = "[tool_call_line [] ''b'' ''Bash'' None ''t0'', tool_call_line [] ''a'' ''Bash'' None ''t0'']"
  have s: "sc_tool_calls (scan_transcript ''s'' ?ls) = [''b'' \<mapsto> 0, ''a'' \<mapsto> 1]"
    "sc_asks (scan_transcript ''s'' ?ls) = Map.empty" "sc_dispatch (scan_transcript ''s'' ?ls) = Map.empty"
    "sc_turns (scan_transcript ''s'' ?ls) = Map.empty"
    by (simp_all add: scan_transcript_def scan_line_def note_plan_def turn_of_def
        route_line_def track_pair_def scan_start_def tool_call_line_def record_line_def)
  show "orders_ok \<lparr>ko_tool_calls = [''a'', ''b''], ko_asks = [], ko_dispatch = [], ko_turns = []\<rparr> (scan_transcript ''s'' ?ls)"
    "orders_ok \<lparr>ko_tool_calls = [''b'', ''a''], ko_asks = [], ko_dispatch = [], ko_turns = []\<rparr> (scan_transcript ''s'' ?ls)"
    unfolding orders_ok_def s by (auto simp: key_order_def)
qed



text \<open>A turn that was suspended at an ask and resumed by its answer counts as ended: when the
  process dies later in that turn, with an assistant message still streaming, neither the turn nor
  the stream gets a closing line.\<close>

theorem resumed_turn_stays_open:
  "map ln_type (fst (reconcile \<lparr>ko_tool_calls = [], ko_asks = [], ko_dispatch = [], ko_turns = [''s-turn-001'']\<rparr> ''t'' ''s''
     [user_message_line ''s-turn-001'' [] ''t'', tool_call_line ''s-turn-001'' ''c1'' ''AskUserQuestion'' None ''t'',
      ask_suspended_line ''s-turn-001'' ''c1'' None ''t'', tool_result_line ''s-turn-001'' ''c1'' None False ''t'',
      chunk_line ''s-turn-001'' ''m'' ''half a sent'' ''t''])) = [TypeSessionEnd]"
  by (simp add: reconcile_def Let_def closures_def all_closures_def turn_closures_def end_closures_def
      scan_transcript_def scan_line_def note_plan_def turn_of_def route_line_def track_pair_def
      track_turn_def upd_turn_def set_terminal_def new_turn_def scan_start_def user_message_line_def
      tool_call_line_def ask_suspended_line_def tool_result_line_def chunk_line_def record_line_def)

end
