(* ===== verification/Utf8.thy ===== *)
theory Utf8
  imports TurnIds
begin

text \<open>
  Runes: how Go reads a string as UTF-8 (\<^verbatim>\<open>[]rune(s)\<close>, \<^verbatim>\<open>utf8.RuneStart\<close>), the rune
  truncation of \<^verbatim>\<open>kit/session/projector.go\<close>, the byte truncation of
  \<^verbatim>\<open>kit/session/truncate.go\<close>, and the JSON text of a value.
\<close>

section \<open>Runes\<close>

definition byte_in :: "nat \<Rightarrow> nat \<Rightarrow> char \<Rightarrow> bool" where
  "byte_in lo hi c = (lo \<le> (of_char c :: nat) \<and> (of_char c :: nat) \<le> hi)"

definition cont_byte :: "char \<Rightarrow> bool" where
  "cont_byte = byte_in 0x80 0xBF"

text \<open>The length in bytes of the rune at the head; \<open>None\<close> is an invalid byte.\<close>

fun rune_len :: "string \<Rightarrow> nat option" where
  "rune_len [] = None"
| "rune_len (a # s) =
     (if byte_in 0 0x7F a then Some 1
      else if byte_in 0xC2 0xDF a then
        (case s of b # _ \<Rightarrow> if cont_byte b then Some 2 else None | [] \<Rightarrow> None)
      else if byte_in 0xE0 0xEF a then
        (case s of b # c # _ \<Rightarrow>
           if cont_byte b \<and> cont_byte c \<and> (byte_in 0xE0 0xE0 a \<longrightarrow> byte_in 0xA0 0xBF b) \<and>
              (byte_in 0xED 0xED a \<longrightarrow> byte_in 0x80 0x9F b) then Some 3 else None
         | _ \<Rightarrow> None)
      else if byte_in 0xF0 0xF4 a then
        (case s of b # c # d # _ \<Rightarrow>
           if cont_byte b \<and> cont_byte c \<and> cont_byte d \<and> (byte_in 0xF0 0xF0 a \<longrightarrow> byte_in 0x90 0xBF b) \<and>
              (byte_in 0xF4 0xF4 a \<longrightarrow> byte_in 0x80 0x8F b) then Some 4 else None
         | _ \<Rightarrow> None)
      else None)"

definition rune_error :: string where
  "rune_error = [char_of (0xEF :: nat), char_of (0xBF :: nat), char_of (0xBD :: nat)]"

lemma rune_len_pos: "rune_len s = Some n \<Longrightarrow> 0 < n"
  by (cases s) (auto split: if_splits list.splits)

text \<open>The runes of a string, each as its encoding; an invalid byte reads as U+FFFD.\<close>

function runes :: "string \<Rightarrow> string list" where
  "runes [] = []"
| "runes (a # s) =
     (case rune_len (a # s) of
        Some n \<Rightarrow> if n = 0 then [] else take n (a # s) # runes (drop n (a # s))
      | None \<Rightarrow> rune_error # runes s)"
  by pat_completeness auto
termination
  by (relation "measure length") auto

definition truncate_runes :: "string \<Rightarrow> nat \<Rightarrow> string" where
  "truncate_runes s n =
     (if n = 0 then []
      else if length (runes s) \<le> n then s
      else concat (take n (runes s)) @ ''...'')"

definition rune_start :: "char \<Rightarrow> bool" where
  "rune_start c = (\<not> cont_byte c)"

section \<open>The bound on tool results\<close>

definition tool_result_cap :: nat where
  "tool_result_cap = 131072"

fun align_start :: "nat \<Rightarrow> string \<Rightarrow> string" where
  \<comment> \<open>at most \<^verbatim>\<open>utf8.UTFMax-1\<close> continuation bytes are dropped\<close>
  "align_start 0 s = s"
| "align_start (Suc k) s =
     (case s of [] \<Rightarrow> [] | c # r \<Rightarrow> if rune_start c then s else align_start k r)"

definition truncate_tool_result :: "nat \<Rightarrow> string \<Rightarrow> string" where
  \<comment> \<open>\<open>cap\<close> is \<^verbatim>\<open>DefaultToolResultCapBytes\<close>\<close>
  "truncate_tool_result cap s =
     (if length s \<le> cap then s
      else (let tl = align_start 3 (drop (length s - cap) s)
            in ''[ass-guard: tool output truncated; original '' @ decimal (length s) @
               '' bytes, kept tail '' @ decimal (length tl) @ '' bytes]'' @ [CHR 10] @ tl))"

fun bounded_tool_result :: "nat \<Rightarrow> raw_message \<Rightarrow> raw_message" where
  "bounded_tool_result cap (Some (JStr s)) =
     (if length s \<le> cap then Some (JStr s) else Some (JStr (truncate_tool_result cap s)))"
| "bounded_tool_result cap raw = raw"

section \<open>JSON text\<close>

text \<open>
  The text \<^verbatim>\<open>json.Marshal\<close> writes: short escapes, six-byte escapes for the other
  control characters, the HTML characters, U+2028 and U+2029, and U+FFFD for an invalid byte.
\<close>

definition hex_digit :: "nat \<Rightarrow> char" where
  "hex_digit n = ''0123456789abcdef'' ! (n mod 16)"

definition u_escape :: "nat \<Rightarrow> string" where
  "u_escape n = [CHR 0x5C, CHR ''u'', hex_digit (n div 4096), hex_digit (n div 256),
     hex_digit (n div 16), hex_digit n]"

definition short_escapes :: "(string \<times> char) list" where
  "short_escapes = [([CHR 0x22], CHR 0x22), ([CHR 0x5C], CHR 0x5C), ([CHR 8], CHR ''b''),
     ([CHR 9], CHR ''t''), ([CHR 10], CHR ''n''), ([CHR 12], CHR ''f''), ([CHR 13], CHR ''r'')]"

definition rune_json :: "string \<Rightarrow> string" where
  "rune_json r =
     (case map_of short_escapes r of
        Some c \<Rightarrow> [CHR 0x5C, c]
      | None \<Rightarrow>
          if length r = 1 \<and> (byte_in 0 0x1F (hd r) \<or> hd r \<in> set ''<>&'') then u_escape (of_char (hd r))
          else if r = [CHR 0xE2, CHR 0x80, CHR 0xA8] then u_escape 0x2028
          else if r = [CHR 0xE2, CHR 0x80, CHR 0xA9] then u_escape 0x2029
          else r)"

function string_json :: "string \<Rightarrow> string" where
  "string_json [] = []"
| "string_json (a # s) =
     (case rune_len (a # s) of
        Some n \<Rightarrow> if n = 0 then [] else rune_json (take n (a # s)) @ string_json (drop n (a # s))
      | None \<Rightarrow> u_escape 0xFFFD @ string_json s)"
  by pat_completeness auto
termination
  by (relation "measure length") auto

definition quoted :: "string \<Rightarrow> string" where
  "quoted s = [CHR 0x22] @ string_json s @ [CHR 0x22]"

function json_text :: "json \<Rightarrow> string" where
  "json_text JNull = ''null''"
| "json_text (JBool b) = (if b then ''true'' else ''false'')"
| "json_text (JNum n) = (if 0 \<le> n then decimal (nat n) else ''-'' @ decimal (nat (- n)))"
| "json_text (JFrac s) = s"
| "json_text (JStr s) = quoted s"
| "json_text (JArr vs) = ''['' @ join_with '','' (map json_text vs) @ '']''"
| "json_text (JObj fs) = ''{'' @ join_with '','' (map (\<lambda>(k, v). quoted k @ '':'' @ json_text v) fs) @ ''}''"
  by pat_completeness auto
termination
  by (relation "measure size") (auto simp: size_member less_Suc_eq_le intro: size_list_estimation')

section \<open>Properties of the truncations\<close>

lemma runes_length: "length (runes s) \<le> length s"
proof (induction s rule: runes.induct)
  case (2 a s)
  show ?case
  proof (cases "rune_len (a # s)")
    case None
    then show ?thesis using 2 by simp
  next
    case (Some n)
    then have n: "0 < n" using rune_len_pos by blast
    then have "length (runes (drop n (a # s))) \<le> length (a # s) - n"
      using "2.IH"(2)[OF Some] by simp
    then show ?thesis using Some n by simp
  qed
qed simp

lemma runes_take_length: "r \<in> set (runes s) \<Longrightarrow> length r \<le> 4"
proof (induction s rule: runes.induct)
  case (2 a s)
  show ?case
  proof (cases "rune_len (a # s)")
    case None
    then show ?thesis using 2 by (auto simp: rune_error_def)
  next
    case (Some n)
    then have "0 < n" "n \<le> 4" using rune_len_pos by (auto split: if_splits list.splits)
    then show ?thesis using 2 Some by auto
  qed
qed simp

lemma concat_length_bound: "(\<And>r. r \<in> set rs \<Longrightarrow> length r \<le> k) \<Longrightarrow> length (concat rs) \<le> k * length rs"
  by (induction rs) (auto simp: add_mono)

lemma truncate_runes_length: "length (runes s) \<le> n \<or> length (truncate_runes s n) \<le> 4 * n + 3"
proof (cases "length (runes s) \<le> n \<or> n = 0")
  case False
  have "length (concat (take n (runes s))) \<le> 4 * length (take n (runes s))"
    by (rule concat_length_bound) (meson in_set_takeD runes_take_length)
  also have "\<dots> \<le> 4 * n" by simp
  finally show ?thesis using False by (simp add: truncate_runes_def)
qed (auto simp: truncate_runes_def)

lemma align_start_suffix: "suffix (align_start k s) s"
  by (induction k s rule: align_start.induct) (auto split: list.splits intro: suffix_ConsI)

lemma align_start_loses: "length s \<le> length (align_start k s) + k"
  by (induction k s rule: align_start.induct) (auto split: list.splits)

end
