(* ===== verification/Toolcat.thy ===== *)
theory Toolcat
  imports Json "HOL-Library.AList" "HOL-Library.Monad_Syntax"
begin

text \<open>
  The tool catalog of \<^verbatim>\<open>kit/toolcat\<close>: entries with their mutability and annotations, the
  boundary rule, the restricted executor of subagents and the check of a profile's declarations
  against the catalog. The catalog map is an association list; the \<^verbatim>\<open>Execute\<close> field of an
  entry is nil in every entry of the source and is left out.
\<close>

section \<open>Entries\<close>

datatype mutability = ReadOnly | Mutating

instantiation mutability :: linorder
begin

definition less_eq_mutability :: "mutability \<Rightarrow> mutability \<Rightarrow> bool" where
  "less_eq_mutability a b = (a = ReadOnly \<or> b = Mutating)"

definition less_mutability :: "mutability \<Rightarrow> mutability \<Rightarrow> bool" where
  "less_mutability a b = (a = ReadOnly \<and> b = Mutating)"

instance
proof
  fix x y z :: mutability
  show "(x < y) = (x \<le> y \<and> \<not> y \<le> x)"
    by (cases x; cases y) (simp_all add: less_eq_mutability_def less_mutability_def)
  show "x \<le> x" by (cases x) (simp_all add: less_eq_mutability_def)
  show "x \<le> z" if "x \<le> y" "y \<le> z"
    using that by (cases x; cases y) (simp_all add: less_eq_mutability_def)
  show "x = y" if "x \<le> y" "y \<le> x"
    using that by (cases x; cases y) (simp_all add: less_eq_mutability_def)
  show "x \<le> y \<or> y \<le> x" by (cases x) (simp_all add: less_eq_mutability_def)
qed

end

definition mutability_string :: "mutability \<Rightarrow> string" where
  "mutability_string m = (case m of Mutating \<Rightarrow> ''mutating'' | ReadOnly \<Rightarrow> ''read-only'')"

fun unmarshal_mutability :: "json \<Rightarrow> mutability option" where
  "unmarshal_mutability (JStr s) =
     (if s = ''mutating'' then Some Mutating
      else if s = ''read-only'' \<or> s = [] then Some ReadOnly else None)"
| "unmarshal_mutability JNull = Some ReadOnly"
| "unmarshal_mutability _ = None"

record tool =
  tl_name :: string
  tl_description :: string
  tl_schema :: raw_message
  tl_mutability :: mutability
  tl_timeout :: int
  tl_safe :: "bool option" \<comment> \<open>\<^verbatim>\<open>ConcurrencySafeOpt\<close>\<close>
  tl_destructive :: bool

record decl =
  dc_name :: string
  dc_description :: string
  dc_schema :: raw_message

definition default_tool_timeout :: int where
  "default_tool_timeout = 120000"

definition is_mutating :: "tool \<Rightarrow> bool" where
  "is_mutating t = (tl_mutability t = Mutating)"

definition effective_timeout :: "tool \<Rightarrow> int" where
  "effective_timeout t = (if tl_timeout t > 0 then tl_timeout t else default_tool_timeout)"

definition is_concurrency_safe :: "tool \<Rightarrow> bool" where
  "is_concurrency_safe t =
     (case tl_safe t of Some b \<Rightarrow> b | None \<Rightarrow> tl_mutability t = ReadOnly)"

definition is_destructive :: "tool \<Rightarrow> bool" where
  "is_destructive t = tl_destructive t"

fun get_mutability :: "mutability \<Rightarrow> (string \<times> json) list \<Rightarrow> mutability option" where
  \<comment> \<open>a field with its own decoder sees null too\<close>
  "get_mutability acc [] = Some acc"
| "get_mutability acc ((k, v) # fs) =
     (if key_match k ''mutability'' then
        (case unmarshal_mutability v of None \<Rightarrow> None | Some m \<Rightarrow> get_mutability m fs)
      else get_mutability acc fs)"

fun get_safe :: "bool option \<Rightarrow> (string \<times> json) list \<Rightarrow> bool option option" where
  \<comment> \<open>a pointer field: null makes it nil\<close>
  "get_safe acc [] = Some acc"
| "get_safe acc ((k, v) # fs) =
     (if key_match k ''concurrency_safe'' then
        (if v = JNull then get_safe None fs
         else (case as_bool v of None \<Rightarrow> None | Some b \<Rightarrow> get_safe (Some b) fs))
      else get_safe acc fs)"

definition tool_of_fields :: "(string \<times> json) list \<Rightarrow> tool option" where
  "tool_of_fields fs =
     do {
       name \<leftarrow> get_field as_str ''name'' [] fs;
       desc \<leftarrow> get_field as_str ''description'' [] fs;
       mut \<leftarrow> get_mutability ReadOnly fs;
       tmo \<leftarrow> get_field as_int64 ''timeout_ms'' 0 fs;
       safe \<leftarrow> get_safe None fs;
       destr \<leftarrow> get_field as_bool ''destructive'' False fs;
       Some \<lparr>tl_name = name, tl_description = desc, tl_schema = get_raw ''input_schema'' None fs,
         tl_mutability = mut, tl_timeout = tmo, tl_safe = safe, tl_destructive = destr\<rparr>
     }"

section \<open>The catalog\<close>

type_synonym catalog = "(string \<times> tool) list"

definition cat_get :: "catalog \<Rightarrow> string \<Rightarrow> tool option" where
  "cat_get c name = map_of c name"

definition cat_register :: "tool \<Rightarrow> catalog \<Rightarrow> catalog" where
  "cat_register t c = AList.update (tl_name t) t c"

definition new_catalog :: "(string \<times> json) list list \<Rightarrow> catalog option" where
  \<comment> \<open>the embedded entries; \<open>None\<close> is the panic\<close>
  "new_catalog es = map_option (\<lambda>ts. fold cat_register ts []) (those (map tool_of_fields es))"

definition cat_clone :: "catalog \<Rightarrow> catalog" where
  "cat_clone c = fold (\<lambda>(k, t). AList.update k t) (rev c) []"

definition cat_names :: "catalog \<Rightarrow> string list" where
  "cat_names c = sort (remdups (map fst c))"

definition cat_decls :: "catalog \<Rightarrow> decl list" where
  "cat_decls c = map (\<lambda>n. (case cat_get c n of
       Some t \<Rightarrow> \<lparr>dc_name = tl_name t, dc_description = tl_description t, dc_schema = tl_schema t\<rparr>
     | None \<Rightarrow> \<lparr>dc_name = [], dc_description = [], dc_schema = None\<rparr>)) (cat_names c)"

section \<open>Mutability and boundaries\<close>

definition effective_mutability :: "tool \<Rightarrow> mutability \<Rightarrow> mutability" where
  "effective_mutability t adapter =
     (if tl_mutability t = Mutating \<or> adapter = Mutating then Mutating else ReadOnly)"

definition is_boundary :: "string \<Rightarrow> catalog option \<Rightarrow> string list \<Rightarrow> bool" where
  "is_boundary name c config_added =
     ((case c of None \<Rightarrow> False
       | Some cat \<Rightarrow>
           (case cat_get cat name of None \<Rightarrow> False
            | Some t \<Rightarrow> effective_mutability t ReadOnly = Mutating)) \<or>
      name \<in> set config_added)"

definition is_catalog_mutating :: "catalog option \<Rightarrow> string \<Rightarrow> bool" where
  "is_catalog_mutating c name =
     (case c of None \<Rightarrow> False
      | Some cat \<Rightarrow> (case cat_get cat name of None \<Rightarrow> False | Some t \<Rightarrow> is_mutating t))"

definition is_alone_in_slot :: "string \<Rightarrow> catalog option \<Rightarrow> bool" where
  "is_alone_in_slot name c =
     (case c of None \<Rightarrow> False
      | Some cat \<Rightarrow>
          (case cat_get cat name of None \<Rightarrow> False
           | Some t \<Rightarrow> is_mutating t \<or> \<not> is_concurrency_safe t))"

section \<open>Restricted execution\<close>

definition restricted_execute ::
    "(string \<Rightarrow> raw_message \<Rightarrow> 'e + raw_message) \<Rightarrow> (string \<Rightarrow> 'e) \<Rightarrow> string list \<Rightarrow> string \<Rightarrow>
     raw_message \<Rightarrow> 'e + raw_message" where
  \<comment> \<open>\<open>inner\<close> is the wrapped executor, \<open>unavailable name\<close> the error of a tool outside the list\<close>
  "restricted_execute inner unavailable allowed name input =
     (if name \<in> set allowed then inner name input else Inl (unavailable name))"

section \<open>Catalog consistency\<close>

record consistency =
  cr_unsatisfied :: "string list"
  cr_plugin :: "string list"
  cr_satisfied :: "string list"

definition is_mcp_or_plugin :: "string \<Rightarrow> bool" where
  "is_mcp_or_plugin name = (has_prefix name ''mcp__'' \<or> contains name ''__'')"

definition required_fields :: "raw_message \<Rightarrow> string list" where
  "required_fields raw =
     (case raw of
        Some (JObj fs) \<Rightarrow> (case get_field as_strs ''required'' [] fs of Some rs \<Rightarrow> rs | None \<Rightarrow> [])
      | _ \<Rightarrow> [])"

definition structurally_compatible :: "raw_message \<Rightarrow> raw_message \<Rightarrow> bool" where
  "structurally_compatible a b =
     (let ra = required_fields a; rb = required_fields b
      in length ra = length rb \<and> list_all (\<lambda>f. f \<in> set ra) rb)"

definition consistency_step :: "catalog \<Rightarrow> consistency \<Rightarrow> decl \<Rightarrow> consistency" where
  "consistency_step c r d =
     (if is_mcp_or_plugin (dc_name d) then r\<lparr>cr_plugin := cr_plugin r @ [dc_name d]\<rparr>
      else (case cat_get c (dc_name d) of
              None \<Rightarrow> r\<lparr>cr_unsatisfied := cr_unsatisfied r @ [dc_name d]\<rparr>
            | Some t \<Rightarrow>
                if \<not> structurally_compatible (dc_schema d) (tl_schema t)
                then r\<lparr>cr_unsatisfied := cr_unsatisfied r @ [dc_name d]\<rparr>
                else r\<lparr>cr_satisfied := cr_satisfied r @ [dc_name d]\<rparr>))"

definition check_consistency :: "catalog \<Rightarrow> decl list \<Rightarrow> consistency" where
  "check_consistency c ds =
     foldl (consistency_step c) \<lparr>cr_unsatisfied = [], cr_plugin = [], cr_satisfied = []\<rparr> ds"

definition consistency_ok :: "consistency \<Rightarrow> bool" where
  "consistency_ok r = (cr_unsatisfied r = [])"

section \<open>Lemmas\<close>

lemma effective_mutability_max: "effective_mutability t a = max (tl_mutability t) a"
  by (cases "tl_mutability t"; cases a) (auto simp: effective_mutability_def max_def less_eq_mutability_def)

lemma cat_get_register: "cat_get (cat_register t c) n = (if n = tl_name t then Some t else cat_get c n)"
  by (simp add: cat_get_def cat_register_def update_conv')

lemma boundary_floor: "is_catalog_mutating c n \<Longrightarrow> is_boundary n c cfg"
  by (auto simp: is_catalog_mutating_def is_boundary_def effective_mutability_def is_mutating_def
      split: option.splits)

lemma boundary_mono: "is_boundary n c cfg \<Longrightarrow> set cfg \<subseteq> set cfg' \<Longrightarrow> is_boundary n c cfg'"
  by (auto simp: is_boundary_def)

lemma alone_floor: "is_catalog_mutating c n \<Longrightarrow> is_alone_in_slot n c"
  by (auto simp: is_catalog_mutating_def is_alone_in_slot_def split: option.splits)

lemma fold_update_map: "map_of (fold (\<lambda>(k, t). AList.update k t) xs ys) = map_of ys ++ map_of (rev xs)"
proof (induction xs arbitrary: ys)
  case (Cons x xs)
  then show ?case by (cases x) (simp add: update_conv' fun_eq_iff map_add_def split: option.splits)
qed simp

lemma cat_get_clone [simp]: "cat_get (cat_clone c) n = cat_get c n"
  by (simp add: cat_get_def cat_clone_def fold_update_map)

lemma cat_names_set: "set (cat_names c) = {n. cat_get c n \<noteq> None}"
  by (auto simp: cat_names_def cat_get_def map_of_eq_None_iff)

section \<open>Properties\<close>

text \<open>A tool the catalog declares mutating is a boundary and runs alone whatever the
configuration, the adapter class or the concurrency annotation say; configuration only adds
boundaries, and of two mutabilities the greater wins.\<close>

theorem mutating_floor:
  "(is_catalog_mutating c n \<longrightarrow> is_boundary n c cfg \<and> is_alone_in_slot n c) \<and>
   (is_boundary n c cfg \<longrightarrow> is_boundary n c (cfg @ extra)) \<and>
   effective_mutability t adapter = max (tl_mutability t) adapter"
  using boundary_floor alone_floor boundary_mono effective_mutability_max by auto

theorem mutating_floor_witness:
  "let t = \<lparr>tl_name = ''Bash'', tl_description = [], tl_schema = None, tl_mutability = Mutating,
        tl_timeout = 0, tl_safe = Some True, tl_destructive = True\<rparr>
   in is_boundary ''Bash'' (Some [(''Bash'', t)]) [] \<and> is_alone_in_slot ''Bash'' (Some [(''Bash'', t)])"
proof -
  let ?t = "\<lparr>tl_name = ''Bash'', tl_description = [], tl_schema = None, tl_mutability = Mutating,
      tl_timeout = 0, tl_safe = Some True, tl_destructive = True\<rparr>"
  have "is_catalog_mutating (Some [(''Bash'', ?t)]) ''Bash''" by code_simp
  then show ?thesis using mutating_floor[of "Some [(''Bash'', ?t)]" "''Bash''" "[]"] by simp
qed

text \<open>The consistency gate accepts two schemas exactly when they require the same fields, as
long as no schema lists a field twice; with a repeated field it accepts different sets, and its
answer depends on the order of its arguments.\<close>

theorem structural_compatibility:
  "(distinct (required_fields a) \<and> distinct (required_fields b) \<longrightarrow>
      structurally_compatible a b = (set (required_fields a) = set (required_fields b))) \<and>
   (\<exists>a b. structurally_compatible a b \<and> \<not> structurally_compatible b a)"
proof -
  have "structurally_compatible a b = (set (required_fields a) = set (required_fields b))"
    if d: "distinct (required_fields a)" "distinct (required_fields b)"
  proof
    assume "structurally_compatible a b"
    then have "set (required_fields b) \<subseteq> set (required_fields a)"
      "card (set (required_fields a)) = card (set (required_fields b))"
      using d by (auto simp: structurally_compatible_def Let_def list_all_iff distinct_card)
    then show "set (required_fields a) = set (required_fields b)"
      by (metis List.finite_set card_subset_eq)
  next
    assume "set (required_fields a) = set (required_fields b)"
    then show "structurally_compatible a b"
      using d by (metis (mono_tags, lifting) distinct_card list_all_iff structurally_compatible_def)
  qed
  moreover have "structurally_compatible
      (Some (JObj [(''required'', JArr [JStr ''a'', JStr ''b''])]))
      (Some (JObj [(''required'', JArr [JStr ''a'', JStr ''a''])]))
    \<and> \<not> structurally_compatible
      (Some (JObj [(''required'', JArr [JStr ''a'', JStr ''a''])]))
      (Some (JObj [(''required'', JArr [JStr ''a'', JStr ''b''])]))"
    by code_simp
  ultimately show ?thesis by blast
qed

theorem structural_compatibility_witness:
  "structurally_compatible (Some (JObj [(''required'', JArr [JStr ''a'', JStr ''b''])]))
     (Some (JObj [(''required'', JArr [JStr ''b'', JStr ''a''])]))"
proof -
  let ?a = "Some (JObj [(''required'', JArr [JStr ''a'', JStr ''b''])])"
  let ?b = "Some (JObj [(''required'', JArr [JStr ''b'', JStr ''a''])])"
  have "distinct (required_fields ?a)" "distinct (required_fields ?b)"
    "set (required_fields ?a) = set (required_fields ?b)" by code_simp+
  then show ?thesis using structural_compatibility[of ?a ?b] by blast
qed

end
