(* ===== verification/Batch.thy ===== *)
theory Batch
  imports Toolcat TurnIds
begin

text \<open>
  \<^verbatim>\<open>kit/toolexec/batch.go\<close>: one batch of tool calls. Pool calls run concurrently, at most
  \<^verbatim>\<open>maxConcurrent\<close> at a time; serialized calls run alone after them. The goroutines are
  slots with a program counter and a step relation interleaves them; \<open>dispatch_batch\<close> is the
  result the caller sees when the context stays alive. What an executor returns for the call at an
  index, and whether the call's own deadline has fired by then, come from the environment.
\<close>

section \<open>Calls and results\<close>

record tool_call_msg =
  tc_id :: string
  tc_name :: string
  tc_input :: raw_message

datatype exec_err =
    ErrNoExecutor
  | ErrContext          \<comment> \<open>the batch context's error\<close>
  | ErrDeadline         \<comment> \<open>\<^verbatim>\<open>context.DeadlineExceeded\<close>\<close>
  | ErrSuspended        \<comment> \<open>\<^verbatim>\<open>session.ErrSuspended\<close>\<close>
  | ErrOther string

record exec_out =
  xo_output :: raw_message
  xo_err :: "exec_err option"
  xo_deadline :: bool   \<comment> \<open>the call's own deadline has fired\<close>

record tool_result =
  tr_index :: nat
  tr_name :: string
  tr_output :: raw_message
  tr_err :: "exec_err option"
  tr_is_error :: bool

definition default_max_concurrent :: nat where
  "default_max_concurrent = 6"

definition max_concurrent :: "int list \<Rightarrow> nat" where
  \<comment> \<open>the MaxConcurrent options in order; values below 1 are ignored\<close>
  "max_concurrent opts = foldl (\<lambda>n k. if k > 0 then nat k else n) default_max_concurrent opts"

definition timeout_for :: "string \<Rightarrow> catalog option \<Rightarrow> int" where
  "timeout_for name c =
     (case c of None \<Rightarrow> default_tool_timeout
      | Some cat \<Rightarrow>
          (case cat_get cat name of Some t \<Rightarrow> effective_timeout t | None \<Rightarrow> default_tool_timeout))"

definition timeout_output :: "string \<Rightarrow> int \<Rightarrow> raw_message" where
  "timeout_output name ms =
     Some (JObj [(''error'', JStr (''toolexec: tool '' @ name @ '' timed out after '' @ decimal (nat ms) @ ''ms''))])"

definition execute_one :: "(string \<Rightarrow> raw_message \<Rightarrow> exec_out) option \<Rightarrow> nat \<Rightarrow> tool_call_msg \<Rightarrow> tool_result" where
  \<comment> \<open>an empty output is \<open>None\<close>\<close>
  "execute_one exec i c =
     (case exec of
        None \<Rightarrow> \<lparr>tr_index = i, tr_name = tc_name c, tr_output = None, tr_err = Some ErrNoExecutor, tr_is_error = True\<rparr>
      | Some f \<Rightarrow>
          (let out = f (tc_name c) (tc_input c)
           in case xo_err out of
                Some e \<Rightarrow> \<lparr>tr_index = i, tr_name = tc_name c, tr_output = xo_output out, tr_err = Some e, tr_is_error = True\<rparr>
              | None \<Rightarrow> \<lparr>tr_index = i, tr_name = tc_name c, tr_output = xo_output out, tr_err = None, tr_is_error = False\<rparr>))"

definition execute_bounded ::
    "(string \<Rightarrow> raw_message \<Rightarrow> exec_out) option \<Rightarrow> catalog option \<Rightarrow> nat \<Rightarrow> tool_call_msg \<Rightarrow> tool_result" where
  "execute_bounded exec cat i c =
     (let res = execute_one exec i c;
          fired = (case exec of None \<Rightarrow> False | Some f \<Rightarrow> xo_deadline (f (tc_name c) (tc_input c)))
      in if \<not> tr_is_error res \<or> \<not> fired \<or> tr_err res \<noteq> Some ErrDeadline then res
         else if tr_output res = None then res\<lparr>tr_output := timeout_output (tc_name c) (timeout_for (tc_name c) cat)\<rparr>
         else res)"

definition cancelled_result :: "nat \<Rightarrow> tool_call_msg \<Rightarrow> tool_result" where
  "cancelled_result i c =
     \<lparr>tr_index = i, tr_name = tc_name c, tr_output = None, tr_err = Some ErrContext, tr_is_error = True\<rparr>"

type_synonym executors = "nat \<Rightarrow> (string \<Rightarrow> raw_message \<Rightarrow> exec_out) option"

definition dispatch_batch :: "executors \<Rightarrow> catalog option \<Rightarrow> tool_call_msg list \<Rightarrow> tool_result list" where
  "dispatch_batch exec cat calls = map (\<lambda>i. execute_bounded (exec i) cat i (calls ! i)) [0..<length calls]"

section \<open>The goroutines\<close>

datatype slot = Waiting | Running | Finished tool_result

definition pooled :: "catalog option \<Rightarrow> tool_call_msg list \<Rightarrow> nat \<Rightarrow> bool" where
  "pooled cat calls i = (\<not> is_alone_in_slot (tc_name (calls ! i)) cat)"

definition running_count :: "slot list \<Rightarrow> nat" where
  "running_count ss = length (filter (\<lambda>s. s = Running) ss)"

definition is_finished :: "slot \<Rightarrow> bool" where
  "is_finished s = (case s of Finished _ \<Rightarrow> True | _ \<Rightarrow> False)"

definition serial_turn :: "catalog option \<Rightarrow> tool_call_msg list \<Rightarrow> slot list \<Rightarrow> nat \<Rightarrow> bool" where
  \<comment> \<open>\<^verbatim>\<open>wg.Wait\<close> returned and the serialized calls before this one are done\<close>
  "serial_turn cat calls ss i =
     (\<forall>j < length ss. (pooled cat calls j \<or> j < i) \<longrightarrow> is_finished (ss ! j))"

inductive batch_step ::
    "executors \<Rightarrow> catalog option \<Rightarrow> tool_call_msg list \<Rightarrow> nat \<Rightarrow> bool \<Rightarrow> slot list \<Rightarrow> slot list \<Rightarrow> bool"
  for exec cat calls n dies where
  acquire: "i < length ss \<Longrightarrow> pooled cat calls i \<Longrightarrow> ss ! i = Waiting \<Longrightarrow> running_count ss < n \<Longrightarrow>
    batch_step exec cat calls n dies ss (ss[i := Running])"
| give_up: "i < length ss \<Longrightarrow> pooled cat calls i \<Longrightarrow> ss ! i = Waiting \<Longrightarrow> dies \<Longrightarrow>
    batch_step exec cat calls n dies ss (ss[i := Finished (cancelled_result i (calls ! i))])"
| serial_start: "i < length ss \<Longrightarrow> \<not> pooled cat calls i \<Longrightarrow> ss ! i = Waiting \<Longrightarrow> serial_turn cat calls ss i \<Longrightarrow>
    batch_step exec cat calls n dies ss (ss[i := Running])"
| serial_skip: "i < length ss \<Longrightarrow> \<not> pooled cat calls i \<Longrightarrow> ss ! i = Waiting \<Longrightarrow> serial_turn cat calls ss i \<Longrightarrow>
    dies \<Longrightarrow> batch_step exec cat calls n dies ss (ss[i := Finished (cancelled_result i (calls ! i))])"
| finish: "i < length ss \<Longrightarrow> ss ! i = Running \<Longrightarrow>
    batch_step exec cat calls n dies ss (ss[i := Finished (execute_bounded (exec i) cat i (calls ! i))])"

inductive batch_reach ::
    "executors \<Rightarrow> catalog option \<Rightarrow> tool_call_msg list \<Rightarrow> nat \<Rightarrow> bool \<Rightarrow> nat \<Rightarrow> slot list \<Rightarrow> bool"
  for exec cat calls n dies where
  start: "batch_reach exec cat calls n dies 0 (replicate (length calls) Waiting)"
| step: "batch_reach exec cat calls n dies k ss \<Longrightarrow> batch_step exec cat calls n dies ss ss' \<Longrightarrow>
    batch_reach exec cat calls n dies (Suc k) ss'"

inductive_cases batch_stepE: "batch_step exec cat calls n dies ss ss'"

section \<open>Invariants\<close>

definition slot_ok :: "executors \<Rightarrow> catalog option \<Rightarrow> tool_call_msg list \<Rightarrow> bool \<Rightarrow> nat \<Rightarrow> slot \<Rightarrow> bool" where
  "slot_ok exec cat calls dies i s =
     (case s of Finished r \<Rightarrow> r = execute_bounded (exec i) cat i (calls ! i) \<or>
          (dies \<and> r = cancelled_result i (calls ! i))
      | _ \<Rightarrow> True)"

definition alone :: "catalog option \<Rightarrow> tool_call_msg list \<Rightarrow> slot list \<Rightarrow> bool" where
  \<comment> \<open>a running serialized call is the only running call, and all pool calls are done\<close>
  "alone cat calls ss =
     (\<forall>i < length ss. \<not> pooled cat calls i \<and> ss ! i = Running \<longrightarrow>
        serial_turn cat calls ss i \<and> (\<forall>j < length ss. j \<noteq> i \<longrightarrow> ss ! j \<noteq> Running))"

definition serial_order :: "catalog option \<Rightarrow> tool_call_msg list \<Rightarrow> slot list \<Rightarrow> bool" where
  "serial_order cat calls ss =
     (\<forall>i < length ss. \<not> pooled cat calls i \<and> ss ! i \<noteq> Waiting \<longrightarrow> serial_turn cat calls ss i)"

definition batch_inv ::
    "executors \<Rightarrow> catalog option \<Rightarrow> tool_call_msg list \<Rightarrow> nat \<Rightarrow> bool \<Rightarrow> slot list \<Rightarrow> bool" where
  "batch_inv exec cat calls n dies ss =
     (length ss = length calls \<and> (\<forall>i < length ss. slot_ok exec cat calls dies i (ss ! i)) \<and>
      serial_order cat calls ss \<and> running_count ss \<le> n)"

lemma running_count_Cons: "running_count (s # ss) = (if s = Running then 1 else 0) + running_count ss"
  by (simp add: running_count_def)

lemma running_update:
  "i < length ss \<Longrightarrow> running_count (ss[i := s]) + (if ss ! i = Running then 1 else 0) =
     running_count ss + (if s = Running then 1 else 0)"
proof (induction ss arbitrary: i)
  case (Cons x xs)
  then show ?case by (cases i) (simp_all add: running_count_Cons)
qed simp

lemma is_finished_simps [simp]: "is_finished (Finished r)" "\<not> is_finished Waiting" "\<not> is_finished Running"
  by (simp_all add: is_finished_def)

lemma serial_turn_update:
  "serial_turn cat calls ss i \<Longrightarrow> \<not> is_finished (ss ! k) \<Longrightarrow> k < length ss \<Longrightarrow>
     serial_turn cat calls (ss[k := s]) i"
  by (auto simp: serial_turn_def nth_list_update)

lemma serial_turn_pool: "serial_turn cat calls ss i \<Longrightarrow> k < length ss \<Longrightarrow> pooled cat calls k \<Longrightarrow> is_finished (ss ! k)"
  by (simp add: serial_turn_def)

lemma serial_order_update:
  assumes o: "serial_order cat calls ss" and k: "k < length ss" "\<not> is_finished (ss ! k)"
    and t: "pooled cat calls k \<or> s = Waiting \<or> serial_turn cat calls ss k"
  shows "serial_order cat calls (ss[k := s])"
  using o k t unfolding serial_order_def
  by (metis length_list_update nth_list_update_eq nth_list_update_neq serial_turn_update)

lemma none_running: "(\<forall>j < length ss. ss ! j \<noteq> Running) \<Longrightarrow> running_count ss = 0"
  by (auto simp: running_count_def filter_empty_conv in_set_conv_nth)

lemma serial_turn_idle:
  assumes "serial_order cat calls ss" "serial_turn cat calls ss i" "i < length ss" "ss ! i = Waiting"
    "\<not> pooled cat calls i"
  shows "running_count ss = 0"
proof (rule none_running, intro allI impI)
  fix j assume j: "j < length ss"
  show "ss ! j \<noteq> Running"
  proof (cases "pooled cat calls j \<or> j < i")
    case True
    then have "is_finished (ss ! j)" using assms(2) j by (auto simp: serial_turn_def)
    then show ?thesis by auto
  next
    case False
    show ?thesis
    proof
      assume r: "ss ! j = Running"
      then have "serial_turn cat calls ss j" using assms(1) False j by (auto simp: serial_order_def)
      moreover have "i < j" using False r assms(4) by (metis linorder_neqE_nat slot.distinct(1))
      ultimately have "is_finished (ss ! i)" using assms(3) by (simp add: serial_turn_def)
      then show False using assms(4) by simp
    qed
  qed
qed

lemma slot_ok_simps [simp]:
  "slot_ok exec cat calls dies i Running" "slot_ok exec cat calls dies i Waiting"
  "slot_ok exec cat calls dies i (Finished (execute_bounded (exec i) cat i (calls ! i)))"
  "dies \<Longrightarrow> slot_ok exec cat calls dies i (Finished (cancelled_result i (calls ! i)))"
  by (simp_all add: slot_ok_def)

lemma batch_inv_update:
  assumes inv: "batch_inv exec cat calls n dies ss" and i: "i < length ss" "\<not> is_finished (ss ! i)"
    and t: "pooled cat calls i \<or> s = Waiting \<or> serial_turn cat calls ss i"
    and ok: "slot_ok exec cat calls dies i s" and r: "s = Running \<Longrightarrow> running_count ss < n"
  shows "batch_inv exec cat calls n dies (ss[i := s])"
proof -
  have "serial_order cat calls (ss[i := s])"
    using inv i t by (intro serial_order_update) (auto simp: batch_inv_def)
  moreover have "running_count (ss[i := s]) \<le> n"
    using running_update[OF i(1), of s] inv r by (auto simp: batch_inv_def split: if_splits)
  ultimately show ?thesis
    using inv ok i by (auto simp: batch_inv_def nth_list_update)
qed

lemma batch_inv_step:
  assumes st: "batch_step exec cat calls n dies ss ss'" and inv: "batch_inv exec cat calls n dies ss" and n: "0 < n"
  shows "batch_inv exec cat calls n dies ss'"
  using st
proof (cases rule: batch_step.cases)
  case (serial_start i)
  moreover have "running_count ss = 0"
    using serial_start inv by (intro serial_turn_idle) (auto simp: batch_inv_def)
  ultimately show ?thesis using inv n by (auto intro!: batch_inv_update)
next
  case (finish i)
  then have "pooled cat calls i \<or> serial_turn cat calls ss i"
    using inv by (auto simp: batch_inv_def serial_order_def)
  with finish inv show ?thesis by (auto intro!: batch_inv_update)
qed (use inv in \<open>auto intro!: batch_inv_update\<close>)

lemma batch_inv_reach:
  assumes "batch_reach exec cat calls n dies k ss" "0 < n"
  shows "batch_inv exec cat calls n dies ss"
  using assms
proof (induction rule: batch_reach.induct)
  case start
  show ?case
    by (auto simp: batch_inv_def serial_order_def running_count_def filter_empty_conv)
qed (auto intro: batch_inv_step)

lemma inv_alone: "batch_inv exec cat calls n dies ss \<Longrightarrow> alone cat calls ss"
  unfolding alone_def
proof (intro allI impI conjI; elim conjE)
  fix i
  assume inv: "batch_inv exec cat calls n dies ss" and i: "i < length ss" "\<not> pooled cat calls i" "ss ! i = Running"
  then show st: "serial_turn cat calls ss i" by (simp add: batch_inv_def serial_order_def)
  fix j assume j: "j < length ss" "j \<noteq> i"
  show "ss ! j \<noteq> Running"
  proof
    assume r: "ss ! j = Running"
    then have "\<not> pooled cat calls j" "\<not> j < i" using st j by (auto simp: serial_turn_def)
    then have "serial_turn cat calls ss j" "i < j" using inv r j by (auto simp: batch_inv_def serial_order_def)
    then have "is_finished (ss ! i)" using i(1) by (simp add: serial_turn_def)
    then show False using i by simp
  qed
qed

section \<open>Progress and termination\<close>

definition slot_work :: "slot \<Rightarrow> nat" where
  "slot_work s = (case s of Waiting \<Rightarrow> 2 | Running \<Rightarrow> 1 | Finished _ \<Rightarrow> 0)"

definition batch_work :: "slot list \<Rightarrow> nat" where
  "batch_work ss = sum_list (map slot_work ss)"

lemma batch_work_update:
  "i < length ss \<Longrightarrow> batch_work (ss[i := s]) + slot_work (ss ! i) = batch_work ss + slot_work s"
proof (induction ss arbitrary: i)
  case (Cons x xs)
  then show ?case by (cases i) (auto simp: batch_work_def)
qed simp

lemma batch_work_less: "i < length ss \<Longrightarrow> slot_work s < slot_work (ss ! i) \<Longrightarrow> batch_work (ss[i := s]) < batch_work ss"
  using batch_work_update[of i ss s] by simp

lemma slot_work_simps [simp]: "slot_work Waiting = 2" "slot_work Running = 1" "slot_work (Finished r) = 0"
  by (simp_all add: slot_work_def)

lemma batch_work_step: "batch_step exec cat calls n dies ss ss' \<Longrightarrow> batch_work ss' < batch_work ss"
  by (erule batch_stepE) (simp_all add: batch_work_less)

lemma batch_steps_bound: "batch_reach exec cat calls n dies k ss \<Longrightarrow> k + batch_work ss \<le> 2 * length calls"
proof (induction rule: batch_reach.induct)
  case start
  show ?case by (simp add: batch_work_def slot_work_def map_replicate_const sum_list_replicate)
next
  case (step k ss ss')
  then show ?case using batch_work_step[OF step.hyps(2)] by simp
qed

lemma batch_progress:
  assumes n: "0 < n" and i: "i < length ss" "\<not> is_finished (ss ! i)"
  shows "\<exists>ss'. batch_step exec cat calls n dies ss ss'"
proof (cases "\<exists>j < length ss. ss ! j = Running")
  case True
  then show ?thesis using batch_step.finish by blast
next
  case False
  then have idle: "running_count ss < n" using none_running n by simp
  have w: "j < length ss \<Longrightarrow> \<not> is_finished (ss ! j) \<Longrightarrow> ss ! j = Waiting" for j
    using False by (cases "ss ! j") auto
  show ?thesis
  proof (cases "\<exists>j < length ss. pooled cat calls j \<and> ss ! j = Waiting")
    case True
    then show ?thesis using batch_step.acquire idle by blast
  next
    case nopool: False
    let ?P = "\<lambda>j. j < length ss \<and> \<not> is_finished (ss ! j)"
    define j where "j = (LEAST j. ?P j)"
    have j: "?P j" unfolding j_def by (rule LeastI[of ?P i]) (use i in blast)
    have least: "\<not> ?P k" if "k < j" for k using that not_less_Least j_def by blast
    have "serial_turn cat calls ss j"
      using nopool w least j by (auto simp: serial_turn_def dest: less_trans)
    moreover have "\<not> pooled cat calls j" "ss ! j = Waiting" using nopool w j by auto
    ultimately show ?thesis using batch_step.serial_start j by blast
  qed
qed

section \<open>Properties\<close>

text \<open>C18. In every interleaving of a batch at most n calls run at once, and a serialized call
(mutating, or declared unsafe to run beside others) runs alone, after every pool call is done and
in the order of the batch.\<close>

theorem serialized_runs_alone:
  assumes "batch_reach exec cat calls n dies k ss" "0 < n"
  shows "alone cat calls ss \<and> running_count ss \<le> n"
  using batch_inv_reach[OF assms] inv_alone by (auto simp: batch_inv_def)

definition sample_catalog :: catalog where
  "sample_catalog = [(''Bash'', \<lparr>tl_name = ''Bash'', tl_description = [], tl_schema = None,
     tl_mutability = Mutating, tl_timeout = 0, tl_safe = None, tl_destructive = True\<rparr>)]"

definition sample_calls :: "tool_call_msg list" where
  "sample_calls = [\<lparr>tc_id = ''1'', tc_name = ''Bash'', tc_input = None\<rparr>,
     \<lparr>tc_id = ''2'', tc_name = ''Read'', tc_input = None\<rparr>]"

theorem serialized_runs_alone_witness:
  "running_count [Waiting, Running] \<le> 1 \<and> alone (Some sample_catalog) sample_calls [Waiting, Running]"
proof -
  let ?ex = "\<lambda>i. None :: (string \<Rightarrow> raw_message \<Rightarrow> exec_out) option"
  have "batch_reach ?ex (Some sample_catalog) sample_calls 1 False 0 [Waiting, Waiting]"
    using batch_reach.start[of ?ex "Some sample_catalog" sample_calls 1 False] by (simp add: sample_calls_def numeral_2_eq_2)
  moreover have "pooled (Some sample_catalog) sample_calls 1" by code_simp
  ultimately have "batch_reach ?ex (Some sample_catalog) sample_calls 1 False (Suc 0) ([Waiting, Waiting][1 := Running])"
    by (intro batch_reach.step[of _ _ _ _ _ 0 "[Waiting, Waiting]"] batch_step.acquire) (simp_all add: running_count_def)
  from serialized_runs_alone[OF this] show ?thesis by simp
qed

text \<open>C35. No interleaving deadlocks or runs forever: while a call is unfinished some goroutine can
step, and a batch of m calls is over after at most 2m steps.\<close>

theorem batch_terminates:
  assumes "batch_reach exec cat calls n dies k ss" "0 < n"
  shows "k \<le> 2 * length calls \<and>
    ((\<exists>ss'. batch_step exec cat calls n dies ss ss') \<or> (\<forall>i < length calls. is_finished (ss ! i)))"
proof -
  have len: "length ss = length calls" using batch_inv_reach[OF assms] by (simp add: batch_inv_def)
  show ?thesis
    using batch_steps_bound[OF assms(1)] batch_progress[OF assms(2)] len by (metis add_leD1)
qed

theorem batch_terminates_witness:
  "\<exists>ss'. batch_step (\<lambda>i. None) (Some sample_catalog) sample_calls 6 False [Waiting, Waiting] ss'"
proof -
  let ?ex = "\<lambda>i. None :: (string \<Rightarrow> raw_message \<Rightarrow> exec_out) option"
  have "batch_reach ?ex (Some sample_catalog) sample_calls 6 False 0 [Waiting, Waiting]"
    using batch_reach.start[of ?ex "Some sample_catalog" sample_calls 6 False] by (simp add: sample_calls_def numeral_2_eq_2)
  from batch_terminates[OF this] show ?thesis by (auto simp: sample_calls_def)
qed

text \<open>Whatever the interleaving, a finished batch has one result per call, in arrival order:
with a live context exactly the result of the batch function, and with a context that dies each slot is that
result or the cancellation of its own call.\<close>

theorem batch_results_in_order:
  assumes "batch_reach exec cat calls n dies k ss" "0 < n" "i < length calls" "ss ! i = Finished r"
  shows "(r = dispatch_batch exec cat calls ! i \<or> (dies \<and> r = cancelled_result i (calls ! i))) \<and>
    tr_index r = i \<and> tr_name r = tc_name (calls ! i)"
proof -
  have inv: "batch_inv exec cat calls n dies ss" by (rule batch_inv_reach[OF assms(1,2)])
  then have "i < length ss" using assms(3) by (simp add: batch_inv_def)
  with inv have "slot_ok exec cat calls dies i (ss ! i)" unfolding batch_inv_def by blast
  then have r: "r = execute_bounded (exec i) cat i (calls ! i) \<or> (dies \<and> r = cancelled_result i (calls ! i))"
    using assms(4) by (simp add: slot_ok_def)
  moreover have "tr_index (execute_bounded (exec i) cat i c) = i \<and> tr_name (execute_bounded (exec i) cat i c) = tc_name c" for c
    by (auto simp: execute_bounded_def execute_one_def Let_def split: option.splits)
  ultimately show ?thesis
    using assms(3) by (auto simp: dispatch_batch_def cancelled_result_def)
qed

theorem batch_results_in_order_witness:
  "\<exists>r. r = dispatch_batch (\<lambda>i. None) (Some sample_catalog) sample_calls ! 1 \<and> tr_index r = 1 \<and> tr_name r = ''Read''"
proof -
  let ?ex = "\<lambda>i. None :: (string \<Rightarrow> raw_message \<Rightarrow> exec_out) option"
  let ?r = "execute_bounded (?ex 1) (Some sample_catalog) 1 (sample_calls ! 1)"
  have 0: "batch_reach ?ex (Some sample_catalog) sample_calls 6 False 0 [Waiting, Waiting]"
    using batch_reach.start[of ?ex "Some sample_catalog" sample_calls 6 False] by (simp add: sample_calls_def numeral_2_eq_2)
  have "pooled (Some sample_catalog) sample_calls 1" by code_simp
  then have 1: "batch_reach ?ex (Some sample_catalog) sample_calls 6 False 1 ([Waiting, Waiting][1 := Running])"
    using batch_reach.step[OF 0 batch_step.acquire[of 1]] by (simp add: running_count_def)
  have "batch_reach ?ex (Some sample_catalog) sample_calls 6 False 2 (([Waiting, Waiting][1 := Running])[1 := Finished ?r])"
    using batch_reach.step[OF 1 batch_step.finish[of 1]] by (simp add: numeral_2_eq_2)
  from batch_results_in_order[OF this, of 1 ?r] show ?thesis by (auto simp: sample_calls_def)
qed

end
