(* ===== verification/Projector.thy ===== *)
theory Projector
  imports Utf8 Manager Batch "HOL-Library.Signed_Division"
begin

text \<open>
  The Projector of \<^verbatim>\<open>kit/session/projector.go\<close>: it builds the message window the model sees
  for a turn from the transcript alone. A reset point (a boundary, a full reset or a compaction
  marker recorded before the turn's user message) decides the seed message; the lines after an
  anchor fold into assistant batches, tool results and user messages; a bound keeps the most recent
  messages without starting at a tool result. Lines are those \<open>read_all\<close> returns.
\<close>

section \<open>Messages\<close>

record thinking_block =
  tb_type :: string
  tb_text :: string
  tb_signature :: string
  tb_data :: string

record image_block =
  im_ref :: string
  im_media :: string

record rich_block =
  rb_text :: string
  rb_image :: "image_block option"

record message =
  ms_role :: string
  ms_content :: string
  ms_blocks :: "rich_block list"
  ms_tool_calls :: "tool_call_msg list"
  ms_thinking :: "thinking_block list"
  ms_tool_call :: string
  ms_tool_name :: string
  ms_is_error :: bool

abbreviation (input) RoleUser :: string where "RoleUser \<equiv> ''user''"
abbreviation (input) RoleAssistant :: string where "RoleAssistant \<equiv> ''assistant''"
abbreviation (input) RoleTool :: string where "RoleTool \<equiv> ''tool''"

definition zero_message :: message where
  "zero_message = \<lparr>ms_role = [], ms_content = [], ms_blocks = [], ms_tool_calls = [],
     ms_thinking = [], ms_tool_call = [], ms_tool_name = [], ms_is_error = False\<rparr>"

definition is_tool :: "message \<Rightarrow> bool" where
  "is_tool m = (ms_role m = RoleTool)"

section \<open>Reading lines\<close>

definition block_of :: "json \<Rightarrow> content_block option" where
  \<comment> \<open>decoding one element of a content array; \<open>None\<close> is an error\<close>
  "block_of v =
     (let mk = (\<lambda>fs. do {
          ty \<leftarrow> get_field as_str ''type'' [] fs; txt \<leftarrow> get_field as_str ''text'' [] fs;
          ref \<leftarrow> get_field as_str ''dataRef'' [] fs; med \<leftarrow> get_field as_str ''mediaType'' [] fs;
          w \<leftarrow> get_field as_int64 ''width'' 0 fs; h \<leftarrow> get_field as_int64 ''height'' 0 fs;
          ow \<leftarrow> get_field as_int64 ''origWidth'' 0 fs; oh \<leftarrow> get_field as_int64 ''origHeight'' 0 fs;
          os \<leftarrow> get_field as_int64 ''origSize'' 0 fs; sc \<leftarrow> get_field as_bool ''scaled'' False fs;
          Some \<lparr>cb_type = ty, cb_text = txt, cb_data_ref = ref, cb_media_type = med, cb_width = w,
            cb_height = h, cb_orig_width = ow, cb_orig_height = oh, cb_orig_size = os,
            cb_scaled = sc, cb_data = []\<rparr> })
      in case v of JObj fs \<Rightarrow> mk fs | JNull \<Rightarrow> mk [] | _ \<Rightarrow> None)"

fun blocks_of :: "json \<Rightarrow> content_block list option" where
  "blocks_of (JArr vs) = those (map block_of vs)"
| "blocks_of JNull = Some []"
| "blocks_of _ = None"

definition extract_text :: "line option \<Rightarrow> string" where
  "extract_text lo =
     (case lo of
        None \<Rightarrow> []
      | Some l \<Rightarrow>
          (case ln_content l of
             None \<Rightarrow> ln_text l
           | Some v \<Rightarrow> (case blocks_of v of Some bs \<Rightarrow> concat (map cb_text bs) | None \<Rightarrow> ln_text l)))"

definition image_blocks_of :: "line option \<Rightarrow> rich_block list" where
  "image_blocks_of lo =
     (case lo of
        None \<Rightarrow> []
      | Some l \<Rightarrow>
          (case ln_content l of
             None \<Rightarrow> []
           | Some v \<Rightarrow>
               (case blocks_of v of
                  None \<Rightarrow> []
                | Some bs \<Rightarrow>
                    map (\<lambda>b. \<lparr>rb_text = [], rb_image = Some \<lparr>im_ref = cb_data_ref b, im_media = cb_media_type b\<rparr>\<rparr>)
                      (filter (\<lambda>b. cb_type b = ''image'' \<and> cb_data_ref b \<noteq> []) bs))))"

definition seed_message :: "string \<Rightarrow> line option \<Rightarrow> message" where
  "seed_message content intent =
     (let seed = zero_message\<lparr>ms_role := RoleUser, ms_content := content\<rparr>;
          imgs = image_blocks_of intent
      in if imgs = [] then seed
         else seed\<lparr>ms_blocks := \<lparr>rb_text = content, rb_image = None\<rparr> # imgs\<rparr>)"

definition seed_content :: "string \<Rightarrow> string \<Rightarrow> string" where
  "seed_content summary intent =
     (if summary = [] then intent
      else ''Task summary (mechanical, post-boundary):'' @ [CHR 10] @ summary @
        [CHR 10, CHR 10] @ ''--- Current request ---'' @ [CHR 10] @ intent)"

fun plain_content :: "raw_message \<Rightarrow> string" where
  \<comment> \<open>a JSON string is decoded; any other value is its text\<close>
  "plain_content None = []"
| "plain_content (Some (JStr s)) = s"
| "plain_content (Some v) = json_text v"

definition parse_thinking_block :: "raw_message \<Rightarrow> thinking_block option" where
  "parse_thinking_block raw =
     (let dec = (\<lambda>fs. do {
          ty \<leftarrow> get_field as_str ''type'' [] fs; th \<leftarrow> get_field as_str ''thinking'' [] fs;
          sg \<leftarrow> get_field as_str ''signature'' [] fs; dt \<leftarrow> get_field as_str ''data'' [] fs;
          (if ty = ''thinking'' then Some \<lparr>tb_type = ty, tb_text = th, tb_signature = sg, tb_data = []\<rparr>
           else if ty = ''redacted_thinking'' then Some \<lparr>tb_type = ty, tb_text = [], tb_signature = [], tb_data = dt\<rparr>
           else None) })
      in case raw of Some (JObj fs) \<Rightarrow> dec fs | _ \<Rightarrow> None)"

section \<open>Positions\<close>

definition projected_user_idx :: "line list \<Rightarrow> string \<Rightarrow> nat option" where
  "projected_user_idx ls turn =
     (case last_index (\<lambda>l. ln_type l = TypeUserMessage \<and> ln_turn l = turn) ls of
        Some i \<Rightarrow> Some i
      | None \<Rightarrow> last_index (\<lambda>l. ln_type l = TypeUserMessage) ls)"

definition last_before_user :: "(line \<Rightarrow> bool) \<Rightarrow> line list \<Rightarrow> string \<Rightarrow> nat option" where
  \<comment> \<open>the scan shape of the reset points: the last matching line strictly before the user message\<close>
  "last_before_user P ls turn =
     (case projected_user_idx ls turn of
        None \<Rightarrow> last_index P ls
      | Some u \<Rightarrow> last_index P (take u ls))"

definition compaction_marker_idx :: "line list \<Rightarrow> string \<Rightarrow> nat option" where
  "compaction_marker_idx = last_before_user (\<lambda>l. ln_type l = TypeCompaction)"

definition same_turn_marker_idx :: "line list \<Rightarrow> string \<Rightarrow> nat option" where
  "same_turn_marker_idx ls turn = last_index (\<lambda>l. ln_type l = TypeCompaction \<and> ln_turn l = turn) ls"

definition full_reset_boundary_idx :: "line list \<Rightarrow> string \<Rightarrow> nat option" where
  "full_reset_boundary_idx = last_before_user (\<lambda>l. ln_type l = TypeBoundary \<and> ln_cause l = ''context-reset'')"

definition split_at_reset_boundary :: "line list \<Rightarrow> string \<Rightarrow> line list \<times> line list" where
  "split_at_reset_boundary ls turn =
     (case last_before_user (\<lambda>l. ln_type l = TypeBoundary) ls turn of
        Some b \<Rightarrow> (take b ls, drop (Suc b) ls)
      | None \<Rightarrow>
          (case projected_user_idx ls turn of
             Some u \<Rightarrow> (take u ls, drop u ls)
           | None \<Rightarrow> (ls, [])))"

definition boundary_after_marker :: "line list \<Rightarrow> nat \<Rightarrow> string \<Rightarrow> bool" where
  "boundary_after_marker ls m turn =
     (let scope = (case projected_user_idx ls turn of None \<Rightarrow> ls | Some u \<Rightarrow> take u ls)
      in list_ex (\<lambda>l. ln_type l = TypeBoundary) (drop (Suc m) scope))"

definition turn_anchor_of :: "line list \<Rightarrow> string \<Rightarrow> nat" where
  "turn_anchor_of ls turn =
     (case last_index (\<lambda>l. ln_type l = TypeUserMessage \<and> ln_turn l = turn) ls of
        Some i \<Rightarrow> Suc i | None \<Rightarrow> 0)"

definition pick_last :: "(line \<Rightarrow> bool) \<Rightarrow> line list \<Rightarrow> line option" where
  "pick_last P ls = map_option (\<lambda>i. ls ! i) (last_index P ls)"

definition find_intent_line :: "line list \<Rightarrow> line list \<Rightarrow> string \<Rightarrow> line option" where
  "find_intent_line after before turn =
     (case pick_last (\<lambda>l. ln_type l = TypeUserMessage \<and> (turn = [] \<or> ln_turn l = turn)) after of
        Some l \<Rightarrow> Some l
      | None \<Rightarrow>
     (case pick_last (\<lambda>l. ln_type l = TypeUserMessage) after of
        Some l \<Rightarrow> Some l
      | None \<Rightarrow>
     (case (if turn \<noteq> [] then pick_last (\<lambda>l. ln_type l = TypeUserMessage \<and> ln_turn l = turn) before else None) of
        Some l \<Rightarrow> Some l
      | None \<Rightarrow> pick_last (\<lambda>l. ln_type l = TypeUserMessage) before)))"

definition find_current_intent :: "line list \<Rightarrow> line list \<Rightarrow> string \<Rightarrow> string" where
  "find_current_intent after before turn = extract_text (find_intent_line after before turn)"

section \<open>Folding lines into messages\<close>

record fold_state =
  fo_out :: "message list"
  fo_pending :: "tool_call_msg list"
  fo_thinking :: "thinking_block list"
  fo_names :: "string \<Rightarrow> string option"

definition zero_fold :: fold_state where
  "zero_fold = \<lparr>fo_out = [], fo_pending = [], fo_thinking = [], fo_names = Map.empty\<rparr>"

definition batch_message :: "thinking_block list \<Rightarrow> tool_call_msg list \<Rightarrow> message" where
  "batch_message th batch = zero_message\<lparr>ms_role := RoleAssistant, ms_thinking := th, ms_tool_calls := batch\<rparr>"

definition user_text_message :: "string \<Rightarrow> message" where
  "user_text_message s = zero_message\<lparr>ms_role := RoleUser, ms_content := s\<rparr>"

definition tool_message :: "line \<Rightarrow> string \<Rightarrow> message" where
  "tool_message l name = zero_message\<lparr>ms_role := RoleTool, ms_tool_call := ln_tool_call l,
     ms_tool_name := name, ms_content := plain_content (ln_output l), ms_is_error := ln_is_error l\<rparr>"

definition assistant_text_message :: "string \<Rightarrow> thinking_block list \<Rightarrow> message" where
  "assistant_text_message s th = zero_message\<lparr>ms_role := RoleAssistant, ms_content := s, ms_thinking := th\<rparr>"

definition flush_batch :: "string set \<Rightarrow> fold_state \<Rightarrow> fold_state \<times> bool" where
  \<comment> \<open>only answered calls are emitted; the boolean is the closure's result\<close>
  "flush_batch has f =
     (let batch = filter (\<lambda>tc. tc_id tc \<in> has) (fo_pending f);
          f' = f\<lparr>fo_pending := [], fo_thinking := []\<rparr>
      in if batch \<noteq> [] then (f'\<lparr>fo_out := fo_out f @ [batch_message (fo_thinking f) batch]\<rparr>, True)
         else (f', False))"

definition emit :: "message \<Rightarrow> fold_state \<Rightarrow> fold_state" where
  "emit m f = f\<lparr>fo_out := fo_out f @ [m]\<rparr>"

definition stash_call :: "line \<Rightarrow> fold_state \<Rightarrow> fold_state" where
  "stash_call l f =
     f\<lparr>fo_pending := fo_pending f @ [\<lparr>tc_id = ln_tool_call l, tc_name = ln_name l, tc_input = ln_input l\<rparr>],
       fo_names := (fo_names f)(ln_tool_call l \<mapsto> ln_name l)\<rparr>"

definition stash_thinking :: "line \<Rightarrow> fold_state \<Rightarrow> fold_state" where
  "stash_thinking l f =
     (case parse_thinking_block (ln_content l) of
        Some tb \<Rightarrow> f\<lparr>fo_thinking := fo_thinking f @ [tb]\<rparr> | None \<Rightarrow> f)"

definition fold_result :: "string set \<Rightarrow> line \<Rightarrow> fold_state \<Rightarrow> fold_state" where
  "fold_result has l f =
     (let f' = fst (flush_batch has f)
      in case fo_names f' (ln_tool_call l) of
           None \<Rightarrow> f'
         | Some name \<Rightarrow> emit (tool_message l name) f')"

definition fold_assistant :: "string set \<Rightarrow> line \<Rightarrow> fold_state \<Rightarrow> fold_state" where
  "fold_assistant has l f =
     (let th = fo_thinking f; (f', emitted) = flush_batch has f
      in emit (assistant_text_message (ln_text l) (if emitted then [] else th)) f')"

definition fold_line :: "string set \<Rightarrow> line \<Rightarrow> fold_state \<Rightarrow> fold_state" where
  "fold_line has l f =
     (if ln_type l = TypeToolCall then stash_call l f
      else if ln_type l = TypeSteeringDelivery then
        emit (user_text_message (ln_text l)) (fst (flush_batch has f))
      else if ln_type l = TypeRawThinking then stash_thinking l f
      else if ln_type l = TypeToolResult then fold_result has l f
      else if ln_type l = TypeAssistantMessage then fold_assistant has l f
      else f)"

fun fold_lines :: "string set \<Rightarrow> line list \<Rightarrow> fold_state \<Rightarrow> fold_state" where
  "fold_lines has [] f = f"
| "fold_lines has (l # ls) f = fold_lines has ls (fold_line has l f)"

definition fold_window :: "line list \<Rightarrow> nat \<Rightarrow> string \<Rightarrow> bool \<Rightarrow> line list" where
  \<comment> \<open>the lines the loop does not skip\<close>
  "fold_window ls n turn filter_turn = filter (\<lambda>l. \<not> filter_turn \<or> ln_turn l = turn) (drop n ls)"

definition result_ids_of :: "line list \<Rightarrow> nat \<Rightarrow> string \<Rightarrow> bool \<Rightarrow> string set" where
  "result_ids_of ls n turn filter_turn =
     set (map ln_tool_call
       (filter (\<lambda>l. (\<not> filter_turn \<or> ln_turn l = turn) \<and> ln_type l = TypeToolResult) (drop n ls)))"

definition fold_exchanges :: "line list \<Rightarrow> nat \<Rightarrow> string \<Rightarrow> bool \<Rightarrow> message list" where
  "fold_exchanges ls n turn filter_turn =
     (let has = result_ids_of ls n turn filter_turn
      in fo_out (fst (flush_batch has (fold_lines has (fold_window ls n turn filter_turn) zero_fold))))"

definition accumulate_mid_turn :: "line list \<Rightarrow> string \<Rightarrow> message list" where
  "accumulate_mid_turn ls turn = fold_exchanges ls (turn_anchor_of ls turn) turn True"

section \<open>Bounding the window\<close>

definition mid_turn_window :: nat where
  "mid_turn_window = 64"

definition bound_mid_turn :: "message list \<Rightarrow> message list" where
  "bound_mid_turn mid =
     (if length mid \<le> mid_turn_window then mid
      else dropWhile is_tool (drop (length mid - mid_turn_window) mid))"

definition opt_list :: "json list \<Rightarrow> json" where
  \<comment> \<open>a nil slice is null\<close>
  "opt_list vs = (if vs = [] then JNull else JArr vs)"

definition message_json :: "message \<Rightarrow> json" where
  "message_json m = JObj [
     (''Role'', JStr (ms_role m)), (''Content'', JStr (ms_content m)),
     (''Blocks'', opt_list (map (\<lambda>b. JObj [(''Text'', JStr (rb_text b)),
        (''Image'', (case rb_image b of None \<Rightarrow> JNull
           | Some i \<Rightarrow> JObj [(''Ref'', JStr (im_ref i)), (''MediaType'', JStr (im_media i))]))]) (ms_blocks m))),
     (''ToolCalls'', opt_list (map (\<lambda>t. JObj [(''id'', JStr (tc_id t)), (''name'', JStr (tc_name t)),
        (''input'', case tc_input t of None \<Rightarrow> JNull | Some v \<Rightarrow> v)]) (ms_tool_calls m))),
     (''ThinkingBlocks'', opt_list (map (\<lambda>b. JObj [(''Type'', JStr (tb_type b)), (''Text'', JStr (tb_text b)),
        (''Signature'', JStr (tb_signature b)), (''Data'', JStr (tb_data b))]) (ms_thinking m))),
     (''ToolCallID'', JStr (ms_tool_call m)), (''ToolName'', JStr (ms_tool_name m)),
     (''IsError'', JBool (ms_is_error m))]"

definition message_cost :: "message \<Rightarrow> int" where
  "message_cost m = int (length (json_text (message_json m))) div 4"

definition group_cost :: "message list \<Rightarrow> nat \<Rightarrow> nat \<Rightarrow> int" where
  "group_cost w n m = sum_list (map message_cost (take (m - n) (drop n w)))"

fun budget_cut :: "message list \<Rightarrow> int \<Rightarrow> nat \<Rightarrow> nat \<Rightarrow> int \<Rightarrow> nat" where
  \<comment> \<open>the backward loop: the indexes below \<open>i\<close> are left\<close>
  "budget_cut w allowance 0 c t = c"
| "budget_cut w allowance (Suc i) c t =
     (if is_tool (w ! i) then budget_cut w allowance i c t
      else (let cost = group_cost w i c
            in if c < length w \<and> t + cost > allowance then c
               else if t + cost > allowance then i
               else budget_cut w allowance i i (t + cost)))"

definition bound_compaction_tail_by_budget :: "message list \<Rightarrow> int \<Rightarrow> message list" where
  "bound_compaction_tail_by_budget w allowance =
     (if w = [] then []
      else dropWhile is_tool (drop (budget_cut w allowance (length w) (length w) 0) w))"

definition tail_allowance :: "int \<Rightarrow> string \<Rightarrow> int" where
  \<comment> \<open>64-bit arithmetic; the division truncates\<close>
  "tail_allowance budget summary =
     max 0 (sint (word_of_int (budget * 60) :: 64 word) sdiv 100 - int (length summary) div 4)"

definition bound_compaction_tail :: "int \<Rightarrow> message list \<Rightarrow> string \<Rightarrow> message list" where
  "bound_compaction_tail budget w summary =
     (if budget \<le> 0 then bound_mid_turn w
      else bound_compaction_tail_by_budget w (tail_allowance budget summary))"

section \<open>The mechanical summary\<close>

definition file_bearing_tools :: "string list" where
  "file_bearing_tools = [''Read'', ''Write'', ''Edit'', ''Glob'', ''Grep'', ''Bash'']"

definition extract_file_paths :: "string \<Rightarrow> raw_message \<Rightarrow> string list" where
  "extract_file_paths tool input =
     (if tool \<notin> set file_bearing_tools then []
      else (case input of
              Some (JObj fs) \<Rightarrow>
                List.map_filter (\<lambda>k. case obj_lookup fs k of
                    Some (JStr v) \<Rightarrow> if v \<noteq> [] then Some v else None
                  | _ \<Rightarrow> None) [''file_path'', ''path'']
            | _ \<Rightarrow> []))"

record summary_scan =
  su_user :: string
  su_assistant :: string
  su_files :: "string list"

fun add_new :: "string list \<Rightarrow> string list \<Rightarrow> string list" where
  "add_new seen [] = seen"
| "add_new seen (f # fs) = add_new (if f \<in> set seen then seen else seen @ [f]) fs"

definition summary_step :: "line \<Rightarrow> summary_scan \<Rightarrow> summary_scan" where
  "summary_step l u =
     (if ln_type l = TypeUserMessage then u\<lparr>su_user := truncate_runes (extract_text (Some l)) 500\<rparr>
      else if ln_type l = TypeAssistantMessage then u\<lparr>su_assistant := truncate_runes (ln_text l) 300\<rparr>
      else if ln_type l = TypeToolCall then
        u\<lparr>su_files := add_new (su_files u) (extract_file_paths (ln_name l) (ln_input l))\<rparr>
      else u)"

definition trim_right_nl :: "string \<Rightarrow> string" where
  "trim_right_nl s = rev (dropWhile (\<lambda>c. c = CHR 10) (rev s))"

definition extract_summary :: "line list \<Rightarrow> string" where
  "extract_summary before =
     (if before = [] then []
      else (let u = fold summary_step before \<lparr>su_user = [], su_assistant = [], su_files = []\<rparr>;
                files = take 20 (su_files u)
            in trim_right_nl
                 ((if su_user u \<noteq> [] then ''last_user='' @ su_user u @ [CHR 10] else []) @
                  (if su_assistant u \<noteq> [] then ''last_assistant='' @ su_assistant u @ [CHR 10] else []) @
                  (if files \<noteq> [] then ''files_touched='' @ join_with '','' files else []))))"

section \<open>The projection\<close>

record projector =
  pr_budget :: int       \<comment> \<open>\<^verbatim>\<open>CompactionTailBudget\<close>\<close>
  pr_retry :: string     \<comment> \<open>\<^verbatim>\<open>retryCompactedTurn\<close>, empty when not armed\<close>

definition set_retry_compacted_turn :: "string \<Rightarrow> projector \<Rightarrow> projector" where
  "set_retry_compacted_turn turn p = p\<lparr>pr_retry := turn\<rparr>"

definition set_compaction_tail_budget :: "int \<Rightarrow> projector \<Rightarrow> projector" where
  "set_compaction_tail_budget limit p = p\<lparr>pr_budget := limit\<rparr>"

definition project_compacted :: "projector \<Rightarrow> line list \<Rightarrow> nat \<Rightarrow> string \<Rightarrow> message list" where
  "project_compacted p ls m turn =
     (let summary = ln_summary (ls ! m); after = drop (Suc m) ls; before = take m ls;
          mid = (if boundary_after_marker ls m turn then bound_mid_turn (accumulate_mid_turn ls turn)
                 else bound_compaction_tail (pr_budget p) (fold_exchanges ls (Suc m) [] False) summary)
      in seed_message (seed_content summary (find_current_intent after before turn))
           (find_intent_line after before turn) # mid)"

definition project_same_turn_compacted :: "projector \<Rightarrow> line list \<Rightarrow> nat \<Rightarrow> string \<Rightarrow> message list" where
  "project_same_turn_compacted p ls m turn =
     (let summary = ln_summary (ls ! m);
          mid = bound_compaction_tail (pr_budget p) (fold_exchanges ls (Suc m) [] False) summary;
          intent = (case projected_user_idx ls turn of
                      Some u \<Rightarrow> Some (ls ! u)
                    | None \<Rightarrow> find_intent_line (drop (Suc m) ls) (take m ls) turn)
      in seed_message (seed_content summary (extract_text intent)) intent # mid)"

definition project_full_reset :: "line list \<Rightarrow> nat \<Rightarrow> string \<Rightarrow> message list" where
  "project_full_reset ls r turn =
     (let after = drop (Suc r) ls; mid = bound_mid_turn (accumulate_mid_turn ls turn)
      in seed_message (seed_content [] (find_current_intent after [] turn))
           (find_intent_line after [] turn) # mid)"

definition project_plain :: "line list \<Rightarrow> string \<Rightarrow> message list" where
  \<comment> \<open>the path of a transcript with no marker\<close>
  "project_plain ls turn =
     (let (before, after) = split_at_reset_boundary ls turn
      in seed_message (seed_content (extract_summary before) (find_current_intent after before turn))
           (find_intent_line after before turn) # bound_mid_turn (accumulate_mid_turn ls turn))"

definition project_scan :: "projector \<Rightarrow> line list \<Rightarrow> string \<Rightarrow> message list" where
  \<comment> \<open>the choice of the last reset point before the turn's user message\<close>
  "project_scan p ls turn =
     (case (full_reset_boundary_idx ls turn, compaction_marker_idx ls turn) of
        (Some r, None) \<Rightarrow> project_full_reset ls r turn
      | (Some r, Some m) \<Rightarrow>
          if m < r then project_full_reset ls r turn else project_compacted p ls m turn
      | (None, Some m) \<Rightarrow> project_compacted p ls m turn
      | (None, None) \<Rightarrow> project_plain ls turn)"

definition project_lines :: "projector \<Rightarrow> line list \<Rightarrow> string \<Rightarrow> message list" where
  "project_lines p ls turn =
     (if pr_retry p \<noteq> [] \<and> pr_retry p = turn then
        (case same_turn_marker_idx ls turn of
           Some m \<Rightarrow> project_same_turn_compacted p ls m turn
         | None \<Rightarrow> project_scan p ls turn)
      else project_scan p ls turn)"

definition project :: "projector \<Rightarrow> manager \<Rightarrow> string \<Rightarrow> message list" where
  "project p m turn = project_lines p (read_all m) turn"

end
