(* ===== verification/Window.thy ===== *)
theory Window
  imports Projector
begin

text \<open>
  What the message window of \<open>Projector\<close> guarantees: every tool result follows the batch that
  holds its call, every projected call is answered, the bounds keep a suffix that does not start
  at a tool result, a lone marker or boundary of the running turn changes nothing, and a full
  reset forgets what came before it.
\<close>

section \<open>Pairing of calls and results\<close>

definition batch_ids :: "message \<Rightarrow> string set" where
  "batch_ids m = tc_id ` set (ms_tool_calls m)"

definition emitted_ids :: "message list \<Rightarrow> string set" where
  "emitted_ids ms = (\<Union>m \<in> {m \<in> set ms. ms_role m = RoleAssistant}. batch_ids m)"

definition answered_ids :: "message list \<Rightarrow> string set" where
  "answered_ids ms = ms_tool_call ` {m \<in> set ms. is_tool m}"

definition results_after_calls :: "message list \<Rightarrow> bool" where
  \<comment> \<open>a tool result has its call in an earlier assistant batch\<close>
  "results_after_calls ms =
     (\<forall>j < length ms. is_tool (ms ! j) \<longrightarrow> ms_tool_call (ms ! j) \<in> emitted_ids (take j ms))"

definition calls_answered :: "string set \<Rightarrow> message list \<Rightarrow> bool" where
  \<comment> \<open>a call of a batch has a later tool result, or is still among the open ids\<close>
  "calls_answered open_ids ms =
     (\<forall>i < length ms. batch_ids (ms ! i) \<subseteq> answered_ids (drop (Suc i) ms) \<union> open_ids)"

definition pending_ids :: "fold_state \<Rightarrow> string set" where
  "pending_ids f = tc_id ` set (fo_pending f)"

definition fold_inv :: "string set \<Rightarrow> fold_state \<Rightarrow> bool" where
  "fold_inv has f = (results_after_calls (fo_out f) \<and>
     dom (fo_names f) \<inter> has \<subseteq> pending_ids f \<union> emitted_ids (fo_out f))"

named_theorems fold_simps \<open>unfoldings of the folding steps\<close>

lemmas [fold_simps] = fold_line_def flush_batch_def stash_call_def stash_thinking_def
  fold_result_def fold_assistant_def emit_def Let_def

lemma message_roles [simp]:
  "ms_role (batch_message th b) = RoleAssistant" "ms_tool_calls (batch_message th b) = b"
  "ms_role (user_text_message s) = RoleUser" "ms_tool_calls (user_text_message s) = []"
  "ms_role (tool_message l n) = RoleTool" "ms_tool_call (tool_message l n) = ln_tool_call l"
  "ms_tool_calls (tool_message l n) = []"
  "ms_role (assistant_text_message s th) = RoleAssistant" "ms_tool_calls (assistant_text_message s th) = []"
  by (simp_all add: batch_message_def user_text_message_def tool_message_def
      assistant_text_message_def zero_message_def)

lemma is_tool_messages [simp]:
  "\<not> is_tool (batch_message th b)" "\<not> is_tool (user_text_message s)"
  "is_tool (tool_message l n)" "\<not> is_tool (assistant_text_message s th)"
  by (simp_all add: is_tool_def)

lemma results_after_calls_snoc:
  "results_after_calls (ms @ [m]) \<longleftrightarrow>
     results_after_calls ms \<and> (is_tool m \<longrightarrow> ms_tool_call m \<in> emitted_ids ms)"
  by (auto simp: results_after_calls_def less_Suc_eq nth_append)

lemma answered_ids_append [simp]: "answered_ids (xs @ ys) = answered_ids xs \<union> answered_ids ys"
  by (auto simp: answered_ids_def)

lemma answered_ids_single: "answered_ids [m] = (if is_tool m then {ms_tool_call m} else {})"
  by (auto simp: answered_ids_def)

lemma calls_answered_snoc:
  "calls_answered X (ms @ [m]) \<longleftrightarrow> calls_answered (answered_ids [m] \<union> X) ms \<and> batch_ids m \<subseteq> X"
  by (auto simp: calls_answered_def less_Suc_eq nth_append all_conj_distrib answered_ids_def)

lemma emitted_ids_append [simp]: "emitted_ids (xs @ ys) = emitted_ids xs \<union> emitted_ids ys"
  by (auto simp: emitted_ids_def)

lemma emitted_ids_single: "emitted_ids [m] = (if ms_role m = RoleAssistant then batch_ids m else {})"
  by (auto simp: emitted_ids_def)

lemma fold_inv_flush:
  assumes "fold_inv has f"
  shows "fold_inv has (fst (flush_batch has f)) \<and> fo_names (fst (flush_batch has f)) = fo_names f
    \<and> pending_ids (fst (flush_batch has f)) = {}"
  using assms
  by (auto simp: fold_inv_def flush_batch_def Let_def results_after_calls_snoc emitted_ids_single
      pending_ids_def batch_ids_def filter_empty_conv)

lemma fold_inv_emit:
  "fold_inv has f \<Longrightarrow> (is_tool m \<Longrightarrow> ms_tool_call m \<in> emitted_ids (fo_out f)) \<Longrightarrow> fold_inv has (emit m f)"
  by (auto simp: fold_inv_def emit_def results_after_calls_snoc pending_ids_def)

lemma fold_inv_line:
  assumes inv: "fold_inv has f" and has: "ln_type l = TypeToolResult \<Longrightarrow> ln_tool_call l \<in> has"
  shows "fold_inv has (fold_line has l f)"
proof -
  let ?f = "fst (flush_batch has f)"
  have fl: "fold_inv has ?f" "fo_names ?f = fo_names f" "pending_ids ?f = {}"
    using fold_inv_flush[OF inv] by auto
  have call: "fold_inv has (stash_call l f)"
    using inv by (auto simp: fold_inv_def stash_call_def pending_ids_def)
  have think: "fold_inv has (stash_thinking l f)"
    using inv by (auto simp: fold_inv_def stash_thinking_def pending_ids_def split: option.splits)
  have res: "fold_inv has (fold_result has l f)" if "ln_type l = TypeToolResult"
  proof (cases "fo_names ?f (ln_tool_call l)")
    case (Some n)
    then have "ln_tool_call l \<in> emitted_ids (fo_out ?f)"
      using fl has[OF that] by (auto simp: fold_inv_def)
    with Some fl(1) show ?thesis by (simp add: fold_result_def Let_def fold_inv_emit)
  qed (use fl(1) in \<open>simp add: fold_result_def Let_def\<close>)
  have asst: "fold_inv has (fold_assistant has l f)"
    using fl(1) by (auto simp: fold_assistant_def Let_def split_beta intro!: fold_inv_emit)
  show ?thesis
    using call think res asst inv fl(1) by (auto simp: fold_line_def intro!: fold_inv_emit)
qed

lemma fold_inv_lines:
  assumes "fold_inv has f" "\<And>l. l \<in> set ls \<Longrightarrow> ln_type l = TypeToolResult \<Longrightarrow> ln_tool_call l \<in> has"
  shows "fold_inv has (fold_lines has ls f)"
  using assms by (induction ls arbitrary: f) (auto intro: fold_inv_line)

lemma fold_inv_zero: "fold_inv has zero_fold"
  by (simp add: fold_inv_def zero_fold_def results_after_calls_def)

lemma results_in_ids:
  "l \<in> set (fold_window ls n turn ft) \<Longrightarrow> ln_type l = TypeToolResult \<Longrightarrow>
     ln_tool_call l \<in> result_ids_of ls n turn ft"
  by (auto simp: fold_window_def result_ids_of_def)

lemma fold_results_after_calls: "results_after_calls (fold_exchanges ls n turn ft)"
proof -
  let ?has = "result_ids_of ls n turn ft"
  have "fold_inv ?has (fold_lines ?has (fold_window ls n turn ft) zero_fold)"
    using fold_inv_zero results_in_ids by (intro fold_inv_lines) auto
  then show ?thesis
    using fold_inv_flush by (auto simp: fold_exchanges_def Let_def fold_inv_def)
qed

subsection \<open>Every projected call is answered\<close>

definition line_results :: "line list \<Rightarrow> string set" where
  "line_results ls = set (map ln_tool_call (filter (\<lambda>l. ln_type l = TypeToolResult) ls))"

definition line_calls :: "line list \<Rightarrow> string set" where
  "line_calls ls = set (map ln_tool_call (filter (\<lambda>l. ln_type l = TypeToolCall) ls))"

fun calls_first :: "line list \<Rightarrow> bool" where
  \<comment> \<open>no result is recorded before a call of the same id\<close>
  "calls_first [] = True"
| "calls_first (l # ls) = ((ln_type l = TypeToolResult \<longrightarrow> ln_tool_call l \<notin> line_calls ls) \<and> calls_first ls)"

fun answered_later :: "string set \<Rightarrow> line list \<Rightarrow> bool" where
  "answered_later has [] = True"
| "answered_later has (l # ls) =
     ((ln_type l = TypeToolCall \<and> ln_tool_call l \<in> has \<longrightarrow> ln_tool_call l \<in> line_results ls) \<and>
      answered_later has ls)"

lemma line_results_Cons: "line_results (l # ls) =
    (if ln_type l = TypeToolResult then insert (ln_tool_call l) (line_results ls) else line_results ls)"
  by (simp add: line_results_def)

lemma line_calls_Cons: "line_calls (l # ls) =
    (if ln_type l = TypeToolCall then insert (ln_tool_call l) (line_calls ls) else line_calls ls)"
  by (simp add: line_calls_def)

lemma calls_first_answered_later:
  "calls_first ls \<Longrightarrow> X \<inter> line_calls ls = {} \<Longrightarrow> answered_later (X \<union> line_results ls) ls"
proof (induction ls arbitrary: X)
  case (Cons l ls)
  show ?case
  proof (cases "ln_type l = TypeToolResult")
    case True
    with Cons.prems have "answered_later (insert (ln_tool_call l) X \<union> line_results ls) ls"
      by (intro Cons.IH) (auto simp: line_calls_Cons)
    with True show ?thesis by (simp add: line_results_Cons)
  next
    case False
    with Cons.prems have "answered_later (X \<union> line_results ls) ls" "ln_type l = TypeToolCall \<longrightarrow> ln_tool_call l \<notin> X"
      by (auto intro!: Cons.IH simp: line_calls_Cons split: if_splits)
    with False show ?thesis by (auto simp: line_results_Cons)
  qed
qed simp

definition answer_inv :: "string set \<Rightarrow> string set \<Rightarrow> fold_state \<Rightarrow> bool" where
  "answer_inv has open_ids f = (calls_answered open_ids (fo_out f) \<and> pending_ids f \<inter> has \<subseteq> open_ids \<and>
     pending_ids f \<union> (\<Union>m \<in> set (fo_out f). batch_ids m) \<subseteq> dom (fo_names f))"

lemma batch_ids_messages [simp]:
  "batch_ids (batch_message th b) = tc_id ` set b" "batch_ids (user_text_message s) = {}"
  "batch_ids (tool_message l n) = {}" "batch_ids (assistant_text_message s th) = {}"
  by (simp_all add: batch_ids_def)

lemma answer_inv_flush:
  assumes "answer_inv has R f"
  shows "answer_inv has R (fst (flush_batch has f)) \<and> fo_names (fst (flush_batch has f)) = fo_names f"
  using assms
  by (auto simp: answer_inv_def flush_batch_def Let_def calls_answered_snoc answered_ids_single pending_ids_def)

lemma answer_inv_emit:
  "answer_inv has R f \<Longrightarrow> batch_ids m = {} \<Longrightarrow> \<not> is_tool m \<Longrightarrow> answer_inv has R (emit m f)"
  by (auto simp: answer_inv_def emit_def calls_answered_snoc answered_ids_single pending_ids_def)

lemma calls_answered_weaken:
  "calls_answered X ms \<Longrightarrow> X \<inter> (\<Union>m \<in> set ms. batch_ids m) \<subseteq> Y \<Longrightarrow> calls_answered Y ms"
  by (fastforce simp: calls_answered_def)

lemma insert_inter_sub: "x \<notin> B \<Longrightarrow> insert x R \<inter> B \<subseteq> R"
  by blast

lemma answer_inv_result:
  assumes inv: "answer_inv has (insert (ln_tool_call l) R) f" and pend: "pending_ids f \<inter> has \<subseteq> insert (ln_tool_call l) R"
  shows "answer_inv has R (fold_result has l f)"
proof -
  let ?f = "fst (flush_batch has f)"
  have fl: "answer_inv has (insert (ln_tool_call l) R) ?f" "pending_ids ?f = {}"
    using answer_inv_flush[OF inv] by (auto simp: flush_batch_def Let_def pending_ids_def)
  show ?thesis
  proof (cases "fo_names ?f (ln_tool_call l)")
    case None
    have parts: "calls_answered (insert (ln_tool_call l) R) (fo_out ?f)"
      "(\<Union>m \<in> set (fo_out ?f). batch_ids m) \<subseteq> dom (fo_names ?f)"
      using fl(1) by (simp_all add: answer_inv_def)
    have "ln_tool_call l \<notin> (\<Union>m \<in> set (fo_out ?f). batch_ids m)"
      using parts(2) None by (meson domIff subsetD)
    then have "insert (ln_tool_call l) R \<inter> (\<Union>m \<in> set (fo_out ?f). batch_ids m) \<subseteq> R"
      by (rule insert_inter_sub)
    then have "calls_answered R (fo_out ?f)"
      by (rule calls_answered_weaken[OF parts(1)])
    then show ?thesis
      using None fl by (simp add: answer_inv_def fold_result_def Let_def)
  next
    case (Some n)
    have "fold_result has l f = emit (tool_message l n) ?f"
      using Some by (simp add: fold_result_def Let_def)
    moreover have "calls_answered R (fo_out ?f @ [tool_message l n])"
      using fl(1) by (simp add: answer_inv_def calls_answered_snoc answered_ids_single)
    moreover have "pending_ids (emit (tool_message l n) ?f) = {}"
      using fl(2) by (simp add: emit_def pending_ids_def)
    ultimately show ?thesis
      using fl(1) by (simp add: answer_inv_def emit_def)
  qed
qed

lemma answer_inv_line:
  assumes inv: "answer_inv has (line_results (l # ls)) f" and al: "answered_later has (l # ls)"
  shows "answer_inv has (line_results ls) (fold_line has l f)"
proof -
  have call: "answer_inv has (line_results ls) (stash_call l f)" if "ln_type l = TypeToolCall"
    using inv al that by (auto simp: answer_inv_def stash_call_def pending_ids_def line_results_Cons)
  have res: "answer_inv has (line_results ls) (fold_result has l f)" if t: "ln_type l = TypeToolResult"
    using inv t by (intro answer_inv_result) (simp_all add: line_results_Cons answer_inv_def)
  have think: "answer_inv has R f \<Longrightarrow> answer_inv has R (stash_thinking l f)" for R
    by (auto simp: answer_inv_def stash_thinking_def pending_ids_def split: option.splits)
  have asst: "answer_inv has R f \<Longrightarrow> answer_inv has R (fold_assistant has l f)" for R
    using answer_inv_flush by (auto simp: fold_assistant_def Let_def split_beta intro!: answer_inv_emit)
  have steer: "answer_inv has R f \<Longrightarrow> answer_inv has R (emit (user_text_message s) (fst (flush_batch has f)))" for R s
    using answer_inv_flush by (auto intro!: answer_inv_emit)
  show ?thesis
  proof (cases "ln_type l = TypeToolResult \<or> ln_type l = TypeToolCall")
    case True
    then show ?thesis using call res by (elim disjE) (simp_all add: fold_line_def)
  next
    case False
    then have "answer_inv has (line_results ls) f" using inv by (simp add: line_results_Cons)
    then show ?thesis using think asst steer False by (simp add: fold_line_def)
  qed
qed

lemma answer_inv_lines:
  "answer_inv has (line_results ls) f \<Longrightarrow> answered_later has ls \<Longrightarrow> answer_inv has {} (fold_lines has ls f)"
proof (induction ls arbitrary: f)
  case Nil
  then show ?case by (simp add: line_results_def)
next
  case (Cons l ls)
  then show ?case using answer_inv_line[OF Cons.prems] by simp
qed

lemma result_ids_window: "result_ids_of ls n turn ft = line_results (fold_window ls n turn ft)"
  by (auto simp: result_ids_of_def line_results_def fold_window_def)

lemma fold_calls_answered:
  assumes "calls_first (fold_window ls n turn ft)"
  shows "calls_answered {} (fold_exchanges ls n turn ft)"
proof -
  let ?w = "fold_window ls n turn ft" and ?has = "result_ids_of ls n turn ft"
  have "answered_later ?has ?w"
    using calls_first_answered_later[OF assms, of "{}"] by (simp add: result_ids_window)
  moreover have "answer_inv ?has (line_results ?w) zero_fold"
    by (simp add: answer_inv_def zero_fold_def calls_answered_def pending_ids_def)
  ultimately have "answer_inv ?has {} (fold_lines ?has ?w zero_fold)"
    by (rule answer_inv_lines[rotated])
  then show ?thesis
    using answer_inv_flush by (auto simp: fold_exchanges_def Let_def answer_inv_def)
qed

section \<open>The bounds\<close>

definition head_ok :: "message list \<Rightarrow> bool" where
  \<comment> \<open>the list does not start at a tool result\<close>
  "head_ok ms = (ms = [] \<or> \<not> is_tool (hd ms))"

lemma results_after_calls_head: "results_after_calls ms \<Longrightarrow> head_ok ms"
  by (cases ms) (auto simp: results_after_calls_def emitted_ids_def head_ok_def)

lemma head_ok_dropWhile: "head_ok (dropWhile is_tool xs)"
  using hd_dropWhile[of is_tool xs] by (auto simp: head_ok_def simp del: dropWhile_eq_Nil_conv)

lemma bound_mid_turn_head: "head_ok ms \<Longrightarrow> head_ok (bound_mid_turn ms)"
  by (simp add: bound_mid_turn_def head_ok_dropWhile)

lemma bound_mid_turn_suffix: "suffix (bound_mid_turn ms) ms"
  by (simp add: bound_mid_turn_def) (meson suffix_dropWhile suffix_drop suffix_order.trans)

lemma length_dropWhile_drop: "length (dropWhile P (drop n xs)) \<le> length xs - n"
  using length_dropWhile_le[of P "drop n xs"] by simp

lemma bound_mid_turn_length: "length (bound_mid_turn ms) \<le> mid_turn_window"
  using length_dropWhile_drop[of is_tool "length ms - mid_turn_window" ms]
  by (auto simp: bound_mid_turn_def)

lemma bound_compaction_tail_head: "head_ok ms \<Longrightarrow> head_ok (bound_compaction_tail b ms su)"
  by (simp add: bound_compaction_tail_def bound_mid_turn_head bound_compaction_tail_by_budget_def
      head_ok_dropWhile) (simp add: head_ok_def)

lemma seed_message_role: "ms_role (seed_message c l) = RoleUser"
  by (simp add: seed_message_def Let_def zero_message_def)

lemmas project_simps = project_lines_def project_scan_def project_same_turn_compacted_def
  project_compacted_def project_full_reset_def project_plain_def Let_def

lemma fold_head: "head_ok (fold_exchanges ls n turn ft)"
  by (rule results_after_calls_head[OF fold_results_after_calls])

definition window_ok :: "int \<Rightarrow> message list \<Rightarrow> bool" where
  "window_ok budget ms =
     (case ms of [] \<Rightarrow> False
      | seed # mid \<Rightarrow> ms_role seed = RoleUser \<and> head_ok mid \<and>
          (budget \<le> 0 \<longrightarrow> length mid \<le> mid_turn_window))"

lemma window_ok_mid:
  "window_ok b (seed_message c l # bound_mid_turn (accumulate_mid_turn ls turn))"
  using bound_mid_turn_head[OF fold_head] bound_mid_turn_length
  by (auto simp: window_ok_def seed_message_role accumulate_mid_turn_def)

lemma window_ok_tail:
  "window_ok b (seed_message c l # bound_compaction_tail b (fold_exchanges ls n turn ft) su)"
  using bound_compaction_tail_head[OF fold_head] bound_mid_turn_length
  by (auto simp: window_ok_def seed_message_role bound_compaction_tail_def)

lemma window_ok_scan: "window_ok (pr_budget p) (project_scan p ls turn)"
  using window_ok_mid window_ok_tail
  by (auto simp: project_scan_def project_full_reset_def project_plain_def project_compacted_def Let_def
      split_beta split: option.splits)

section \<open>The budget tail\<close>

definition head_at :: "message list \<Rightarrow> nat \<Rightarrow> bool" where
  "head_at w k = (k < length w \<and> \<not> is_tool (w ! k))"

definition tail_cost :: "message list \<Rightarrow> nat \<Rightarrow> int" where
  "tail_cost w k = sum_list (map message_cost (drop k w))"

definition group_heads :: "message list \<Rightarrow> nat list" where
  "group_heads w = filter (head_at w) [0..<length w]"

definition longest_tail :: "message list \<Rightarrow> int \<Rightarrow> message list" where
  \<comment> \<open>the specification: the longest suffix from a group head that fits, else the newest group\<close>
  "longest_tail w allowance =
     (case find (\<lambda>k. tail_cost w k \<le> allowance) (group_heads w) of
        Some k \<Rightarrow> drop k w
      | None \<Rightarrow> (if group_heads w = [] then [] else drop (last (group_heads w)) w))"

definition tail_start :: "message list \<Rightarrow> int \<Rightarrow> nat \<Rightarrow> bool" where
  "tail_start w a r =
     ((r = length w \<and> group_heads w = []) \<or>
      (head_at w r \<and> (tail_cost w r \<le> a \<or> (\<forall>j. head_at w j \<longrightarrow> j \<le> r)) \<and>
       (\<forall>j < r. head_at w j \<longrightarrow> a < tail_cost w j)))"

lemma message_cost_nonneg: "0 \<le> message_cost m"
  by (simp add: message_cost_def)

lemma tail_cost_split: "i \<le> c \<Longrightarrow> tail_cost w i = group_cost w i c + tail_cost w c"
proof -
  assume "i \<le> c"
  then have "drop i w = take (c - i) (drop i w) @ drop c w"
    by (metis append_take_drop_id drop_drop le_add_diff_inverse2)
  then show ?thesis
    unfolding tail_cost_def group_cost_def by (metis map_append sum_list_append)
qed

lemma group_cost_nonneg: "0 \<le> group_cost w i c"
  unfolding group_cost_def by (rule sum_list_nonneg) (auto simp: message_cost_nonneg)

lemma tail_cost_antimono: "i \<le> c \<Longrightarrow> tail_cost w c \<le> tail_cost w i"
  using tail_cost_split group_cost_nonneg by fastforce

lemma set_group_heads: "set (group_heads w) = {k. head_at w k}"
  by (auto simp: group_heads_def head_at_def)

lemma tail_start_drop: "tail_start w a r \<Longrightarrow> dropWhile is_tool (drop r w) = drop r w"
  by (cases "drop r w") (auto simp: tail_start_def head_at_def Cons_nth_drop_Suc[symmetric])

lemma budget_cut_start:
  "i \<le> c \<Longrightarrow> c \<le> length w \<Longrightarrow> t = tail_cost w c \<Longrightarrow> (\<forall>j. i \<le> j \<and> j < c \<longrightarrow> \<not> head_at w j) \<Longrightarrow>
   (c < length w \<longrightarrow> head_at w c \<and> t \<le> a) \<Longrightarrow> tail_start w a (budget_cut w a i c t)"
proof (induction w a i c t rule: budget_cut.induct)
  case (1 w a c t)
  show ?case
  proof (cases "c < length w")
    case False
    with 1 have "c = length w" "\<forall>j. \<not> head_at w j" by (auto simp: head_at_def)
    then show ?thesis using set_group_heads[of w] by (simp add: tail_start_def)
  qed (use 1 in \<open>auto simp: tail_start_def\<close>)
next
  case (2 w a i c t)
  have cost: "t + group_cost w i c = tail_cost w i" using tail_cost_split[of i c w] 2 by simp
  show ?case
  proof (cases "is_tool (w ! i)")
    case True
    with 2 have "\<forall>j. i \<le> j \<and> j < c \<longrightarrow> \<not> head_at w j"
      by (metis Suc_leI head_at_def le_eq_less_or_eq)
    with True 2 show ?thesis by simp
  next
    case False
    then have h: "head_at w i" using 2 by (auto simp: head_at_def)
    have old: "a < tail_cost w i \<Longrightarrow> j \<le> i \<Longrightarrow> a < tail_cost w j" for j
      using tail_cost_antimono[of j i w] by simp
    have mid: "j \<le> i \<or> c \<le> j" if "head_at w j" for j using 2(6) that by (meson Suc_leI not_less)
    show ?thesis
    proof (cases "tail_cost w i \<le> a")
      case True
      then show ?thesis
        using False cost h 2 mid by (auto simp: Let_def intro!: "2.IH"(2))
    next
      case gt: False
      show ?thesis
      proof (cases "c < length w")
        case True
        then have "\<forall>j < c. head_at w j \<longrightarrow> a < tail_cost w j"
          using gt mid old by (metis not_less)
        then show ?thesis using True False cost gt 2 by (simp add: Let_def tail_start_def)
      next
        case end_w: False
        then have "\<forall>j. head_at w j \<longrightarrow> j \<le> i" using mid 2(4) by (auto simp: head_at_def)
        then show ?thesis using False cost gt end_w h old by (auto simp: Let_def tail_start_def)
      qed
    qed
  qed
qed

lemma find_first: "find P xs = Some k \<Longrightarrow> sorted xs \<Longrightarrow> k \<in> set xs \<and> P k \<and> (\<forall>j \<in> set xs. j < k \<longrightarrow> \<not> P j)"
  by (induction xs) (auto split: if_splits)

lemma last_sorted_max: "xs \<noteq> [] \<Longrightarrow> sorted xs \<Longrightarrow> j \<in> set xs \<Longrightarrow> j \<le> last xs"
  by (induction xs) auto

lemma sorted_group_heads: "sorted (group_heads w)"
  by (simp add: group_heads_def sorted_wrt_filter)

lemma tail_start_longest:
  assumes "tail_start w a r"
  shows "longest_tail w a = drop r w"
proof (cases "group_heads w = []")
  case True
  then have "r = length w" using assms set_group_heads[of w] by (auto simp: tail_start_def)
  with True show ?thesis by (simp add: longest_tail_def)
next
  case ne: False
  then have r: "head_at w r" "tail_cost w r \<le> a \<or> (\<forall>j. head_at w j \<longrightarrow> j \<le> r)"
    "\<forall>j < r. head_at w j \<longrightarrow> a < tail_cost w j"
    using assms by (auto simp: tail_start_def)
  show ?thesis
  proof (cases "find (\<lambda>k. tail_cost w k \<le> a) (group_heads w)")
    case None
    then have all: "\<forall>j. head_at w j \<longrightarrow> a < tail_cost w j"
      by (auto simp: find_None_iff set_group_heads)
    have "head_at w (last (group_heads w))" using ne set_group_heads last_in_set by blast
    moreover have "r \<le> last (group_heads w)"
      using last_sorted_max[OF ne sorted_group_heads] r(1) set_group_heads by blast
    ultimately have "last (group_heads w) = r" using all r by force
    with None ne show ?thesis by (simp add: longest_tail_def)
  next
    case (Some k)
    then have k: "head_at w k" "tail_cost w k \<le> a" "\<forall>j. head_at w j \<longrightarrow> j < k \<longrightarrow> \<not> tail_cost w j \<le> a"
      using find_first[OF Some sorted_group_heads] by (auto simp: set_group_heads)
    then have "k = r" using r by (metis leD linorder_neqE_nat)
    with Some show ?thesis by (simp add: longest_tail_def)
  qed
qed

lemma budget_tail_longest: "bound_compaction_tail_by_budget w a = longest_tail w a"
proof -
  have "tail_start w a (budget_cut w a (length w) (length w) 0)"
    by (rule budget_cut_start) (auto simp: tail_cost_def)
  then have "longest_tail w a = dropWhile is_tool (drop (budget_cut w a (length w) (length w) 0) w)"
    using tail_start_longest tail_start_drop by metis
  then show ?thesis
    by (cases "w = []") (simp_all add: bound_compaction_tail_by_budget_def)
qed

section \<open>Inert lines and full resets\<close>

definition inert_line :: "line \<Rightarrow> bool" where
  "inert_line l = (ln_type l = TypeCompaction \<or> ln_type l = TypeBoundary)"

lemma last_index_append:
  "last_index P (xs @ ys) =
     (case last_index P ys of Some i \<Rightarrow> Some (length xs + i) | None \<Rightarrow> last_index P xs)"
  by (induction xs) (auto split: option.splits)

lemma last_index_less: "last_index P xs = Some i \<Longrightarrow> i < length xs \<and> P (xs ! i)"
  by (induction xs arbitrary: i) (auto split: option.splits if_splits)

lemma last_index_none: "last_index P xs = None \<longleftrightarrow> (\<forall>j < length xs. \<not> P (xs ! j))"
  by (induction xs) (auto simp: less_Suc_eq_0_disj split: option.splits)

lemma last_index_newest: "last_index P xs = Some i \<Longrightarrow> i < j \<Longrightarrow> j < length xs \<Longrightarrow> \<not> P (xs ! j)"
proof (induction xs arbitrary: i j)
  case (Cons x xs)
  then show ?case by (cases j) (auto split: option.splits if_splits simp: last_index_none)
qed simp

lemma project_scan_retry: "project_scan (p\<lparr>pr_retry := t\<rparr>) ls turn = project_scan p ls turn"
proof -
  have same: "project_compacted (p\<lparr>pr_retry := t\<rparr>) = project_compacted p"
    by (intro ext) (simp add: project_compacted_def Let_def)
  show ?thesis unfolding project_scan_def same by (rule refl)
qed

lemma last_index_insert_before:
  "\<not> P x \<Longrightarrow> last_index P (xs @ ys) = Some u \<Longrightarrow> u < length xs \<Longrightarrow>
     last_index P (xs @ x # ys) = Some u"
  by (auto simp: last_index_append split: option.splits)

lemma last_index_insert_none: "\<not> P x \<Longrightarrow> last_index P (xs @ x # ys) = None \<longleftrightarrow> last_index P (xs @ ys) = None"
  by (auto simp: last_index_append split: option.splits)

lemma pick_last_Cons:
  "pick_last P (x # xs) = (case pick_last P xs of Some l \<Rightarrow> Some l | None \<Rightarrow> if P x then Some x else None)"
  by (auto simp: pick_last_def split: option.splits)

lemma pick_last_append:
  "pick_last P (xs @ ys) = (case pick_last P ys of Some l \<Rightarrow> Some l | None \<Rightarrow> pick_last P xs)"
proof (induction xs)
  case Nil
  show ?case by (simp add: pick_last_def split: option.splits)
qed (simp add: pick_last_Cons split: option.splits)

lemma pick_last_insert: "\<not> P x \<Longrightarrow> pick_last P (xs @ x # ys) = pick_last P (xs @ ys)"
  by (simp add: pick_last_append pick_last_Cons split: option.splits)

lemma find_intent_insert:
  assumes "inert_line x"
  shows "find_intent_line (xs @ x # ys) before turn = find_intent_line (xs @ ys) before turn"
    "find_intent_line after (xs @ x # ys) turn = find_intent_line after (xs @ ys) turn"
proof -
  have x: "ln_type x \<noteq> TypeUserMessage" using assms by (auto simp: inert_line_def)
  have p: "pick_last (\<lambda>l. ln_type l = TypeUserMessage \<and> Q l) (xs @ x # ys) =
      pick_last (\<lambda>l. ln_type l = TypeUserMessage \<and> Q l) (xs @ ys)" for Q
    by (rule pick_last_insert) (simp add: x)
  have q: "pick_last (\<lambda>l. ln_type l = TypeUserMessage) (xs @ x # ys) =
      pick_last (\<lambda>l. ln_type l = TypeUserMessage) (xs @ ys)"
    by (rule pick_last_insert) (simp add: x)
  show "find_intent_line (xs @ x # ys) before turn = find_intent_line (xs @ ys) before turn"
    "find_intent_line after (xs @ x # ys) turn = find_intent_line after (xs @ ys) turn"
    by (simp_all only: find_intent_line_def p q)
qed

lemma fold_lines_append: "fold_lines has (xs @ ys) f = fold_lines has ys (fold_lines has xs f)"
  by (induction xs arbitrary: f) auto

lemma fold_exchanges_insert:
  assumes "inert_line x" "n \<le> length xs"
  shows "fold_exchanges (xs @ x # ys) n turn ft = fold_exchanges (xs @ ys) n turn ft"
proof -
  have t: "ln_type x \<noteq> TypeToolResult" and f: "fold_line has x f = f" for has f
    using assms(1) by (auto simp: inert_line_def fold_line_def)
  have "result_ids_of (xs @ x # ys) n turn ft = result_ids_of (xs @ ys) n turn ft"
    using assms(2) t by (auto simp: result_ids_of_def)
  then show ?thesis
    using assms(2) f by (simp add: fold_exchanges_def fold_window_def Let_def fold_lines_append)
qed

lemma last_index_insert_same:
  assumes "\<not> P x" "\<And>i. last_index P (xs @ ys) = Some i \<Longrightarrow> i < length xs"
  shows "last_index P (xs @ x # ys) = last_index P (xs @ ys)"
proof (cases "last_index P (xs @ ys)")
  case None
  then show ?thesis using last_index_insert_none assms(1) by metis
next
  case (Some i)
  then show ?thesis using last_index_insert_before assms by metis
qed

lemma projected_user_insert:
  assumes x: "inert_line x" and u: "projected_user_idx (xs @ ys) turn = Some u" "u < length xs"
  shows "projected_user_idx (xs @ x # ys) turn = Some u"
    "turn_anchor_of (xs @ x # ys) turn = turn_anchor_of (xs @ ys) turn"
    "turn_anchor_of (xs @ ys) turn \<le> length xs"
proof -
  let ?M = "\<lambda>l. ln_type l = TypeUserMessage \<and> ln_turn l = turn" and ?U = "\<lambda>l. ln_type l = TypeUserMessage"
  have nx: "ln_type x \<noteq> TypeUserMessage" using x by (auto simp: inert_line_def)
  have lt: "last_index ?M (xs @ ys) = Some i \<Longrightarrow> i < length xs" for i
    using u by (simp add: projected_user_idx_def)
  have m: "last_index ?M (xs @ x # ys) = last_index ?M (xs @ ys)"
    using nx lt by (intro last_index_insert_same) simp_all
  show "turn_anchor_of (xs @ x # ys) turn = turn_anchor_of (xs @ ys) turn"
    by (simp only: turn_anchor_of_def m)
  show "turn_anchor_of (xs @ ys) turn \<le> length xs"
    using lt by (auto simp: turn_anchor_of_def Suc_le_eq split: option.split)
  show "projected_user_idx (xs @ x # ys) turn = Some u"
  proof (cases "last_index ?M (xs @ ys)")
    case (Some i)
    then show ?thesis using u(1) by (simp add: projected_user_idx_def m)
  next
    case None
    then have "last_index ?U (xs @ ys) = Some u" using u(1) by (simp add: projected_user_idx_def)
    then have "last_index ?U (xs @ x # ys) = Some u"
      using u(2) nx by (intro last_index_insert_before) simp_all
    with None show ?thesis by (simp only: projected_user_idx_def m option.simps)
  qed
qed

lemma positions_insert:
  assumes x: "inert_line x" and u: "projected_user_idx (xs @ ys) turn = Some u" "u < length xs"
  shows "last_before_user P (xs @ x # ys) turn = last_before_user P (xs @ ys) turn"
    "boundary_after_marker (xs @ x # ys) m turn = boundary_after_marker (xs @ ys) m turn"
  using projected_user_insert[OF assms] u
  by (simp_all add: last_before_user_def boundary_after_marker_def)

lemma last_before_user_less:
  "projected_user_idx ls turn = Some u \<Longrightarrow> last_before_user P ls turn = Some b \<Longrightarrow> b < u"
  using last_index_less[of P "take u ls" b] by (simp add: last_before_user_def)

lemma accumulate_insert:
  assumes x: "inert_line x" and u: "projected_user_idx (xs @ ys) turn = Some u" "u < length xs"
  shows "accumulate_mid_turn (xs @ x # ys) turn = accumulate_mid_turn (xs @ ys) turn"
  using projected_user_insert[OF assms] fold_exchanges_insert[OF x]
  by (simp add: accumulate_mid_turn_def)

lemma project_scan_insert:
  assumes x: "inert_line x" and u: "projected_user_idx (xs @ ys) turn = Some u" "u < length xs"
  shows "project_scan p (xs @ x # ys) turn = project_scan p (xs @ ys) turn"
proof -
  note pos = positions_insert[OF assms] accumulate_insert[OF assms] find_intent_insert[OF x]
    projected_user_insert(1)[OF assms]
  have full: "project_full_reset (xs @ x # ys) r turn = project_full_reset (xs @ ys) r turn" if "r < u" for r
    using that u(2) by (simp add: project_full_reset_def find_current_intent_def pos Let_def)
  have comp: "project_compacted p (xs @ x # ys) m turn = project_compacted p (xs @ ys) m turn" if "m < u" for m
    using that u(2) fold_exchanges_insert[OF x, of "Suc m" xs ys "[]" False]
    by (simp add: project_compacted_def find_current_intent_def pos nth_append Let_def)
  have plain: "project_plain (xs @ x # ys) turn = project_plain (xs @ ys) turn"
  proof (cases "last_before_user (\<lambda>l. ln_type l = TypeBoundary) (xs @ ys) turn")
    case None
    then show ?thesis using u
      by (simp add: project_plain_def split_at_reset_boundary_def find_current_intent_def pos Let_def)
  next
    case (Some b)
    then have "b < u" using last_before_user_less[OF u(1)] by blast
    with Some show ?thesis using u
      by (simp add: project_plain_def split_at_reset_boundary_def find_current_intent_def pos Let_def)
  qed
  show ?thesis
    using full comp plain last_before_user_less[OF u(1)]
    by (auto simp: project_scan_def full_reset_boundary_idx_def compaction_marker_idx_def pos split: option.splits)
qed

lemma project_scan_forgets:
  assumes b: "ln_type b = TypeBoundary" "ln_cause b = ''context-reset''"
    and u: "last_index (\<lambda>l. ln_type l = TypeUserMessage \<and> ln_turn l = turn) post = Some u"
    and m: "last_index (\<lambda>l. ln_type l = TypeCompaction) (take u post) = None"
  shows "\<exists>r. r \<le> u \<and> project_scan p (pre @ b # post) turn =
    project_full_reset (pre @ b # post) (length pre + r) turn \<and> r = (case last_index
      (\<lambda>l. ln_type l = TypeBoundary \<and> ln_cause l = ''context-reset'') (take u post) of Some i \<Rightarrow> Suc i | None \<Rightarrow> 0)"
proof -
  let ?R = "\<lambda>l. ln_type l = TypeBoundary \<and> ln_cause l = ''context-reset''" and ?C = "\<lambda>l. ln_type l = TypeCompaction"
  define r where "r = (case last_index ?R (take u post) of Some i \<Rightarrow> Suc i | None \<Rightarrow> 0)"
  have idx: "projected_user_idx (pre @ b # post) turn = Some (length pre + Suc u)"
    using u by (simp add: projected_user_idx_def last_index_append)
  have tk: "take (length pre + Suc u) (pre @ b # post) = pre @ b # take u post" by simp
  have R: "last_before_user ?R (pre @ b # post) turn = Some (length pre + r)"
    using b idx tk by (simp add: last_before_user_def last_index_append r_def split: option.splits)
  have C: "last_before_user ?C (pre @ b # post) turn = Some c \<Longrightarrow> c < length pre" for c
    using b m idx tk last_index_less[of ?C pre c] by (simp add: last_before_user_def last_index_append)
  have "r \<le> u"
    using last_index_less[of ?R "take u post"] by (auto simp: r_def split: option.splits)
  moreover have "project_scan p (pre @ b # post) turn = project_full_reset (pre @ b # post) (length pre + r) turn"
  proof (cases "last_before_user ?C (pre @ b # post) turn")
    case (Some c)
    then have "c < length pre + r" using C by force
    with Some R show ?thesis
      by (simp add: project_scan_def full_reset_boundary_idx_def compaction_marker_idx_def)
  qed (use R in \<open>simp add: project_scan_def full_reset_boundary_idx_def compaction_marker_idx_def\<close>)
  ultimately show ?thesis unfolding r_def by blast
qed

lemma full_reset_forgets:
  assumes u: "last_index (\<lambda>l. ln_type l = TypeUserMessage \<and> ln_turn l = turn) post = Some u"
  shows "project_full_reset (pre @ b # post) (length pre + r) turn = project_full_reset (b # post) r turn"
proof -
  have "turn_anchor_of (pre @ b # post) turn = length pre + turn_anchor_of (b # post) turn"
    using u by (simp add: turn_anchor_of_def last_index_append)
  then have "accumulate_mid_turn (pre @ b # post) turn = accumulate_mid_turn (b # post) turn"
    by (simp add: accumulate_mid_turn_def fold_exchanges_def fold_window_def result_ids_of_def)
  then show ?thesis by (simp add: project_full_reset_def)
qed

section \<open>Properties\<close>

text \<open>C33. In the folded window every tool result comes after an assistant batch that holds its
call, and, when no result was recorded before a call of the same id, every call of a batch has a
tool result after it: no orphan on either side.\<close>

theorem fold_pairs_calls_and_results:
  "results_after_calls (fold_exchanges ls n turn ft) \<and>
   (calls_first (fold_window ls n turn ft) \<longrightarrow> calls_answered {} (fold_exchanges ls n turn ft))"
  using fold_results_after_calls fold_calls_answered by blast

definition call_line :: "string \<Rightarrow> line" where
  "call_line c = zero_line\<lparr>ln_type := TypeToolCall, ln_turn := ''t'', ln_tool_call := c, ln_name := ''Bash''\<rparr>"

definition result_line :: "string \<Rightarrow> line" where
  "result_line c = zero_line\<lparr>ln_type := TypeToolResult, ln_turn := ''t'', ln_tool_call := c\<rparr>"

definition turn_line :: "string \<Rightarrow> string \<Rightarrow> line" where
  "turn_line ty x = zero_line\<lparr>ln_type := ty, ln_turn := ''t'', ln_text := x\<rparr>"

theorem fold_pairs_calls_and_results_witness:
  "calls_answered {} (fold_exchanges [call_line ''a'', call_line ''b'', result_line ''a''] 0 ''t'' True)
   \<and> map (map tc_id \<circ> ms_tool_calls)
       (fold_exchanges [call_line ''a'', call_line ''b'', result_line ''a''] 0 ''t'' True) = [[''a''], []]"
proof -
  have "calls_first (fold_window [call_line ''a'', call_line ''b'', result_line ''a''] 0 ''t'' True)"
    by code_simp
  moreover have "map (map tc_id \<circ> ms_tool_calls)
       (fold_exchanges [call_line ''a'', call_line ''b'', result_line ''a''] 0 ''t'' True) = [[''a''], []]"
    by code_simp
  ultimately show ?thesis using fold_pairs_calls_and_results by blast
qed

text \<open>The projection of any transcript is a user message (the seed) followed by a window that
does not start at a tool result and, when no tail budget is set, has at most 64 messages.\<close>

theorem project_window_shape: "window_ok (pr_budget p) (project p m turn)"
  using window_ok_tail window_ok_scan
  by (auto simp: project_def project_lines_def project_same_turn_compacted_def Let_def split: option.splits)

text \<open>The backward scan of the budget tail returns the longest suffix that starts at a group
head and whose cost fits the allowance, or the newest group when none fits.\<close>

theorem budget_tail_is_longest:
  "bound_compaction_tail_by_budget w allowance = longest_tail w allowance"
  by (rule budget_tail_longest)

text \<open>Without the armed retry a compaction marker or a boundary recorded after the turn's own
user message never changes that turn's projection, whatever the rest of the transcript holds.\<close>

theorem unarmed_marker_is_inert:
  assumes "inert_line x" "projected_user_idx (before @ after) turn = Some u" "u < length before"
    and "pr_retry p = [] \<or> pr_retry p \<noteq> turn"
  shows "project_lines p (before @ x # after) turn = project_lines p (before @ after) turn"
proof -
  have "\<not> (pr_retry p \<noteq> [] \<and> pr_retry p = turn)" using assms(4) by blast
  then show ?thesis using project_scan_insert[OF assms(1-3)] by (simp only: project_lines_def if_False)
qed

theorem unarmed_marker_is_inert_witness:
  "project_lines \<lparr>pr_budget = 100, pr_retry = []\<rparr>
     ([turn_line TypeUserMessage ''hi'', call_line ''a''] @ turn_line TypeCompaction [] # [result_line ''a'']) ''t'' =
   project_lines \<lparr>pr_budget = 100, pr_retry = []\<rparr>
     ([turn_line TypeUserMessage ''hi'', call_line ''a''] @ [result_line ''a'']) ''t''"
proof (rule unarmed_marker_is_inert)
  show "inert_line (turn_line TypeCompaction [])" by code_simp
  show "projected_user_idx ([turn_line TypeUserMessage ''hi'', call_line ''a''] @ [result_line ''a'']) ''t'' = Some 0"
    by code_simp
qed simp_all

text \<open>After a full reset, with no newer compaction marker before the turn, the projection is
the same whatever the transcript held before the reset: a cleared context starts empty.\<close>

theorem cleared_context_forgets:
  assumes "ln_type b = TypeBoundary" "ln_cause b = ''context-reset''"
    and "last_index (\<lambda>l. ln_type l = TypeUserMessage \<and> ln_turn l = turn) post = Some u"
    and "last_index (\<lambda>l. ln_type l = TypeCompaction) (take u post) = None"
    and "pr_retry p = [] \<or> pr_retry p \<noteq> turn"
  shows "project_lines p (pre @ b # post) turn = project_lines p (b # post) turn"
proof -
  have "\<not> (pr_retry p \<noteq> [] \<and> pr_retry p = turn)" using assms(5) by blast
  moreover have "project_scan p (pre @ b # post) turn = project_scan p (b # post) turn"
    using project_scan_forgets[OF assms(1-4), of p pre] project_scan_forgets[OF assms(1-4), of p "[]"]
      full_reset_forgets[OF assms(3), of pre b] by auto
  ultimately show ?thesis by (simp only: project_lines_def if_False)
qed

theorem cleared_context_forgets_witness:
  "project_lines \<lparr>pr_budget = 0, pr_retry = []\<rparr>
     ([turn_line TypeUserMessage ''old'', (turn_line TypeCompaction [])\<lparr>ln_summary := ''secret''\<rparr>] @
      (turn_line TypeBoundary [])\<lparr>ln_cause := ''context-reset''\<rparr> # [turn_line TypeUserMessage ''new'']) ''t'' =
   project_lines \<lparr>pr_budget = 0, pr_retry = []\<rparr>
     ((turn_line TypeBoundary [])\<lparr>ln_cause := ''context-reset''\<rparr> # [turn_line TypeUserMessage ''new'']) ''t''"
proof (rule cleared_context_forgets)
  show "last_index (\<lambda>l. ln_type l = TypeUserMessage \<and> ln_turn l = ''t'') [turn_line TypeUserMessage ''new''] = Some 0"
    by code_simp
  show "last_index (\<lambda>l. ln_type l = TypeCompaction) (take 0 [turn_line TypeUserMessage ''new'']) = None"
    by simp
qed (simp_all add: turn_line_def)

text \<open>Armed for a turn that compacted, the projection is seeded with the summary of the
turn's newest marker and the turn's own request; armed for one turn, the projection of every other
turn is the unarmed one.\<close>

theorem armed_retry_projects_marker:
  assumes "same_turn_marker_idx ls turn = Some m" "projected_user_idx ls turn = Some u" "turn \<noteq> []"
  shows "ms_content (hd (project_lines (set_retry_compacted_turn turn p) ls turn)) =
      seed_content (ln_summary (ls ! m)) (extract_text (Some (ls ! u)))
    \<and> (\<forall>m' < length ls. m < m' \<longrightarrow> \<not> (ln_type (ls ! m') = TypeCompaction \<and> ln_turn (ls ! m') = turn))
    \<and> (\<forall>other. other = turn \<or>
         project_lines (set_retry_compacted_turn turn p) ls other =
         project_lines (set_retry_compacted_turn [] p) ls other)"
proof -
  have content: "ms_content (seed_message c l) = c" for c l
    by (simp add: seed_message_def Let_def zero_message_def)
  show ?thesis
    using assms last_index_newest
    by (auto simp: project_lines_def set_retry_compacted_turn_def project_same_turn_compacted_def
        content Let_def same_turn_marker_idx_def project_scan_retry)
qed

theorem armed_retry_projects_marker_witness:
  "ms_content (hd (project_lines (set_retry_compacted_turn ''t'' \<lparr>pr_budget = 0, pr_retry = []\<rparr>)
     [turn_line TypeUserMessage ''go'', (turn_line TypeCompaction [])\<lparr>ln_summary := ''sum''\<rparr>] ''t'')) =
   seed_content ''sum'' ''go''"
proof -
  let ?ls = "[turn_line TypeUserMessage ''go'', (turn_line TypeCompaction [])\<lparr>ln_summary := ''sum''\<rparr>]"
  have "same_turn_marker_idx ?ls ''t'' = Some 1" "projected_user_idx ?ls ''t'' = Some 0" by code_simp+
  from armed_retry_projects_marker[OF this] show ?thesis by (simp add: turn_line_def zero_line_def extract_text_def)
qed

text \<open>A result that arrives after other messages of its turn leaves its batch: with 62 more
messages the bound cuts between them, and the window shows a tool result with no call.\<close>

theorem late_result_orphaned:
  "\<not> results_after_calls (bound_mid_turn (accumulate_mid_turn
     ([turn_line TypeUserMessage ''go'', call_line ''a'', call_line ''b'', result_line ''a'',
       turn_line TypeAssistantMessage ''x'', result_line ''b''] @
      replicate 62 (turn_line TypeAssistantMessage ''y'')) ''t''))"
  by code_simp

end
