(* ===== verification/Compaction.thy ===== *)
theory Compaction
  imports Projector
begin

text \<open>
  Compaction, \<^verbatim>\<open>kit/session/compaction.go\<close>: the threshold check, the text handed to the
  summarizer, the private reading of its stream, and the lines a compaction appends. The stream of a
  provider is what it delivers: an error on opening or a list of chunks, and the position in it from
  which the context of the call is dead.
\<close>

section \<open>Streams\<close>

datatype stream_err =
    ErrCtx
  | ErrStream string bool  \<comment> \<open>its text, and what \<^verbatim>\<open>provider.IsOverflow\<close> says of it\<close>

definition stream_err_text :: "stream_err \<Rightarrow> string" where
  "stream_err_text e = (case e of ErrCtx \<Rightarrow> ''context canceled'' | ErrStream m _ \<Rightarrow> m)"

definition is_overflow :: "stream_err \<Rightarrow> bool" where
  "is_overflow e = (case e of ErrCtx \<Rightarrow> False | ErrStream _ o' \<Rightarrow> o')"

definition call_error :: "stream_err \<Rightarrow> stream_err" where
  \<comment> \<open>\<^verbatim>\<open>fmt.Errorf("call: %w", err)\<close>: the classification of the wrapped error stays\<close>
  "call_error e = ErrStream (''call: '' @ stream_err_text e) (is_overflow e)"

datatype chunk =
    TextChunk string
  | ThinkingChunk raw_message
  | ToolChunk string "tool_call_msg option"
  | UsageChunk "(int \<times> int) option"
  | DoneChunk string
  | ErrorChunk "stream_err option"
  | OtherChunk string

record stream_run =
  sr_open :: "stream_err option"   \<comment> \<open>the error \<^verbatim>\<open>Provider.Stream\<close> returns\<close>
  sr_chunks :: "chunk list"
  sr_dead :: "nat option"          \<comment> \<open>the context is dead from this chunk on\<close>

definition dead_at :: "stream_run \<Rightarrow> nat \<Rightarrow> bool" where
  "dead_at sr i = (case sr_dead sr of None \<Rightarrow> False | Some k \<Rightarrow> k \<le> i)"

section \<open>The threshold\<close>

record compaction_settings =
  cs_enabled :: bool
  cs_threshold :: int
  cs_limit :: int

definition wrap64 :: "int \<Rightarrow> int" where
  \<comment> \<open>64-bit signed arithmetic\<close>
  "wrap64 n = sint (word_of_int n :: 64 word)"

definition clamp_compaction_pct :: "int \<Rightarrow> int" where
  "clamp_compaction_pct pct = (if pct < 1 then 1 else if pct > 100 then 100 else pct)"

definition over_threshold :: "int \<Rightarrow> int \<Rightarrow> int \<Rightarrow> int \<Rightarrow> bool" where
  "over_threshold last_input estimate limit pct =
     (if limit \<le> 0 then False
      else wrap64 (last_input + estimate) \<ge> wrap64 (limit * clamp_compaction_pct pct) sdiv 100)"

definition estimate_lines_since_last_request :: "line list \<Rightarrow> int" where
  "estimate_lines_since_last_request ls =
     (let start = (case last_index (\<lambda>l. ln_type l = TypeRequestShaped) ls of Some i \<Rightarrow> Suc i | None \<Rightarrow> 0)
      in int (sum_list (map (\<lambda>l. length (json_text (json_of_line l))) (drop start ls))) div 4)"

section \<open>The summarizer's input\<close>

definition raw_text :: "raw_message \<Rightarrow> string" where
  "raw_text raw = (case raw of None \<Rightarrow> [] | Some v \<Rightarrow> json_text v)"

definition render_span_message :: "message \<Rightarrow> string" where
  "render_span_message m =
     (if ms_role m = RoleUser then ''user: '' @ ms_content m @ [CHR 10]
      else if ms_role m = RoleAssistant then
        (if ms_content m \<noteq> [] then ''assistant: '' @ ms_content m @ [CHR 10] else []) @
        concat (map (\<lambda>tc. ''assistant tool_use '' @ tc_name tc @ '': '' @ raw_text (tc_input tc) @ [CHR 10])
          (ms_tool_calls m))
      else if ms_role m = RoleTool then ''tool '' @ ms_tool_name m @ '': '' @ ms_content m @ [CHR 10]
      else [])"

definition render_span :: "message list \<Rightarrow> string" where
  "render_span ms = concat (map render_span_message ms)"

definition prompt_instruction :: string where
  "prompt_instruction =
     ''Summarize the conversation below for a context-window compaction.'' @ [CHR 10] @
     ''Be strictly EXTRACTIVE: condense, never editorialize. Preserve in order of importance:'' @ [CHR 10] @
     ''1. The current task state (what is being built/fixed, where it stands).'' @ [CHR 10] @
     ''2. Every decision made and why.'' @ [CHR 10] @
     ''3. Open threads: unanswered questions, unfinished work, known risks.'' @ [CHR 10] @
     ''4. Key file paths, identifiers, and commands already established.'' @ [CHR 10] @
     ''Do not add commentary, suggestions, or new information. Output only the summary text.''"

definition compaction_prompt :: "string \<Rightarrow> string \<Rightarrow> string" where
  "compaction_prompt prev span =
     prompt_instruction @
     (if prev \<noteq> [] then [CHR 10, CHR 10] @ ''--- Previous compaction summary (carry it forward) ---'' @ [CHR 10] @ prev else []) @
     [CHR 10, CHR 10] @ ''--- Conversation to absorb ---'' @ [CHR 10] @ span"

definition span_budget_chars :: "int \<Rightarrow> string \<Rightarrow> int" where
  "span_budget_chars limit prev =
     (if limit \<le> 0 then 400000
      else max (wrap64 (limit * 4 * 60) sdiv 100 - (int (length prev) + int (length prompt_instruction) + 512)) 2000)"

fun span_keep :: "int \<Rightarrow> message list \<Rightarrow> int \<Rightarrow> message list \<Rightarrow> message list" where
  \<comment> \<open>the backward loop: messages newest first, the kept ones in order\<close>
  "span_keep max_chars [] t kept = kept"
| "span_keep max_chars (m # ms) t kept =
     (let cost = int (length (render_span_message m))
      in if kept \<noteq> [] \<and> t + cost > max_chars then kept
         else if t + cost > max_chars then m # kept
         else span_keep max_chars ms (t + cost) (m # kept))"

definition bound_span_messages :: "message list \<Rightarrow> int \<Rightarrow> message list" where
  "bound_span_messages ms max_chars = span_keep max_chars (rev ms) 0 []"

definition span_truncation_notice :: string where
  "span_truncation_notice = ''[earlier conversation truncated]'' @ [CHR 10]"

definition previous_marker :: "line list \<Rightarrow> string \<times> nat" where
  \<comment> \<open>the last marker's summary and the index after it\<close>
  "previous_marker ls =
     (case last_index (\<lambda>l. ln_type l = TypeCompaction) ls of
        None \<Rightarrow> ([], 0)
      | Some i \<Rightarrow> (ln_summary (ls ! i), Suc i))"

definition summarizer_input :: "int \<Rightarrow> line list \<Rightarrow> string" where
  "summarizer_input limit ls =
     (let (prev, n) = previous_marker ls;
          msgs = fold_exchanges ls n [] False;
          bounded = bound_span_messages msgs (span_budget_chars limit prev);
          span = render_span bounded
      in compaction_prompt prev
           (if length bounded < length msgs then span_truncation_notice @ span else span))"

record summarizer_profile =
  sp_model :: string
  sp_max_tokens :: int

definition summarizer_profile_of :: "string \<Rightarrow> summarizer_profile \<Rightarrow> summarizer_profile" where
  \<comment> \<open>the light-tier model, the session's profile\<close>
  "summarizer_profile_of subagent_model prof =
     \<lparr>sp_model = (if subagent_model \<noteq> [] then subagent_model else sp_model prof),
      sp_max_tokens = (if sp_max_tokens prof \<le> 0 \<or> sp_max_tokens prof > 2048 then 2048 else sp_max_tokens prof)\<rparr>"

section \<open>Compacting\<close>

fun read_summary :: "stream_run \<Rightarrow> nat \<Rightarrow> chunk list \<Rightarrow> string \<Rightarrow> int \<times> int \<Rightarrow> (string \<times> int \<times> int) option" where
  \<comment> \<open>the private consumer; \<open>None\<close> degrades\<close>
  "read_summary sr i [] txt use = (if dead_at sr i then None else Some (txt, use))"
| "read_summary sr i (c # cs) txt use =
     (if dead_at sr i then None
      else (case c of
              TextChunk t \<Rightarrow> read_summary sr (Suc i) cs (txt @ t) use
            | UsageChunk (Some u) \<Rightarrow> read_summary sr (Suc i) cs txt u
            | ErrorChunk (Some e) \<Rightarrow> None
            | _ \<Rightarrow> read_summary sr (Suc i) cs txt use))"

definition compaction_lines ::
    "string \<Rightarrow> string \<Rightarrow> string \<Rightarrow> int \<Rightarrow> line list \<Rightarrow> stream_run \<Rightarrow> line list option" where
  \<comment> \<open>\<open>uuid\<close> and the time are arguments; the usage line and the marker, or \<open>None\<close> when it degrades\<close>
  "compaction_lines uuid ts turn last_input ls sr =
     (case sr_open sr of
        Some e \<Rightarrow> None
      | None \<Rightarrow>
          (case read_summary sr 0 (sr_chunks sr) [] (0, 0) of
             None \<Rightarrow> None
           | Some (summary, inp, outp) \<Rightarrow>
               if summary = [] then None
               else Some [usage_line turn inp outp ts,
                 compaction_line turn uuid (''line:'' @ decimal (length ls - 1))
                   (''line:'' @ decimal (length ls + 1)) summary last_input outp 0 ts]))"

section \<open>Properties\<close>

lemma span_keep_bound:
  "int (length (render_span kept)) = t \<Longrightarrow> (kept = [] \<or> t \<le> k) \<Longrightarrow> 0 \<le> k \<Longrightarrow>
     int (length (render_span (span_keep k ms t kept))) \<le> k \<or> length (span_keep k ms t kept) \<le> 1"
proof (induction k ms t kept rule: span_keep.induct)
  case (2 k m ms t kept)
  have r: "int (length (render_span (m # kept))) = t + int (length (render_span_message m))"
    using "2.prems"(1) by (simp add: render_span_def)
  show ?case
    using 2 r by (cases "kept = []") (auto simp: Let_def)
qed (auto simp: render_span_def)

lemma span_keep_suffix: "\<exists>n. span_keep k ms t kept = rev (take n ms) @ kept"
proof (induction k ms t kept rule: span_keep.induct)
  case (2 k m ms t kept)
  let ?c = "int (length (render_span_message m))"
  show ?case
  proof (cases "t + ?c > k")
    case True
    have "rev (take 0 (m # ms)) @ kept = kept" "rev (take 1 (m # ms)) @ kept = m # kept" by simp_all
    with True show ?thesis unfolding span_keep.simps Let_def by metis
  next
    case False
    with 2 obtain n where "span_keep k ms (t + ?c) (m # kept) = rev (take n ms) @ m # kept" by auto
    then have "span_keep k (m # ms) t kept = rev (take (Suc n) (m # ms)) @ kept" using False by simp
    then show ?thesis by blast
  qed
qed (rule exI[of _ 0], simp)

lemma span_keep_newest: "kept \<noteq> [] \<or> ms \<noteq> [] \<Longrightarrow> span_keep k ms t kept \<noteq> []"
  by (induction k ms t kept rule: span_keep.induct) (auto simp: Let_def)

text \<open>The span handed to the summarizer is a suffix of the folded conversation whose text fits the
budget, or its newest message alone; it is never empty when there is a message; and the budget is
never below 2000 bytes.\<close>

theorem summarizer_span_bounded:
  "let kept = bound_span_messages ms (span_budget_chars limit prev)
   in suffix kept ms \<and> (ms \<noteq> [] \<longrightarrow> kept \<noteq> []) \<and> 2000 \<le> span_budget_chars limit prev \<and>
      (int (length (render_span kept)) \<le> span_budget_chars limit prev \<or> length kept \<le> 1)"
proof -
  let ?k = "span_budget_chars limit prev" and ?b = "bound_span_messages ms (span_budget_chars limit prev)"
  have k: "2000 \<le> ?k" by (simp add: span_budget_chars_def)
  obtain n where "?b = rev (take n (rev ms))"
    using span_keep_suffix[of ?k "rev ms" 0 "[]"] by (auto simp: bound_span_messages_def)
  then have "suffix ?b ms" by (simp add: take_rev suffix_drop)
  moreover have "int (length (render_span ?b)) \<le> ?k \<or> length ?b \<le> 1"
    using span_keep_bound[of "[]" 0 ?k "rev ms"] k by (simp add: bound_span_messages_def render_span_def)
  moreover have "ms \<noteq> [] \<longrightarrow> ?b \<noteq> []"
    using span_keep_newest[of "[]" "rev ms"] by (simp add: bound_span_messages_def)
  ultimately show ?thesis using k by (simp only: Let_def)
qed

theorem summarizer_span_bounded_witness:
  "bound_span_messages [user_text_message ''a'', user_text_message ''b''] (span_budget_chars 0 []) \<noteq> []"
  using summarizer_span_bounded[of "[user_text_message ''a'', user_text_message ''b'']" 0 "[]"]
  by (simp add: Let_def)

lemma fold_lines_filter:
  "(\<And>l. l \<in> set ls \<Longrightarrow> \<not> P l \<Longrightarrow> fold_line has l = id) \<Longrightarrow> fold_lines has (filter P ls) f = fold_lines has ls f"
  by (induction ls arbitrary: f) auto

lemma fold_skips_user: "ln_type l = TypeUserMessage \<Longrightarrow> fold_line has l = id"
  by (auto simp: fold_line_def)

text \<open>No user message reaches the summarizer: its input is the same for a transcript and for that
transcript with every user message taken out, so what the user asked before is absorbed by no summary.\<close>

theorem summarizer_never_sees_user:
  assumes "\<forall>l \<in> set ls. ln_type l \<noteq> TypeCompaction"
  shows "summarizer_input limit (filter (\<lambda>l. ln_type l \<noteq> TypeUserMessage) ls) = summarizer_input limit ls"
proof -
  let ?P = "\<lambda>l. ln_type l \<noteq> TypeUserMessage"
  have none: "last_index (\<lambda>l. ln_type l = TypeCompaction) xs = None" if "set xs \<subseteq> set ls" for xs
    using that assms by (induction xs) auto
  have "result_ids_of (filter ?P ls) 0 [] False = result_ids_of ls 0 [] False"
    by (auto simp: result_ids_of_def)
  moreover have "fold_lines has (filter ?P ls) f = fold_lines has ls f" for has f
    by (rule fold_lines_filter) (simp add: fold_skips_user)
  ultimately have "fold_exchanges (filter ?P ls) 0 [] False = fold_exchanges ls 0 [] False"
    by (simp add: fold_exchanges_def fold_window_def)
  then show ?thesis
    using none[of ls] none[of "filter ?P ls"] by (simp add: summarizer_input_def previous_marker_def)
qed

theorem summarizer_never_sees_user_witness:
  "summarizer_input 0 [user_message_line ''t'' [] ''ts'', assistant_message_line ''t'' ''ok'' ''ts''] =
   summarizer_input 0 [assistant_message_line ''t'' ''ok'' ''ts'']"
proof -
  let ?ls = "[user_message_line ''t'' [] ''ts'', assistant_message_line ''t'' ''ok'' ''ts'']"
  have "\<forall>l \<in> set ?ls. ln_type l \<noteq> TypeCompaction"
    by (simp add: user_message_line_def assistant_message_line_def record_line_def)
  from summarizer_never_sees_user[OF this, of 0] show ?thesis
    by (simp add: user_message_line_def assistant_message_line_def record_line_def)
qed

end
