(* ===== verification/Gate.thy ===== *)
theory Gate
  imports PermRules Toolcat TurnIds
begin

text \<open>
  The permission gate of \<^verbatim>\<open>kit/session/gate.go\<close> with the vocabulary of
  \<^verbatim>\<open>kit/session/types.go\<close>, the plan-mode gate of \<^verbatim>\<open>kit/session/planmode.go\<close> and
  the boundary rule of \<^verbatim>\<open>kit/session/boundary.go\<close>. A rule set and a hook are interfaces: the
  value of an interface is its method, and \<open>None\<close> is nil. The gate's rule view is a locale,
  interpreted on \<open>PermRules\<close>, the store the program wires.
\<close>

section \<open>Vocabulary\<close>

datatype hook_verdict = HookNone | HookDeny | HookAsk | HookAllow

datatype rule_verdict = RuleUnmatched | RuleAllow | RuleAsk | RuleDeny

datatype gate_action = GateExecute | GateDeny | GateSuspend | GateDeclineAutomation | GateAskHook

record gate_verdict =
  gv_action :: gate_action
  gv_result :: raw_message

record gate_deps =
  gd_hook :: "(string \<Rightarrow> raw_message \<Rightarrow> hook_verdict \<times> string) option"
  gd_rules :: "(string \<Rightarrow> string \<Rightarrow> rule_verdict) option" \<comment> \<open>the snapshot \<^verbatim>\<open>Rules()\<close> returns\<close>
  gd_mode :: "string option"                              \<comment> \<open>the value \<^verbatim>\<open>Mode()\<close> returns\<close>
  gd_subject :: "(string \<Rightarrow> string) option"

abbreviation (input) PermModeUngated :: string where "PermModeUngated \<equiv> ''ungated''"
abbreviation (input) PermModeGated :: string where "PermModeGated \<equiv> ''gated''"

definition canonical_tool_name :: "string \<Rightarrow> string" where
  "canonical_tool_name tool =
     (case cut_prefix tool mcp_prefix of
        None \<Rightarrow> tool
      | Some rest \<Rightarrow>
          (case cut rest mcp_sep of
             None \<Rightarrow> tool
           | Some (server, t) \<Rightarrow>
               if server = [] \<or> t = [] then tool else mcp_prefix @ server @ mcp_sep @ t))"

definition kit_rule_verdict :: "verdict \<Rightarrow> rule_verdict" where
  "kit_rule_verdict v =
     (case v of Unmatched \<Rightarrow> RuleUnmatched | VerdictAllow \<Rightarrow> RuleAllow
      | VerdictAsk \<Rightarrow> RuleAsk | VerdictDeny \<Rightarrow> RuleDeny)"

definition kit_rule_set :: "rule_set \<Rightarrow> string \<Rightarrow> string \<Rightarrow> rule_verdict" where
  "kit_rule_set rs tool arg = kit_rule_verdict (evaluate rs tool arg)"

section \<open>Result forms\<close>

definition error_form :: "string \<Rightarrow> raw_message" where
  "error_form msg = Some (JObj [(''error'', JStr msg)])"

definition permission_deny_form :: "string \<Rightarrow> raw_message" where
  "permission_deny_form tool = error_form (''Permission denied: '' @ tool @
     '' is denied by the project permission rules; the call was not executed.'')"

definition permission_hook_deny_form :: "string \<Rightarrow> string \<Rightarrow> raw_message" where
  "permission_hook_deny_form tool reason = error_form (''Permission denied: '' @ tool @
     '' is denied by a PreToolUse hook ('' @ (if reason = [] then ''no reason given'' else reason) @
     ''); the call was not executed.'')"

definition permission_decline_form :: "string \<Rightarrow> string \<Rightarrow> raw_message" where
  "permission_decline_form tool reason = error_form (''Permission declined: '' @ tool @
     '' requires approval but '' @ reason @
     ''. The call was not executed; it will re-ask in a foreground session.'')"

definition permission_cancelled_form :: "string \<Rightarrow> raw_message" where
  "permission_cancelled_form tool = Some (JObj [(''output'', JStr
     (''Tool call cancelled: the operator dismissed the permission dialog for '' @ tool @
      '' without granting it. Continue without this call'' @ [CHR 0x27] @ ''s result.''))])"

definition decline_no_human_reason :: string where
  "decline_no_human_reason = ''no human is present to approve it (automation turn)''"

definition decline_degraded_reason :: string where
  "decline_degraded_reason = ''the connected client cannot answer permission asks''"

section \<open>The gate\<close>

fun lenient_str :: "string \<Rightarrow> string \<Rightarrow> (string \<times> json) list \<Rightarrow> string" where
  \<comment> \<open>a string field whose decoding error is ignored: a value of another type leaves it as it is\<close>
  "lenient_str tag acc [] = acc"
| "lenient_str tag acc ((k, v) # fs) =
     lenient_str tag (if key_match k tag then (case as_str v of Some s \<Rightarrow> s | None \<Rightarrow> acc) else acc) fs"

definition str_member :: "string \<Rightarrow> raw_message \<Rightarrow> string" where
  "str_member tag input = (case input of Some (JObj fs) \<Rightarrow> lenient_str tag [] fs | _ \<Rightarrow> [])"

definition primary_arg_of :: "string \<Rightarrow> raw_message \<Rightarrow> string" where
  "primary_arg_of tool input =
     (if tool = ''Bash'' then str_member ''command'' input
      else if tool \<in> set [''Read'', ''Write'', ''Edit'', ''NotebookEdit''] then str_member ''file_path'' input
      else [])"

definition gate_hook_verdict :: "gate_deps \<Rightarrow> string \<Rightarrow> raw_message \<Rightarrow> gate_verdict option" where
  \<comment> \<open>\<open>None\<close> is decided = false\<close>
  "gate_hook_verdict d tool input =
     (case gd_hook d of
        None \<Rightarrow> None
      | Some f \<Rightarrow>
          (case f tool input of
             (HookDeny, reason) \<Rightarrow>
               Some \<lparr>gv_action = GateDeny, gv_result = permission_hook_deny_form tool reason\<rparr>
           | (HookAsk, _) \<Rightarrow> Some \<lparr>gv_action = GateAskHook, gv_result = None\<rparr>
           | (HookAllow, _) \<Rightarrow> Some \<lparr>gv_action = GateExecute, gv_result = None\<rparr>
           | (HookNone, _) \<Rightarrow> None))"

definition gate_mode :: "gate_deps \<Rightarrow> string" where
  "gate_mode d = (case gd_mode d of Some m \<Rightarrow> if m \<noteq> [] then m else PermModeUngated | None \<Rightarrow> PermModeUngated)"

definition gate_ask_class :: "catalog option \<Rightarrow> string \<Rightarrow> bool" where
  "gate_ask_class c tool =
     (case c of None \<Rightarrow> False
      | Some cat \<Rightarrow>
          (case cat_get cat tool of None \<Rightarrow> False
           | Some t \<Rightarrow> is_mutating t \<or> \<not> is_concurrency_safe t))"

definition rule_subject :: "gate_deps \<Rightarrow> string \<Rightarrow> string" where
  "rule_subject d tool = (case gd_subject d of Some f \<Rightarrow> f tool | None \<Rightarrow> canonical_tool_name tool)"

definition gate_dialog_kind :: "catalog \<Rightarrow> string \<Rightarrow> string" where
  "gate_dialog_kind c tool =
     (case cat_get c tool of
        Some t \<Rightarrow> if is_mutating t then ''edit'' else ''execute''
      | None \<Rightarrow> ''execute'')"

definition rule_step :: "gate_deps \<Rightarrow> string \<Rightarrow> raw_message \<Rightarrow> rule_verdict" where
  "rule_step d tool input =
     (case gd_rules d of
        None \<Rightarrow> RuleUnmatched
      | Some ev \<Rightarrow> ev (rule_subject d tool) (primary_arg_of tool input))"

definition ask_path :: "gate_deps \<Rightarrow> bool \<Rightarrow> bool \<Rightarrow> bool \<Rightarrow> string \<Rightarrow> gate_verdict" where
  \<comment> \<open>steps 3 to 5: automation turn, mode, degraded client\<close>
  "ask_path d from_hook automation degraded tool =
     (if automation then
        \<lparr>gv_action = GateDeclineAutomation, gv_result = permission_decline_form tool decline_no_human_reason\<rparr>
      else if \<not> from_hook \<and> gate_mode d \<noteq> PermModeGated then \<lparr>gv_action = GateExecute, gv_result = None\<rparr>
      else if degraded then
        \<lparr>gv_action = GateDeclineAutomation, gv_result = permission_decline_form tool decline_degraded_reason\<rparr>
      else \<lparr>gv_action = GateSuspend, gv_result = None\<rparr>)"

definition gate_call ::
    "gate_deps option \<Rightarrow> catalog option \<Rightarrow> bool \<Rightarrow> bool \<Rightarrow> string \<Rightarrow> raw_message \<Rightarrow> gate_verdict" where
  \<comment> \<open>\<open>gate_call deps catalog automation degraded tool input\<close>\<close>
  "gate_call deps c automation degraded tool input =
     (case deps of
        None \<Rightarrow> \<lparr>gv_action = GateExecute, gv_result = None\<rparr>
      | Some d \<Rightarrow>
          (case gate_hook_verdict d tool input of
             Some v \<Rightarrow> if gv_action v \<noteq> GateAskHook then v else ask_path d True automation degraded tool
           | None \<Rightarrow>
               (case rule_step d tool input of
                  RuleDeny \<Rightarrow> \<lparr>gv_action = GateDeny, gv_result = permission_deny_form tool\<rparr>
                | RuleAllow \<Rightarrow> \<lparr>gv_action = GateExecute, gv_result = None\<rparr>
                | RuleAsk \<Rightarrow> ask_path d False automation degraded tool
                | RuleUnmatched \<Rightarrow>
                    if \<not> gate_ask_class c tool then \<lparr>gv_action = GateExecute, gv_result = None\<rparr>
                    else ask_path d False automation degraded tool)))"

section \<open>Plan mode and boundaries\<close>

definition plan_mode_extra_refused :: "string list" where
  "plan_mode_extra_refused = [''SendMessage'', ''TaskStop'', ''CronCreate'', ''CronUpdate'', ''CronDelete'']"

definition plan_mode_on :: "plan_mode option \<Rightarrow> bool" where
  "plan_mode_on p = (case p of None \<Rightarrow> False | Some m \<Rightarrow> pm_on m)"

definition plan_mode_blocks :: "plan_mode option \<Rightarrow> catalog option \<Rightarrow> string \<Rightarrow> bool" where
  "plan_mode_blocks p c tool =
     (if \<not> plan_mode_on p then False
      else tool \<in> set plan_mode_extra_refused \<or> is_catalog_mutating c tool)"

definition plan_mode_refusal :: raw_message where
  "plan_mode_refusal = Some (JStr ''Plan mode only allows read-only, non-destructive tools'')"

definition plan_approval_question :: "string \<Rightarrow> string" where
  "plan_approval_question plan =
     ''Approve this implementation plan? Reply with an option.'' @ [CHR 10, CHR 10] @ plan"

function to_lower :: "string \<Rightarrow> string" where
  \<comment> \<open>\<^verbatim>\<open>strings.ToLower\<close> on the runes whose lower case is ASCII: the capitals, U+0130 and U+212A\<close>
  "to_lower [] = []"
| "to_lower (c # s) =
     (if prefix [CHR 0xE2, CHR 0x84, CHR 0xAA] (c # s) then CHR ''k'' # to_lower (drop 2 s)
      else if prefix [CHR 0xC4, CHR 0xB0] (c # s) then CHR ''i'' # to_lower (drop 1 s)
      else lower_ascii c # to_lower s)"
  by pat_completeness auto
termination by (relation "measure length") auto

definition is_approval_reply :: "string \<Rightarrow> bool" where
  "is_approval_reply reply =
     (to_lower (trim_space reply) \<in>
        set [''approve'', ''approved'', ''yes'', ''y'', ''ok'', ''go ahead'', ''1''])"

definition render_plan_approval_resolved :: "string \<Rightarrow> string \<Rightarrow> string \<times> bool" where
  "render_plan_approval_resolved plan reply =
     (if is_approval_reply reply then
        (''User has approved your plan. You can now start coding. Start with updating your todo list if applicable. ## Approved Plan: '' @ plan, False)
      else (''Permission denied for ExitPlanMode'', True))"

definition boundary_cause :: "catalog option \<Rightarrow> string list \<Rightarrow> string \<Rightarrow> string option" where
  \<comment> \<open>the cause \<^verbatim>\<open>MaybeAppendBoundary\<close> records; \<open>None\<close> is no line\<close>
  "boundary_cause c config_added tool =
     (case c of
        None \<Rightarrow> None
      | Some cat \<Rightarrow>
          if \<not> is_boundary tool (Some cat) config_added then None
          else if is_catalog_mutating (Some cat) tool then Some (''mutating-command:'' @ tool)
          else Some (''config-added:'' @ tool))"

section \<open>The rule view\<close>

locale rule_view =
  fixes eval :: "string \<Rightarrow> string \<Rightarrow> rule_verdict"
    and denied :: "string \<Rightarrow> string \<Rightarrow> bool"
    and allowed :: "string \<Rightarrow> string \<Rightarrow> bool"
  assumes deny_law: "denied t a \<Longrightarrow> eval t a = RuleDeny"
    and deny_only: "eval t a = RuleDeny \<Longrightarrow> denied t a"
    and allow_law: "eval t a = RuleAllow \<Longrightarrow> allowed t a"
begin

lemma executes_only_if:
  assumes "gd_rules d = Some eval" "gate_hook_verdict d tool input = None"
    "gv_action (gate_call (Some d) c automation degraded tool input) = GateExecute"
  shows "\<not> denied (rule_subject d tool) (primary_arg_of tool input) \<and>
    (allowed (rule_subject d tool) (primary_arg_of tool input) \<or> \<not> gate_ask_class c tool \<or>
     (\<not> automation \<and> gate_mode d \<noteq> PermModeGated))"
proof -
  let ?v = "eval (rule_subject d tool) (primary_arg_of tool input)"
  have "?v \<noteq> RuleDeny" using assms by (auto simp: gate_call_def rule_step_def)
  moreover have "?v = RuleAllow \<or> \<not> gate_ask_class c tool \<or> (\<not> automation \<and> gate_mode d \<noteq> PermModeGated)"
    using assms by (auto simp: gate_call_def rule_step_def ask_path_def split: rule_verdict.splits if_splits)
  ultimately show ?thesis using deny_law allow_law by metis
qed

lemma denied_not_executed:
  assumes "gd_rules d = Some eval" "gate_hook_verdict d tool input = None"
    "denied (rule_subject d tool) (primary_arg_of tool input)"
  shows "gv_action (gate_call (Some d) c automation degraded tool input) = GateDeny"
  using assms deny_law by (simp add: gate_call_def rule_step_def)

end

lemma kit_rule_verdict_simps [simp]:
  "kit_rule_verdict v = RuleDeny \<longleftrightarrow> v = VerdictDeny" "kit_rule_verdict v = RuleAllow \<longleftrightarrow> v = VerdictAllow"
  "kit_rule_verdict v = RuleAsk \<longleftrightarrow> v = VerdictAsk" "kit_rule_verdict v = RuleUnmatched \<longleftrightarrow> v = Unmatched"
  by (cases v; simp add: kit_rule_verdict_def)+

definition rule_denied :: "rule_set \<Rightarrow> string \<Rightarrow> string \<Rightarrow> bool" where
  "rule_denied rs tool arg = (\<exists>sub \<in> set (subjects tool arg). some_rule (rs_deny rs) tool sub)"

definition rule_allowed :: "rule_set \<Rightarrow> string \<Rightarrow> string \<Rightarrow> bool" where
  \<comment> \<open>every part of the call matches an allow rule and is free of substitutions\<close>
  "rule_allowed rs tool arg =
     (\<forall>sub \<in> set (subjects tool arg). some_rule (rs_allow rs) tool sub \<and> \<not> has_substitution sub)"

interpretation perm_view: rule_view "kit_rule_set rs" "rule_denied rs" "rule_allowed rs" for rs
proof unfold_locales
  fix t a
  show "rule_denied rs t a \<Longrightarrow> kit_rule_set rs t a = RuleDeny"
    "kit_rule_set rs t a = RuleDeny \<Longrightarrow> rule_denied rs t a"
    by (simp_all add: kit_rule_set_def evaluate_Deny rule_denied_def)
  show "kit_rule_set rs t a = RuleAllow \<Longrightarrow> rule_allowed rs t a"
    by (simp add: kit_rule_set_def evaluate_Allow evaluate_single_Allow rule_allowed_def)
qed

section \<open>Lemmas\<close>

lemma canonical_tool_name_id: "canonical_tool_name t = t"
  using cut_Some_append by (auto simp: canonical_tool_name_def cut_prefix_Some split: option.splits) fastforce

lemma gate_action_cases:
  "gv_action (gate_call deps c automation degraded tool input) \<noteq> GateAskHook"
  by (auto simp: gate_call_def ask_path_def split: option.splits rule_verdict.splits)

lemma ask_path_suspends:
  "gv_action (ask_path d h automation degraded tool) = GateSuspend \<longleftrightarrow>
     \<not> automation \<and> \<not> degraded \<and> (h \<or> gate_mode d = PermModeGated)"
  by (auto simp: ask_path_def)

lemma hook_decided:
  "gate_hook_verdict d tool input = Some v \<Longrightarrow> gv_action v \<noteq> GateSuspend"
  by (auto simp: gate_hook_verdict_def split: option.splits prod.splits hook_verdict.splits)

section \<open>Properties\<close>


definition sample_deps :: gate_deps where
  "sample_deps = \<lparr>gd_hook = None,
     gd_rules = Some (kit_rule_set (fst (new_rule_set [''Bash(rm *)''] [] []))),
     gd_mode = Some PermModeUngated, gd_subject = None\<rparr>"




end
