(* ===== verification/Asks.thy ===== *)
theory Asks
  imports Gate AskQueue Utf8
begin

text \<open>
  Model-initiated questions and permission suspensions, \<^verbatim>\<open>kit/session/ask.go\<close>: the broker
  that holds one pending ask and its timer, the rendering of answers, the bounded elicitation loop,
  and the mapping of a dialog's outcome to the result of the gated call. Broker callbacks run in
  goroutines: the timer is a goroutine that starts when the timer expires and claims later, and a
  step relation interleaves it with replies and new questions. Times are durations in
  nanoseconds; their text and the text of \<^verbatim>\<open>%q\<close> are arguments.
\<close>

section \<open>Data\<close>

record ask_option =
  op_label :: string
  op_description :: string

record ask_question =
  qn_question :: string
  qn_header :: string
  qn_options :: "ask_option list"
  qn_multi :: bool

record pending_ask =
  pa_turn :: string
  pa_call :: string
  pa_questions :: "ask_question list"
  pa_kind :: string
  pa_tool :: string
  pa_input :: raw_message
  pa_settle :: "nat option" \<comment> \<open>the settle channel\<close>

abbreviation (input) KindQuestion :: string where "KindQuestion \<equiv> ''''"
abbreviation (input) KindPlanApproval :: string where "KindPlanApproval \<equiv> ''plan_approval''"
abbreviation (input) KindPermission :: string where "KindPermission \<equiv> ''permission''"

section \<open>The broker\<close>

record ask_broker =
  br_pending :: "pending_ask option"
  br_timeout :: int
  br_hook :: bool              \<comment> \<open>\<^verbatim>\<open>onTimeout\<close> is set\<close>
  br_timer :: "nat option"     \<comment> \<open>the armed timer, not yet expired or stopped\<close>
  br_settle :: "nat option"
  br_fresh :: nat              \<comment> \<open>names for channels and timers\<close>

definition default_ask_timeout :: int where
  "default_ask_timeout = 600000000000"

definition new_ask_broker :: "int \<Rightarrow> ask_broker" where
  "new_ask_broker t = \<lparr>br_pending = None, br_timeout = (if t < 0 then default_ask_timeout else t),
     br_hook = False, br_timer = None, br_settle = None, br_fresh = 0\<rparr>"

definition set_on_timeout :: "bool \<Rightarrow> ask_broker \<Rightarrow> ask_broker" where
  "set_on_timeout h b = b\<lparr>br_hook := h\<rparr>"

definition broker_pending :: "ask_broker \<Rightarrow> bool" where
  "broker_pending b = (br_pending b \<noteq> None)"

definition broker_snapshot :: "ask_broker \<Rightarrow> pending_ask option" where
  "broker_snapshot b = br_pending b"

definition stop_timer :: "ask_broker \<Rightarrow> ask_broker" where
  "stop_timer b = b\<lparr>br_timer := None\<rparr>"

definition surface :: "pending_ask \<Rightarrow> ask_broker \<Rightarrow> ask_broker" where
  "surface p b =
     (let n = br_fresh b;
          b' = stop_timer (b\<lparr>br_settle := Some n, br_pending := Some (p\<lparr>pa_settle := Some n\<rparr>), br_fresh := n + 1\<rparr>)
      in if br_timeout b > 0 \<and> br_hook b then b'\<lparr>br_timer := Some n\<rparr> else b')"

definition claim :: "ask_broker \<Rightarrow> ask_broker \<times> pending_ask option" where
  "claim b =
     (case br_pending b of
        None \<Rightarrow> (b, None)
      | Some p \<Rightarrow> (stop_timer (b\<lparr>br_pending := None\<rparr>), Some p))"

definition arm_timeout :: "int \<Rightarrow> bool \<Rightarrow> ask_broker \<Rightarrow> ask_broker" where
  \<comment> \<open>\<open>fire\<close>: a callback is given\<close>
  "arm_timeout when fire b =
     (let b' = stop_timer b
      in if when > 0 \<and> fire then b'\<lparr>br_timer := Some (br_fresh b), br_fresh := br_fresh b + 1\<rparr> else b')"

definition disarm :: "ask_broker \<Rightarrow> ask_broker" where
  "disarm b = stop_timer b"

definition settle_chan :: "ask_broker \<Rightarrow> nat option" where
  "settle_chan b = br_settle b"

definition arm_settle :: "nat \<Rightarrow> ask_broker \<Rightarrow> ask_broker" where
  "arm_settle ch b = b\<lparr>br_settle := Some ch\<rparr>"

subsection \<open>Replies and timers\<close>

datatype driver = Reply | Timer nat

record broker_sys =
  bs_broker :: ask_broker
  bs_callbacks :: "nat list"                    \<comment> \<open>expired timers whose goroutine has not claimed yet\<close>
  bs_surfaced :: "nat list"                     \<comment> \<open>settle channels of the surfaced asks\<close>
  bs_resumed :: "(nat \<times> driver) list"           \<comment> \<open>resumed asks, by settle channel, with their driver\<close>
  bs_replaced :: "nat list"                     \<comment> \<open>asks a later ask took the place of\<close>

definition settle_of :: "pending_ask \<Rightarrow> nat" where
  "settle_of p = (case pa_settle p of Some n \<Rightarrow> n | None \<Rightarrow> 0)"

definition sys_claim :: "driver \<Rightarrow> broker_sys \<Rightarrow> broker_sys" where
  "sys_claim d s =
     (case claim (bs_broker s) of
        (b, None) \<Rightarrow> s\<lparr>bs_broker := b\<rparr>
      | (b, Some p) \<Rightarrow> s\<lparr>bs_broker := b, bs_resumed := bs_resumed s @ [(settle_of p, d)]\<rparr>)"

definition sys_surface :: "pending_ask \<Rightarrow> broker_sys \<Rightarrow> broker_sys" where
  "sys_surface p s =
     s\<lparr>bs_broker := surface p (bs_broker s), bs_surfaced := bs_surfaced s @ [br_fresh (bs_broker s)],
       bs_replaced := (case br_pending (bs_broker s) of
           Some q \<Rightarrow> bs_replaced s @ [settle_of q] | None \<Rightarrow> bs_replaced s)\<rparr>"

definition sys_expire :: "broker_sys \<Rightarrow> broker_sys" where
  \<comment> \<open>\<^verbatim>\<open>time.AfterFunc\<close> starts the callback's goroutine\<close>
  "sys_expire s =
     (case br_timer (bs_broker s) of
        None \<Rightarrow> s
      | Some t \<Rightarrow> s\<lparr>bs_broker := stop_timer (bs_broker s), bs_callbacks := bs_callbacks s @ [t]\<rparr>)"

inductive broker_step :: "broker_sys \<Rightarrow> broker_sys \<Rightarrow> bool" where
  surfaces: "broker_step s (sys_surface p s)"
| replies: "broker_step s (sys_claim Reply s)"
| expires: "broker_step s (sys_expire s)"
| callback: "t \<in> set (bs_callbacks s) \<Longrightarrow>
    broker_step s (sys_claim (Timer t) (s\<lparr>bs_callbacks := remove1 t (bs_callbacks s)\<rparr>))"
| disarms: "broker_step s (s\<lparr>bs_broker := disarm (bs_broker s)\<rparr>)"

definition new_broker_sys :: "int \<Rightarrow> broker_sys" where
  "new_broker_sys t = \<lparr>bs_broker = set_on_timeout True (new_ask_broker t), bs_callbacks = [],
     bs_surfaced = [], bs_resumed = [], bs_replaced = []\<rparr>"

inductive broker_reach :: "int \<Rightarrow> broker_sys \<Rightarrow> bool" for t where
  init: "broker_reach t (new_broker_sys t)"
| move: "broker_reach t s \<Longrightarrow> broker_step s s' \<Longrightarrow> broker_reach t s'"

inductive_cases broker_stepE: "broker_step s s'"

definition held_ids :: "broker_sys \<Rightarrow> nat list" where
  "held_ids s = (case br_pending (bs_broker s) of Some p \<Rightarrow> [settle_of p] | None \<Rightarrow> [])"

definition broker_inv :: "broker_sys \<Rightarrow> bool" where
  "broker_inv s =
     (mset (bs_surfaced s) = mset (map fst (bs_resumed s)) + mset (bs_replaced s) + mset (held_ids s) \<and>
      distinct (bs_surfaced s) \<and> (\<forall>n \<in> set (bs_surfaced s). n < br_fresh (bs_broker s)) \<and>
      (br_timer (bs_broker s) \<noteq> None \<longrightarrow> br_pending (bs_broker s) \<noteq> None) \<and>
      (\<forall>p. br_pending (bs_broker s) = Some p \<longrightarrow> pa_settle p \<noteq> None))"

lemma broker_inv_init: "broker_inv (new_broker_sys t)"
  by (simp add: broker_inv_def new_broker_sys_def new_ask_broker_def set_on_timeout_def held_ids_def)

lemma broker_inv_claim: "broker_inv s \<Longrightarrow> broker_inv (sys_claim d s)"
  by (auto simp: broker_inv_def sys_claim_def claim_def stop_timer_def held_ids_def split: option.splits)

lemma broker_inv_surface: "broker_inv s \<Longrightarrow> broker_inv (sys_surface p s)"
  by (auto simp: broker_inv_def sys_surface_def surface_def stop_timer_def held_ids_def settle_of_def Let_def
      split: option.splits if_splits)

lemma broker_inv_callbacks [simp]: "broker_inv (s\<lparr>bs_callbacks := x\<rparr>) = broker_inv s"
  by (simp add: broker_inv_def held_ids_def)

lemma broker_inv_step: "broker_step s s' \<Longrightarrow> broker_inv s \<Longrightarrow> broker_inv s'"
proof (erule broker_stepE)
  show "broker_inv s \<Longrightarrow> s' = sys_expire s \<Longrightarrow> broker_inv s'"
    by (auto simp: broker_inv_def sys_expire_def stop_timer_def held_ids_def split: option.splits)
  show "broker_inv s \<Longrightarrow> s' = s\<lparr>bs_broker := disarm (bs_broker s)\<rparr> \<Longrightarrow> broker_inv s'"
    by (simp add: broker_inv_def disarm_def stop_timer_def held_ids_def)
  show "broker_inv s \<Longrightarrow> s' = sys_claim (Timer t) (s\<lparr>bs_callbacks := remove1 t (bs_callbacks s)\<rparr>) \<Longrightarrow> broker_inv s'" for t
    by (simp add: broker_inv_claim)
qed (auto intro: broker_inv_claim broker_inv_surface)

lemma broker_inv_reach: "broker_reach t s \<Longrightarrow> broker_inv s"
  by (induction rule: broker_reach.induct) (auto intro: broker_inv_init broker_inv_step)

section \<open>Rendering\<close>

definition structured_property_key :: "nat \<Rightarrow> string" where
  "structured_property_key i = CHR ''q'' # decimal (i + 1)"

definition answered_form :: "string \<Rightarrow> string" where
  "answered_form body = ''User has answered your questions: '' @ body @
     ''. You can now continue with the user'' @ [CHR 0x27] @ ''s answers in mind.''"

definition render_ask_answered :: "(string \<Rightarrow> string) \<Rightarrow> ask_question list \<Rightarrow> string \<Rightarrow> string" where
  \<comment> \<open>\<open>quote\<close> is \<^verbatim>\<open>%q\<close>\<close>
  "render_ask_answered quote qs reply =
     answered_form
       (if qs = [] then quote reply
        else join_with '', '' (map (\<lambda>q. quote (qn_question q) @ ''='' @ quote reply) qs))"

definition render_ask_non_answer :: "string \<Rightarrow> string" where
  "render_ask_non_answer dur =
     ''User has not answered your questions (ask timed out after '' @ dur @
     ''); proceed or decline on your own.''"

fun render_structured_value :: "json option \<Rightarrow> string" where
  "render_structured_value (Some (JStr s)) = s"
| "render_structured_value (Some (JArr vs)) =
     (case those_strs vs of Some ss \<Rightarrow> join_with '','' ss | None \<Rightarrow> [])"
| "render_structured_value (Some (JBool b)) = (if b then ''true'' else ''false'')"
| "render_structured_value _ = []"

definition structured_lines :: "ask_question list \<Rightarrow> (string \<times> json) list \<Rightarrow> string list" where
  "structured_lines qs content =
     map (\<lambda>(i, q). (if qn_header q = [] then structured_property_key i else qn_header q) @ ''='' @
        render_structured_value (map_of content (structured_property_key i))) (enumerate 0 qs)"

definition render_structured_reply ::
    "(string \<Rightarrow> string) \<Rightarrow> ask_question list \<Rightarrow> (string \<times> json) list \<Rightarrow> string" where
  "render_structured_reply quote qs content =
     (case (if length qs = 1 then map_of content (structured_property_key 0) else None) of
        Some (JStr reply) \<Rightarrow> render_ask_answered quote qs reply
      | _ \<Rightarrow> answered_form (join_with [CHR 10] (structured_lines qs content)))"

definition plan_of :: "ask_question list \<Rightarrow> string" where
  "plan_of qs =
     (case qs of [] \<Rightarrow> []
      | q # _ \<Rightarrow> (case cut (qn_question q) [CHR 10, CHR 10] of
           Some (_, plan) \<Rightarrow> plan | None \<Rightarrow> qn_question q))"

definition resume_form ::
    "(string \<Rightarrow> string) \<Rightarrow> string \<Rightarrow> pending_ask \<Rightarrow> string option \<Rightarrow> string \<times> bool \<times> bool" where
  \<comment> \<open>the switch of \<^verbatim>\<open>resumeAskClaimed\<close>: the form, its error flag, and whether plan mode is left\<close>
  "resume_form quote dur p reply =
     (case reply of
        Some r \<Rightarrow>
          if pa_kind p = KindPlanApproval then
            (if is_approval_reply r then (fst (render_plan_approval_resolved (plan_of (pa_questions p)) r), False, True)
             else (fst (render_plan_approval_resolved (plan_of (pa_questions p)) r),
                   snd (render_plan_approval_resolved (plan_of (pa_questions p)) r), False))
          else (render_ask_answered quote (pa_questions p) r, False, False)
      | None \<Rightarrow> (render_ask_non_answer dur, False, False))"

section \<open>The elicitation loop\<close>

datatype elicit_verdict = ElicitFallen | ElicitAcceptOK | ElicitReask | ElicitNonAnswer

definition elicitation_verdict :: "ask_outcome \<Rightarrow> nat \<Rightarrow> elicit_verdict" where
  "elicitation_verdict out attempt =
     (if ao_fallback out then ElicitFallen
      else if ao_cancelled out \<or> ao_elicit out = ''decline'' then ElicitNonAnswer
      else if ao_elicit out = ''accept'' \<and> ao_violation out = [] then ElicitAcceptOK
      else if ao_elicit out = ''accept'' \<and> attempt = 0 then ElicitReask
      else ElicitNonAnswer)"

fun elicit_rounds :: "nat \<Rightarrow> ask_outcome list \<Rightarrow> nat \<times> (elicit_verdict \<times> ask_outcome) option" where
  \<comment> \<open>the question family: the outcome of each surface round in turn; the number of rounds used
    and the verdict that ended the loop (\<open>None\<close>: a round has not been answered yet)\<close>
  "elicit_rounds attempt [] = (1, None)"
| "elicit_rounds attempt (out # outs) =
     (if elicitation_verdict out attempt = ElicitReask then
        (let (n, v) = elicit_rounds (attempt + 1) outs in (Suc n, v))
      else (1, Some (elicitation_verdict out attempt, out)))"

definition engine_ask_answer :: "(string \<times> json) list \<Rightarrow> string option" where
  \<comment> \<open>\<open>content\<close> has one entry per key\<close>
  "engine_ask_answer content =
     (if length content \<noteq> 1 then None
      else (case map_of content (structured_property_key 0) of Some (JStr s) \<Rightarrow> Some s | _ \<Rightarrow> None))"

definition engine_land :: "nat \<Rightarrow> ask_outcome \<Rightarrow> (string option) option" where
  \<comment> \<open>the callbacks of an engine ask: \<open>Some (Some a)\<close> calls onAccept, \<open>Some None\<close> calls onDecline,
    \<open>None\<close> enqueues the re-ask\<close>
  "engine_land attempt out =
     (case elicitation_verdict out attempt of
        ElicitAcceptOK \<Rightarrow> Some (engine_ask_answer (ao_content out))
      | ElicitReask \<Rightarrow> None
      | _ \<Rightarrow> Some None)"

section \<open>The outcome of a permission dialog\<close>

datatype perm_effect = MarkDegraded | PersistAllow string | PersistForbid string | ExecuteCall

definition resolve_permission_outcome ::
    "(ask_err \<Rightarrow> string) \<Rightarrow> raw_message \<times> bool \<Rightarrow> pending_ask \<Rightarrow> ask_outcome \<Rightarrow>
     (raw_message \<times> bool \<times> bool) \<times> perm_effect list" where
  \<comment> \<open>\<open>run\<close> is what executing the call gives; the triple is (result, isErr, executed), and the
    effects are in the order the code has them\<close>
  "resolve_permission_outcome show_err run p out =
     (case ao_err out of
        Some e \<Rightarrow> ((permission_decline_form (pa_tool p) (show_err e), True, False),
                   if ao_unsupported out then [MarkDegraded] else [])
      | None \<Rightarrow>
          if ao_cancelled out then ((permission_cancelled_form (pa_tool p), False, False), [])
          else if ao_selected out = ''allow_always'' then
            ((fst run, snd run, \<not> snd run), [PersistAllow (pa_tool p), ExecuteCall])
          else if ao_selected out = ''allow_once'' then ((fst run, snd run, \<not> snd run), [ExecuteCall])
          else if ao_selected out = ''reject_once'' then ((permission_deny_form (pa_tool p), True, False), [])
          else if ao_selected out = ''reject_always'' then
            ((permission_deny_form (pa_tool p), True, False), [PersistForbid (pa_tool p)])
          else ((permission_decline_form (pa_tool p) ''the dialog returned an unknown option'', True, False), []))"

section \<open>Properties\<close>

text \<open>C26. However replies, timer goroutines and new questions interleave, an ask is resumed at most
once, by one driver, and every surfaced ask is pending, resumed, or was replaced by a later one; an
armed timer always has a pending ask.\<close>

theorem ask_resumed_at_most_once:
  assumes "broker_reach t s"
  shows "distinct (map fst (bs_resumed s)) \<and>
    set (bs_surfaced s) = fst ` set (bs_resumed s) \<union> set (bs_replaced s) \<union> set (held_ids s) \<and>
    fst ` set (bs_resumed s) \<inter> (set (bs_replaced s) \<union> set (held_ids s)) = {} \<and>
    (br_timer (bs_broker s) \<noteq> None \<longrightarrow> broker_pending (bs_broker s))"
proof -
  have inv: "broker_inv s" by (rule broker_inv_reach[OF assms])
  then have m: "mset (bs_surfaced s) = mset (map fst (bs_resumed s) @ bs_replaced s @ held_ids s)"
    and d: "distinct (bs_surfaced s)" by (auto simp: broker_inv_def)
  have "distinct (map fst (bs_resumed s) @ bs_replaced s @ held_ids s)"
    using mset_eq_imp_distinct_iff[OF m] d by simp
  moreover have "set (bs_surfaced s) = set (map fst (bs_resumed s) @ bs_replaced s @ held_ids s)"
    using mset_eq_setD[OF m] .
  ultimately show ?thesis using inv by (auto simp: broker_inv_def broker_pending_def)
qed

definition question :: pending_ask where
  "question = \<lparr>pa_turn = ''t'', pa_call = ''c'', pa_questions = [], pa_kind = KindQuestion, pa_tool = [],
     pa_input = None, pa_settle = None\<rparr>"

theorem ask_resumed_at_most_once_witness:
  "distinct (map fst (bs_resumed (sys_claim Reply (sys_surface question (new_broker_sys 5)))))
   \<and> bs_resumed (sys_claim Reply (sys_surface question (new_broker_sys 5))) = [(0, Reply)]"
proof -
  have "broker_reach 5 (sys_claim Reply (sys_surface question (new_broker_sys 5)))"
    using broker_reach.init broker_step.surfaces broker_step.replies broker_reach.move by metis
  moreover have "bs_resumed (sys_claim Reply (sys_surface question (new_broker_sys 5))) = [(0, Reply)]"
    by code_simp
  ultimately show ?thesis using ask_resumed_at_most_once by blast
qed

text \<open>The timer's callback claims whatever is pending when it runs: an expired timer whose
goroutine is overtaken by the reply and by the next question resumes that later question, which had
not waited at all.\<close>

theorem expired_timer_claims_later_ask:
  "\<exists>s. broker_reach 5 s \<and> bs_surfaced s = [0, 1] \<and> bs_resumed s = [(0, Reply), (1, Timer 0)]"
proof -
  let ?a = "sys_surface question (new_broker_sys 5)"
  let ?b = "sys_expire ?a"
  let ?c = "sys_claim Reply ?b"
  let ?d = "sys_surface question ?c"
  let ?e = "sys_claim (Timer 0) (?d\<lparr>bs_callbacks := remove1 0 (bs_callbacks ?d)\<rparr>)"
  have "broker_reach 5 ?d"
    using broker_reach.init broker_step.surfaces broker_step.expires broker_step.replies broker_reach.move by metis
  moreover have "0 \<in> set (bs_callbacks ?d)" by code_simp
  ultimately have "broker_reach 5 ?e" by (intro broker_reach.move[OF _ broker_step.callback])
  moreover have "bs_surfaced ?e = [0, 1] \<and> bs_resumed ?e = [(0, Reply), (1, Timer 0)]" by code_simp
  ultimately show ?thesis by blast
qed

text \<open>A gated call runs only after the operator selected an allow option; an always-option is
recorded before the call runs; a surface failure, a dismissal, a rejection or an unknown option never
runs it, and of these only the dismissal is not an error.\<close>

theorem dialog_outcome_safe:
  "let ((result, is_err, executed), effects) = resolve_permission_outcome show_err run p out
   in (ExecuteCall \<in> set effects \<longrightarrow> ao_err out = None \<and> \<not> ao_cancelled out \<and>
        ao_selected out \<in> {''allow_once'', ''allow_always''} \<and> result = fst run \<and> is_err = snd run) \<and>
      (executed \<longrightarrow> ExecuteCall \<in> set effects \<and> \<not> is_err) \<and>
      (ao_selected out = ''allow_always'' \<and> ExecuteCall \<in> set effects \<longrightarrow>
        effects = [PersistAllow (pa_tool p), ExecuteCall]) \<and>
      (ExecuteCall \<notin> set effects \<longrightarrow> (is_err = (\<not> (ao_err out = None \<and> ao_cancelled out))))"
  by (auto simp: resolve_permission_outcome_def Let_def split: option.splits)

theorem dialog_outcome_safe_witness:
  "snd (resolve_permission_outcome (\<lambda>e. []) (None, False)
     (question\<lparr>pa_tool := ''Bash''\<rparr>) (zero_outcome\<lparr>ao_selected := ''allow_always''\<rparr>)) =
   [PersistAllow ''Bash'', ExecuteCall]"
proof -
  let ?p = "question\<lparr>pa_tool := ''Bash''\<rparr>" and ?o = "zero_outcome\<lparr>ao_selected := ''allow_always''\<rparr>"
  have "ExecuteCall \<in> set (snd (resolve_permission_outcome (\<lambda>e. []) (None, False) ?p ?o))" by code_simp
  then show ?thesis
    using dialog_outcome_safe[of "\<lambda>e. []" "(None, False)" ?p ?o]
    by (simp add: split_beta Let_def zero_outcome_def)
qed

text \<open>A question is put at most twice; a decline or a dismissal ends it at once; it ends as an
acceptance only with an accepted answer that violates nothing.\<close>

theorem elicitation_bounded:
  "fst (elicit_rounds 0 outs) \<le> 2 \<and>
   (\<forall>v out. snd (elicit_rounds 0 outs) = Some (v, out) \<longrightarrow> out \<in> set outs \<and> v \<noteq> ElicitReask \<and>
      (v = ElicitAcceptOK \<longrightarrow> ao_elicit out = ''accept'' \<and> ao_violation out = [] \<and> \<not> ao_cancelled out)) \<and>
   (\<forall>out rest. outs = out # rest \<and> (ao_cancelled out \<or> ao_elicit out = ''decline'') \<longrightarrow> fst (elicit_rounds 0 outs) = 1)"
proof -
  have later: "elicit_rounds (Suc 0) os = (1, case os of [] \<Rightarrow> None | out # _ \<Rightarrow> Some (elicitation_verdict out 1, out))" for os
    by (cases os) (auto simp: elicitation_verdict_def)
  show ?thesis
    by (cases outs) (auto simp: later elicitation_verdict_def split: list.splits if_splits)
qed

theorem elicitation_bounded_witness:
  "fst (elicit_rounds 0 [zero_outcome\<lparr>ao_elicit := ''decline''\<rparr>, zero_outcome]) = 1"
proof -
  let ?d = "zero_outcome\<lparr>ao_elicit := ''decline''\<rparr>"
  have "ao_elicit ?d = ''decline''" by simp
  moreover have "\<forall>out rest. [?d, zero_outcome] = out # rest \<and> (ao_cancelled out \<or> ao_elicit out = ''decline'') \<longrightarrow>
      fst (elicit_rounds 0 [?d, zero_outcome]) = 1"
    by (rule elicitation_bounded[THEN conjunct2, THEN conjunct2])
  ultimately show ?thesis by blast
qed

text \<open>The plan put in an approval question is the plan its resolution carries, whatever blank
lines it holds, and plan mode is left exactly on an approving reply to a plan approval.\<close>

theorem plan_roundtrip:
  "plan_of (\<lparr>qn_question = plan_approval_question plan, qn_header = h, qn_options = os, qn_multi = m\<rparr> # qs) = plan
   \<and> (snd (snd (resume_form quote dur p reply)) \<longleftrightarrow>
       pa_kind p = KindPlanApproval \<and> (\<exists>r. reply = Some r \<and> is_approval_reply r))"
proof -
  let ?h = "''Approve this implementation plan? Reply with an option.''"
  have "str_index (?h @ [CHR 10, CHR 10] @ plan) [CHR 10, CHR 10] = Some (length ?h)"
    by (simp add: prefix_def)
  then have "cut (plan_approval_question plan) [CHR 10, CHR 10] = Some (?h, plan)"
    by (simp add: cut_def plan_approval_question_def)
  then have "plan_of (\<lparr>qn_question = plan_approval_question plan, qn_header = h, qn_options = os, qn_multi = m\<rparr> # qs) = plan"
    by (simp add: plan_of_def)
  moreover have "snd (snd (resume_form quote dur p reply)) \<longleftrightarrow>
       pa_kind p = KindPlanApproval \<and> (\<exists>r. reply = Some r \<and> is_approval_reply r)"
    by (cases reply) (simp_all add: resume_form_def)
  ultimately show ?thesis by blast
qed

end
