(* ===== verification/SessionState.thy ===== *)
theory SessionState
  imports Compaction Asks SteerQueue
begin

text \<open>
  The session of \<^verbatim>\<open>kit/session\<close> as the turn loop sees it: its wiring, its state, and the
  small operations the loop is made of (appending with the loud fallback, the steering drain, the two
  suspensions, boundaries). What the session does not own is the environment: the outcome of every
  append, the provider's streams, the executor's results. \<open>se_log\<close>, \<open>se_bus\<close> and
  \<open>se_executed\<close> are histories: the lines handed to the Manager, the events published, and the
  calls handed to the executor, in order.
\<close>

section \<open>Wiring and state\<close>

record agent_def =
  ad_name :: string
  ad_tools :: "string list"
  ad_model :: string
  ad_prompt :: string

record dispatch_plan =
  pl_model :: string
  pl_note :: string

record session_cfg =
  cg_session :: string
  cg_catalog :: catalog
  cg_config_added :: "string list"
  cg_gate :: "gate_deps option"
  cg_automation :: bool
  cg_compaction :: compaction_settings
  cg_exec_wired :: bool
  cg_background_wired :: bool
  cg_model :: string
  cg_lookup :: "(string \<Rightarrow> agent_def option) option"   \<comment> \<open>\<^verbatim>\<open>AgentLookup\<close>\<close>
  cg_agents :: "(string \<times> agent_def) list"                \<comment> \<open>\<^verbatim>\<open>SubagentTypes\<close>\<close>
  cg_planner :: "agent_def option \<Rightarrow> dispatch_plan"

datatype bus_event =
    BusChunk string string
  | BusThought string string
  | BusToolCall string string tool_call_msg
  | BusUsage string int int
  | BusSubagentResult string string string string

record sess =
  se_mgr :: manager
  se_log :: "line list"
  se_bus :: "bus_event list"
  se_executed :: "tool_call_msg list"
  se_steer :: "steer_queue option"
  se_plan :: "plan_mode option"
  se_projector :: projector
  se_broker :: "ask_broker option"
  se_queue :: "ask_queue option"
  se_degraded :: bool
  se_compact_turn :: string
  se_last_input :: int
  se_turns :: turn_state
  se_attempt :: nat   \<comment> \<open>provider attempts made so far\<close>
  se_compactions :: nat
  se_sub :: nat       \<comment> \<open>subagent attempts made so far\<close>

record turn_env =
  en_append :: "line \<Rightarrow> manager \<Rightarrow> manager \<times> manager_err option"
  en_append_raw :: "line \<Rightarrow> manager \<Rightarrow> manager \<times> manager_err option"
  en_now :: string
  en_uuid :: string
  en_stack :: string
  en_scrub :: "string \<Rightarrow> string"
  en_quote :: "string \<Rightarrow> string"
  en_stream :: "nat \<Rightarrow> message list \<Rightarrow> stream_run"
  en_summary :: "nat \<Rightarrow> string \<Rightarrow> stream_run"
  en_steer :: "nat \<Rightarrow> (string \<times> int) list"  \<comment> \<open>inputs that arrived before this boundary\<close>
  en_exec :: "nat \<Rightarrow> executors"               \<comment> \<open>indexed by the length of the log\<close>
  en_exec_dead :: "nat \<Rightarrow> nat \<Rightarrow> bool"      \<comment> \<open>this call of this batch found the context dead\<close>
  en_head_dead :: "nat \<Rightarrow> bool"            \<comment> \<open>the context is dead at the head of this attempt\<close>
  en_sub_stream :: "nat \<Rightarrow> message list \<Rightarrow> stream_run"
  en_sub_dead :: "nat \<Rightarrow> bool"
  en_sub_exec :: "nat \<Rightarrow> tool_call_msg \<Rightarrow> string + raw_message"
  en_background :: "nat \<Rightarrow> string + (string \<times> string \<times> string option)"

section \<open>Appending\<close>

definition log_line_err :: "turn_env \<Rightarrow> line \<Rightarrow> sess \<Rightarrow> sess \<times> manager_err option" where
  "log_line_err env l s =
     (let (m, e) = en_append env l (se_mgr s) in (s\<lparr>se_mgr := m, se_log := se_log s @ [l]\<rparr>, e))"

definition log_line :: "turn_env \<Rightarrow> line \<Rightarrow> sess \<Rightarrow> sess" where
  \<comment> \<open>an append whose error is dropped\<close>
  "log_line env l s = fst (log_line_err env l s)"

definition publish :: "bus_event \<Rightarrow> sess \<Rightarrow> sess" where
  "publish e s = s\<lparr>se_bus := se_bus s @ [e]\<rparr>"

definition manager_err_text :: "manager_err \<Rightarrow> string" where
  "manager_err_text e = (case e of ErrManagerClosed \<Rightarrow> ''manager closed'' | ErrWrite \<Rightarrow> ''write error'')"

definition append_tool_result_loud :: "turn_env \<Rightarrow> string \<Rightarrow> string \<Rightarrow> raw_message \<Rightarrow> bool \<Rightarrow> sess \<Rightarrow> sess" where
  "append_tool_result_loud env turn call out err s =
     (case log_line_err env (tool_result_line turn call out err (en_now env)) s of
        (s', None) \<Rightarrow> s'
      | (s', Some e) \<Rightarrow>
          log_line env (tool_result_line turn call
            (error_form (''tool result could not be recorded: '' @ manager_err_text e)) True (en_now env)) s')"

definition append_error :: "turn_env \<Rightarrow> string \<Rightarrow> string \<Rightarrow> string \<Rightarrow> bool \<Rightarrow> sess \<Rightarrow> sess" where
  "append_error env turn component msg recov s =
     log_line env (error_line (en_scrub env) turn component msg None recov (en_stack env) (en_now env)) s"

definition record_canceled :: "turn_env \<Rightarrow> string \<Rightarrow> string \<Rightarrow> sess \<Rightarrow> sess" where
  "record_canceled env turn reason s =
     (let s' = log_line env (canceled_line turn reason (en_now env)) s
      in s'\<lparr>se_steer := fst (cancel_all (se_steer s'))\<rparr>)"

definition maybe_append_boundary :: "session_cfg \<Rightarrow> turn_env \<Rightarrow> string \<Rightarrow> string \<Rightarrow> string \<Rightarrow> sess \<Rightarrow> sess" where
  "maybe_append_boundary cfg env tool call turn s =
     (case boundary_cause (Some (cg_catalog cfg)) (cg_config_added cfg) tool of
        None \<Rightarrow> s
      | Some cause \<Rightarrow> log_line env (boundary_line cause call turn (en_now env)) s)"

definition enter_plan_mode :: "turn_env \<Rightarrow> string \<Rightarrow> string \<Rightarrow> sess \<Rightarrow> sess" where
  \<comment> \<open>the flip after an executed EnterPlanMode\<close>
  "enter_plan_mode env call turn s =
     (case se_plan s of
        None \<Rightarrow> s
      | Some p \<Rightarrow> log_line env (plan_mode_line PlanModeCauseEnter call turn (en_now env)) (s\<lparr>se_plan := Some (plan_enter p)\<rparr>))"

section \<open>Steering\<close>

definition render_steering_marker :: "steer_item list \<Rightarrow> string" where
  "render_steering_marker batch =
     ''<system-reminder>'' @ [CHR 10] @
     ''Additional user input arrived while you were working. Incorporate it as you continue; do not restart the task.'' @ [CHR 10] @
     concat (map (\<lambda>it. [CHR 10] @ ''<user-input>'' @ [CHR 10] @ si_text it @ [CHR 10] @ ''</user-input>'' @ [CHR 10]) batch) @
     ''</system-reminder>''"

definition drain_steering :: "turn_env \<Rightarrow> string \<Rightarrow> sess \<Rightarrow> sess" where
  "drain_steering env turn s =
     (case steer_drain (se_steer s) of
        (q, batch) \<Rightarrow>
          if batch = [] then s
          else (let s' = s\<lparr>se_steer := q\<rparr>;
                    l = steering_delivery_line turn (render_steering_marker batch) (int (length batch)) (en_now env)
                in case log_line_err env l s' of
                     (s'', Some e) \<Rightarrow> s''
                   | (s'', None) \<Rightarrow>
                       publish (BusChunk turn (''steering applied: '' @ decimal (length batch) @ '' inputs'')) s''))"

section \<open>Suspensions\<close>

record pending_permission =
  pp_call :: string
  pp_tool :: string
  pp_input :: raw_message

definition gate_entry_class :: "session_cfg \<Rightarrow> ask_class" where
  "gate_entry_class cfg = (if cg_automation cfg then AskClassBackground else AskClassForeground)"

definition permission_entry :: "session_cfg \<Rightarrow> string \<Rightarrow> pending_permission \<Rightarrow> ask_entry" where
  "permission_entry cfg turn pp =
     \<lparr>ae_turn = turn, ae_session = cg_session cfg, ae_call = pp_call pp, ae_tool = pp_tool pp,
      ae_title = pp_tool pp, ae_kind = gate_dialog_kind (cg_catalog cfg) (pp_tool pp),
      ae_input = pp_input pp, ae_class = gate_entry_class cfg, ae_seq = 0, ae_note = [],
      ae_plain_fallback = False, ae_wired = True\<rparr>"

definition suspend_for_permission :: "session_cfg \<Rightarrow> turn_env \<Rightarrow> string \<Rightarrow> pending_permission \<Rightarrow> sess \<Rightarrow> sess" where
  "suspend_for_permission cfg env turn pp s =
     (case (cg_gate cfg, se_queue s) of
        (Some _, Some q) \<Rightarrow>
          (let s1 = s\<lparr>se_broker := map_option (\<lambda>b. arm_settle (br_fresh b) (b\<lparr>br_fresh := br_fresh b + 1\<rparr>)) (se_broker s)\<rparr>;
               s2 = log_line env (ask_suspended_line turn (pp_call pp)
                      (Some (JObj [(''tool'', JStr (pp_tool pp))])) (en_now env)) s1
           in s2\<lparr>se_queue := Some (fst (ask_enqueue \<lparr>qa_entry = permission_entry cfg turn pp, qa_resolve = True\<rparr> q))\<rparr>)
      | _ \<Rightarrow> append_tool_result_loud env turn (pp_call pp)
               (permission_decline_form (pp_tool pp) ''the ask queue is not wired'') True s)"

definition question_of :: "json \<Rightarrow> ask_question option" where
  "question_of v =
     (case v of
        JObj fs \<Rightarrow> do {
          q \<leftarrow> get_field as_str ''question'' [] fs; h \<leftarrow> get_field as_str ''header'' [] fs;
          m \<leftarrow> get_field as_bool ''multiSelect'' False fs;
          os \<leftarrow> get_field (\<lambda>w. case w of JArr os \<Rightarrow> those (map (\<lambda>u. case u of
               JObj g \<Rightarrow> do { lb \<leftarrow> get_field as_str ''label'' [] g;
                             ds \<leftarrow> get_field as_str ''description'' [] g;
                             Some \<lparr>op_label = lb, op_description = ds\<rparr> }
             | _ \<Rightarrow> None) os) | _ \<Rightarrow> None) ''options'' [] fs;
          Some \<lparr>qn_question = q, qn_header = h, qn_options = os, qn_multi = m\<rparr> }
      | _ \<Rightarrow> None)"

definition questions_of :: "raw_message \<Rightarrow> ask_question list" where
  \<comment> \<open>the executor's own rendering of the questions; anything else reads as no question\<close>
  "questions_of out =
     (case out of Some (JArr vs) \<Rightarrow> (case those (map question_of vs) of Some qs \<Rightarrow> qs | None \<Rightarrow> []) | _ \<Rightarrow> [])"

definition question_json :: "ask_question \<Rightarrow> json" where
  "question_json q = JObj [(''question'', JStr (qn_question q)), (''header'', JStr (qn_header q)),
     (''options'', opt_list (map (\<lambda>o'. JObj [(''label'', JStr (op_label o')),
        (''description'', JStr (op_description o'))]) (qn_options q))), (''multiSelect'', JBool (qn_multi q))]"

definition ask_summary_of :: "ask_question list \<Rightarrow> string" where
  "ask_summary_of qs =
     (case find (\<lambda>q. qn_question q \<noteq> []) qs of
        Some q \<Rightarrow> truncate_runes (qn_question q) 160
      | None \<Rightarrow> (case qs of [] \<Rightarrow> ''question''
          | q # _ \<Rightarrow> if qn_header q \<noteq> [] then truncate_runes (qn_header q) 160 else ''question''))"

definition suspend_for_ask :: "turn_env \<Rightarrow> string \<Rightarrow> string \<Rightarrow> raw_message \<Rightarrow> string \<Rightarrow> ask_broker \<Rightarrow> sess \<Rightarrow> sess" where
  "suspend_for_ask env turn call out tool b s =
     (let qs = questions_of out;
          kind = (if tool = ''ExitPlanMode'' then KindPlanApproval else KindQuestion);
          s1 = log_line env (ask_suspended_line turn call (Some (opt_list (map question_json qs))) (en_now env)) s;
          s2 = log_line env (parked_ask_line turn (ask_summary_of qs) (en_now env)) s1
      in s2\<lparr>se_broker := Some (surface \<lparr>pa_turn = turn, pa_call = call, pa_questions = qs, pa_kind = kind,
            pa_tool = [], pa_input = None, pa_settle = None\<rparr> b)\<rparr>)"

section \<open>What an operation leaves alone\<close>

named_theorems log_simps \<open>the histories after each operation\<close>

lemma log_line_simps [log_simps]:
  "se_log (log_line env l s) = se_log s @ [l]" "se_executed (log_line env l s) = se_executed s"
  "se_plan (log_line env l s) = se_plan s" "se_attempt (log_line env l s) = se_attempt s"
  "se_compactions (log_line env l s) = se_compactions s" "se_broker (log_line env l s) = se_broker s"
  "se_queue (log_line env l s) = se_queue s" "se_steer (log_line env l s) = se_steer s"
  "se_degraded (log_line env l s) = se_degraded s" "se_compact_turn (log_line env l s) = se_compact_turn s"
  "se_projector (log_line env l s) = se_projector s"
  by (simp_all add: log_line_def log_line_err_def split_beta)

lemma log_line_err_simps:
  "log_line_err env l s = (s', e) \<Longrightarrow>
     se_log s' = se_log s @ [l] \<and> se_executed s' = se_executed s \<and> se_plan s' = se_plan s \<and>
     se_attempt s' = se_attempt s \<and> se_compactions s' = se_compactions s \<and> se_broker s' = se_broker s \<and>
     se_queue s' = se_queue s \<and> se_steer s' = se_steer s \<and> se_degraded s' = se_degraded s \<and>
     se_compact_turn s' = se_compact_turn s \<and> se_projector s' = se_projector s"
  by (auto simp: log_line_err_def split_beta Let_def)

text \<open>The part of the state most operations leave alone.\<close>

definition core ::
    "sess \<Rightarrow> plan_mode option \<times> nat \<times> nat \<times> ask_broker option \<times> ask_queue option \<times> bool \<times> steer_queue option \<times> string \<times> projector" where
  "core s = (se_plan s, se_attempt s, se_compactions s, se_broker s, se_queue s, se_degraded s, se_steer s,
     se_compact_turn s, se_projector s)"

definition frame where
  "frame s = (se_executed s, core s)"

lemmas frame_defs = frame_def core_def

lemma append_tool_result_loud_log:
  "\<exists>l rest. se_log (append_tool_result_loud env turn call out err s) = se_log s @ l # rest \<and>
     ln_type l = TypeToolResult \<and> ln_turn l = turn \<and> ln_tool_call l = call \<and>
     (\<forall>x \<in> set rest. ln_type x = TypeToolResult \<and> ln_turn x = turn \<and> ln_tool_call x = call)"
  by (auto simp: append_tool_result_loud_def log_simps tool_result_line_def record_line_def zero_line_def
      split: prod.splits option.splits dest!: log_line_err_simps)

lemma append_tool_result_loud_frame: "frame (append_tool_result_loud env turn call out err s) = frame s"
  by (auto simp: frame_defs append_tool_result_loud_def log_simps split: prod.splits option.splits dest!: log_line_err_simps)

lemma maybe_append_boundary_log:
  "\<exists>rest. se_log (maybe_append_boundary cfg env tool call turn s) = se_log s @ rest \<and>
     (\<forall>x \<in> set rest. ln_type x = TypeBoundary)"
  by (auto simp: maybe_append_boundary_def log_simps boundary_line_def record_line_def split: option.splits)

lemma maybe_append_boundary_frame: "frame (maybe_append_boundary cfg env tool call turn s) = frame s"
  by (auto simp: frame_defs maybe_append_boundary_def log_simps split: option.splits)

section \<open>Concrete sessions\<close>

text \<open>A wired session whose appends succeed and whose provider and executor are given, for concrete runs.\<close>

definition sample_cfg :: session_cfg where
  "sample_cfg = \<lparr>cg_session = ''s'', cg_catalog = [], cg_config_added = [], cg_gate = None, cg_automation = False,
     cg_compaction = \<lparr>cs_enabled = False, cs_threshold = 80, cs_limit = 0\<rparr>, cg_exec_wired = True,
     cg_background_wired = False, cg_model = ''m'', cg_lookup = None, cg_agents = [],
     cg_planner = (\<lambda>_. \<lparr>pl_model = [], pl_note = []\<rparr>)\<rparr>"

definition sample_env :: "(nat \<Rightarrow> message list \<Rightarrow> stream_run) \<Rightarrow> (nat \<Rightarrow> executors) \<Rightarrow> turn_env" where
  "sample_env stream exec = \<lparr>en_append = (\<lambda>l m. (m, None)), en_append_raw = (\<lambda>l m. (m, None)), en_now = ''t'',
     en_uuid = ''u'', en_stack = [], en_scrub = id, en_quote = id, en_stream = stream,
     en_summary = (\<lambda>n p. \<lparr>sr_open = None, sr_chunks = [], sr_dead = None\<rparr>), en_steer = (\<lambda>n. []), en_exec = exec,
     en_exec_dead = (\<lambda>n i. False), en_head_dead = (\<lambda>n. False), en_sub_stream = stream, en_sub_dead = (\<lambda>n. False),
     en_sub_exec = (\<lambda>n tc. Inr None), en_background = (\<lambda>n. Inl [])\<rparr>"

definition sample_sess :: sess where
  "sample_sess = \<lparr>se_mgr = open_manager [] NoTail, se_log = [], se_bus = [], se_executed = [], se_steer = None,
     se_plan = None, se_projector = \<lparr>pr_budget = 0, pr_retry = []\<rparr>, se_broker = Some (new_ask_broker 0),
     se_queue = Some new_ask_queue, se_degraded = False, se_compact_turn = [], se_last_input = 0,
     se_turns = \<lparr>tu_session = ''s'', tu_counter = 1\<rparr>, se_attempt = 0, se_compactions = 0, se_sub = 0\<rparr>"

end
