(* ===== verification/Subagent.thy ===== *)
theory Subagent
  imports SessionState
begin

text \<open>
  Subagents, \<^verbatim>\<open>kit/session/subagent.go\<close>: the dispatch of a Task or Agent call, its nested
  loop with the restricted executor, and the background leg. The nested loop runs to its end before
  the dispatch returns: the race with a dying parent context and panics are left out.
\<close>

section \<open>Reading the call\<close>

definition is_subagent_tool :: "string \<Rightarrow> bool" where
  "is_subagent_tool name = (name = ''Task'' \<or> name = ''Agent'')"

definition subagent_restricted_default :: "string list" where
  "subagent_restricted_default = [''Read'', ''Glob'', ''Grep'', ''WebFetch'', ''WebSearch'']"

definition agent_def_for :: "session_cfg \<Rightarrow> raw_message \<Rightarrow> agent_def option" where
  "agent_def_for cfg input =
     (case input of
        Some (JObj fs) \<Rightarrow>
          (case get_field as_str ''subagent_type'' [] fs of
             Some t \<Rightarrow>
               if t = [] then None
               else (case cg_lookup cfg of
                       Some f \<Rightarrow> (case f t of Some d \<Rightarrow> Some d | None \<Rightarrow> map_of (cg_agents cfg) t)
                     | None \<Rightarrow> map_of (cg_agents cfg) t)
           | None \<Rightarrow> None)
      | _ \<Rightarrow> None)"

definition non_empty_member :: "string \<Rightarrow> (string \<times> json) list \<Rightarrow> string option" where
  "non_empty_member k fs =
     (case obj_lookup fs k of Some (JStr v) \<Rightarrow> if v \<noteq> [] then Some v else None | _ \<Rightarrow> None)"

definition extract_subagent_prompt :: "raw_message \<Rightarrow> string" where
  "extract_subagent_prompt input =
     (case input of
        Some (JObj fs) \<Rightarrow>
          (case non_empty_member ''prompt'' fs of
             Some p \<Rightarrow> p
           | None \<Rightarrow> (case non_empty_member ''description'' fs of Some d \<Rightarrow> d | None \<Rightarrow> ''subagent task''))
      | _ \<Rightarrow> ''subagent task'')"

definition wants_background_dispatch :: "raw_message \<Rightarrow> bool" where
  "wants_background_dispatch input =
     (case input of
        Some (JObj fs) \<Rightarrow> get_field as_bool ''run_in_background'' False fs = Some True
      | _ \<Rightarrow> False)"

definition subagent_result_payload :: "string \<Rightarrow> raw_message \<times> bool" where
  "subagent_result_payload result = (Some (JStr result), False)"

section \<open>The nested loop\<close>

definition stub_tool_result :: raw_message where
  "stub_tool_result = Some (JObj [(''output'', JStr ''stubbed in Phase 2 (real execution in Phase 4)'')])"

definition background_ask_declined :: string where
  "background_ask_declined = ''declined: background subagent work has no human present (automation-class decline)''"

definition execute_restricted ::
    "session_cfg \<Rightarrow> turn_env \<Rightarrow> bool \<Rightarrow> string list \<Rightarrow> tool_call_msg \<Rightarrow> sess \<Rightarrow> (string + raw_message) \<times> sess" where
  \<comment> \<open>\<open>background\<close>: the context carries the background mark\<close>
  "execute_restricted cfg env background restricted tc s =
     (if background \<and> gate_ask_class (Some (cg_catalog cfg)) (tc_name tc) then (Inl background_ask_declined, s)
      else if \<not> cg_exec_wired cfg then (Inr stub_tool_result, s)
      else (let r = restricted_execute (\<lambda>n i. en_sub_exec env (se_sub s) tc)
                     (\<lambda>n. ''tool '' @ en_quote env n @ '' is not available in this subagent context'')
                     restricted (tc_name tc) (tc_input tc)
            in (r, if tc_name tc \<in> set restricted then s\<lparr>se_executed := se_executed s @ [tc]\<rparr> else s)))"

fun sub_chunks ::
    "string \<Rightarrow> stream_run \<Rightarrow> nat \<Rightarrow> chunk list \<Rightarrow> string \<Rightarrow> tool_call_msg list \<Rightarrow> sess \<Rightarrow>
     (tool_call_msg list \<times> string \<times> stream_err option) \<times> sess" where
  \<comment> \<open>\<^verbatim>\<open>streamAndEmitTaggedProf\<close>\<close>
  "sub_chunks turn sr i [] txt calls s = ((calls, txt, None), s)"
| "sub_chunks turn sr i (c # cs) txt calls s =
     (if dead_at sr i then ((calls, txt, Some ErrCtx), s)
      else (case c of
              TextChunk t \<Rightarrow> sub_chunks turn sr (Suc i) cs (txt @ t) calls
                 (if t \<noteq> [] then publish (BusChunk turn t) s else s)
            | ToolChunk cid (Some tc) \<Rightarrow> sub_chunks turn sr (Suc i) cs txt (calls @ [tc]) s
            | ErrorChunk (Some e) \<Rightarrow> ((calls, txt, Some e), s)
            | _ \<Rightarrow> sub_chunks turn sr (Suc i) cs txt calls s))"

definition sub_stream ::
    "string \<Rightarrow> stream_run \<Rightarrow> sess \<Rightarrow> (tool_call_msg list \<times> string \<times> stream_err option) \<times> sess" where
  "sub_stream turn sr s =
     (case sr_open sr of Some e \<Rightarrow> (([], [], Some (call_error e)), s) | None \<Rightarrow> sub_chunks turn sr 0 (sr_chunks sr) [] [] s)"

definition sub_call :: "session_cfg \<Rightarrow> turn_env \<Rightarrow> bool \<Rightarrow> string list \<Rightarrow> string \<Rightarrow> sess \<Rightarrow> tool_call_msg \<Rightarrow> sess" where
  "sub_call cfg env background restricted turn s tc =
     (let (r, s1) = execute_restricted cfg env background restricted tc s;
          s2 = log_line env (tool_call_line turn (tc_name tc) (tc_name tc) (tc_input tc) (en_now env)) s1
      in case r of
           Inl e \<Rightarrow> append_tool_result_loud env turn (tc_name tc) (error_form e) True s2
         | Inr out \<Rightarrow> append_tool_result_loud env turn (tc_name tc) out False s2)"

definition sub_messages :: "string \<Rightarrow> message list" where
  \<comment> \<open>the request of every iteration\<close>
  "sub_messages prompt = [user_text_message prompt]"

fun sub_loop ::
    "session_cfg \<Rightarrow> turn_env \<Rightarrow> bool \<Rightarrow> string list \<Rightarrow> string \<Rightarrow> string \<Rightarrow> nat \<Rightarrow> sess \<Rightarrow> (string \<times> string option) \<times> sess" where
  \<comment> \<open>the first component is the text and the error\<close>
  "sub_loop cfg env background restricted turn prompt 0 s =
     (([], Some ''session: tool loop exceeded max iterations''), s)"
| "sub_loop cfg env background restricted turn prompt (Suc k) s =
     (if en_sub_dead env (se_sub s) then (([], Some ''call: context canceled''), s)
      else
        (let sr = en_sub_stream env (se_sub s) (sub_messages prompt);
             ((calls, txt, e), s1) = sub_stream turn sr (s\<lparr>se_sub := se_sub s + 1\<rparr>)
         in case e of
              Some er \<Rightarrow> ((txt, Some (stream_err_text er)), s1)
            | None \<Rightarrow>
                if calls \<noteq> [] then
                  sub_loop cfg env background restricted turn prompt k
                    (foldl (sub_call cfg env background restricted turn) s1 calls)
                else ((txt, None), s1)))"

definition sub_run ::
    "session_cfg \<Rightarrow> turn_env \<Rightarrow> bool \<Rightarrow> string list \<Rightarrow> string \<Rightarrow> string \<Rightarrow> sess \<Rightarrow> (string \<times> string option) \<times> sess" where
  "sub_run cfg env background restricted turn prompt s =
     sub_loop cfg env background restricted turn prompt 8
       (log_line env (user_message_line turn [\<lparr>cb_type = ''text'', cb_text = prompt, cb_data_ref = [],
          cb_media_type = [], cb_width = 0, cb_height = 0, cb_orig_width = 0, cb_orig_height = 0,
          cb_orig_size = 0, cb_scaled = False, cb_data = []\<rparr>] (en_now env)) s)"

definition restricted_for :: "agent_def option \<Rightarrow> string list" where
  "restricted_for ad =
     (case ad of Some d \<Rightarrow> if ad_tools d \<noteq> [] then ad_tools d else subagent_restricted_default
      | None \<Rightarrow> subagent_restricted_default)"

definition begin_dispatch ::
    "session_cfg \<Rightarrow> turn_env \<Rightarrow> string \<Rightarrow> string \<Rightarrow> agent_def option \<Rightarrow> sess \<Rightarrow> string \<times> sess" where
  \<comment> \<open>the part both legs share: the routing note, the turn id and the dispatch line\<close>
  "begin_dispatch cfg env parent call ad s =
     (let plan = cg_planner cfg ad;
          s1 = (if pl_note plan \<noteq> [] then publish (BusChunk parent (pl_note plan)) s else s);
          (ts, sub) = next_turn_id (se_turns s1);
          model = (if pl_model plan = [] then cg_model cfg else pl_model plan)
      in (sub, log_line env (subagent_dispatch_line parent sub call (restricted_for ad) model (en_now env))
                 (s1\<lparr>se_turns := ts\<rparr>)))"

definition dispatch_subagent ::
    "session_cfg \<Rightarrow> turn_env \<Rightarrow> string \<Rightarrow> string \<Rightarrow> string \<Rightarrow> agent_def option \<Rightarrow> sess \<Rightarrow> (string \<times> string option) \<times> sess" where
  "dispatch_subagent cfg env parent call prompt ad s =
     (let (sub, s1) = begin_dispatch cfg env parent call ad s;
          ((res, e), s2) = sub_run cfg env False (restricted_for ad) sub prompt s1;
          msg = (case e of Some m \<Rightarrow> m | None \<Rightarrow> []);
          s3 = log_line env (subagent_result_line parent sub res msg (en_now env)) s2
      in ((res, e), publish (BusSubagentResult parent call sub res) s3))"

definition dispatch_subagent_background ::
    "session_cfg \<Rightarrow> turn_env \<Rightarrow> string \<Rightarrow> string \<Rightarrow> agent_def option \<Rightarrow> sess \<Rightarrow> (string + raw_message) \<times> sess" where
  "dispatch_subagent_background cfg env parent call ad s =
     (let (sub, s1) = begin_dispatch cfg env parent call ad s
      in case en_background env (se_attempt s) of
           Inl e \<Rightarrow> (Inl e, s1)
         | Inr (task, out, note) \<Rightarrow>
             (Inr (Some (JObj
                ((case note of Some n \<Rightarrow> [(''note'', JStr n)] | None \<Rightarrow> []) @ [(''output_file'', JStr out)] @
                 (case note of Some n \<Rightarrow> [(''queued'', JBool True)] | None \<Rightarrow> []) @
                 [(''status'', JStr ''async_launched''), (''task_id'', JStr task)]))), s1))"

section \<open>Properties\<close>

lemma publish_frame [simp]: "frame (publish e s) = frame s"
  by (simp add: publish_def frame_defs)

lemma log_line_frame [simp]: "frame (log_line env l s) = frame s"
  by (simp add: frame_defs log_simps)

lemma sub_chunks_frame: "frame (snd (sub_chunks turn sr i cs tx calls s)) = frame s"
proof (induction turn sr i cs tx calls s rule: sub_chunks.induct)
  case (2 turn sr i c cs tx calls s)
  then show ?case by (cases c) (auto split: option.splits)
qed simp

lemma sub_stream_frame: "frame (snd (sub_stream turn sr s)) = frame s"
  by (simp add: sub_stream_def sub_chunks_frame split: option.split)

lemma frame_executed: "frame s = frame s' \<Longrightarrow> se_executed s = se_executed s' \<and> se_plan s = se_plan s'"
  by (simp add: frame_defs)

lemma sub_call_executed:
  "set (se_executed (sub_call cfg env bg rs turn s tc)) \<subseteq> set (se_executed s) \<union> {tc. tc_name tc \<in> set rs}"
  using frame_executed[OF append_tool_result_loud_frame]
  by (auto simp: sub_call_def execute_restricted_def Let_def log_simps split: sum.splits if_splits)

lemma sub_calls_executed:
  "set (se_executed (foldl (sub_call cfg env bg rs turn) s calls)) \<subseteq> set (se_executed s) \<union> {tc. tc_name tc \<in> set rs}"
  by (induction calls arbitrary: s) (use sub_call_executed in \<open>fastforce\<close>)+

lemma sub_loop_executed:
  "set (se_executed (snd (sub_loop cfg env bg rs turn prompt k s))) \<subseteq> set (se_executed s) \<union> {tc. tc_name tc \<in> set rs}"
proof (induction k arbitrary: s)
  case (Suc k)
  let ?sr = "en_sub_stream env (se_sub s) (sub_messages prompt)"
  obtain r s1 where r: "sub_stream turn ?sr (s\<lparr>se_sub := se_sub s + 1\<rparr>) = (r, s1)"
    by (rule prod.exhaust)
  obtain calls tx e where "r = (calls, tx, e)" by (rule prod_cases3)
  with r have st: "sub_stream turn ?sr (s\<lparr>se_sub := se_sub s + 1\<rparr>) = ((calls, tx, e), s1)" by (simp only:)
  have "frame s1 = frame (s\<lparr>se_sub := se_sub s + 1\<rparr>)"
    using sub_stream_frame[of turn ?sr "s\<lparr>se_sub := se_sub s + 1\<rparr>"] st by simp
  then have s1: "se_executed s1 = se_executed s" by (simp add: frame_def)
  show ?case
    using Suc[of "foldl (sub_call cfg env bg rs turn) s1 calls"] sub_calls_executed[of cfg env bg rs turn s1 calls] s1 st
    by (auto simp: Let_def split: option.splits)
qed simp


text \<open>Neither the permission gate nor plan mode nor the automation flag has a say in what a
subagent runs: two sessions that differ in them give the same nested run, although the gate answers
differently to the same call.\<close>

theorem subagent_calls_ungated:
  "sub_loop (cfg\<lparr>cg_gate := g, cg_automation := a\<rparr>) env bg rs turn prompt k s = sub_loop cfg env bg rs turn prompt k s"
proof (induction k arbitrary: s)
  case (Suc k)
  have "sub_call (cfg\<lparr>cg_gate := g, cg_automation := a\<rparr>) env bg rs turn = sub_call cfg env bg rs turn"
    by (intro ext) (simp add: sub_call_def execute_restricted_def)
  with Suc show ?case by (auto split: prod.splits option.splits)
qed simp

text \<open>A subagent never sees the results of its tool calls: a provider that answers the first
request with tool calls, and answers as a function of the request, makes the subagent run them eight
times and fail.\<close>

theorem subagent_repeats_itself:
  assumes "\<forall>n. en_sub_stream env n (sub_messages prompt) = sr" "\<forall>n. \<not> en_sub_dead env n"
    and "sr_open sr = None" "sr_dead sr = None" "sr_chunks sr = [ToolChunk cid (Some tc), DoneChunk ''tool_use'']"
  shows "fst (sub_loop cfg env bg rs turn prompt k s) = ([], Some ''session: tool loop exceeded max iterations'')"
proof (induction k arbitrary: s)
  case (Suc k)
  have "sub_stream turn sr s' = (([tc], [], None), s')" for s'
    using assms(3-5) by (simp add: sub_stream_def dead_at_def)
  with Suc assms(1,2) show ?case by (simp add: Let_def)
qed simp

theorem subagent_repeats_itself_witness:
  "fst (sub_loop sample_cfg (sample_env (\<lambda>n ms. \<lparr>sr_open = None, sr_chunks = [ToolChunk ''c''
       (Some \<lparr>tc_id = ''c'', tc_name = ''Read'', tc_input = None\<rparr>), DoneChunk ''tool_use''], sr_dead = None\<rparr>) (\<lambda>n i. None))
     False subagent_restricted_default ''turn'' ''go'' 8 sample_sess) = ([], Some ''session: tool loop exceeded max iterations'')"
  by (rule subagent_repeats_itself[of _ _ "\<lparr>sr_open = None, sr_chunks = [ToolChunk ''c''
       (Some \<lparr>tc_id = ''c'', tc_name = ''Read'', tc_input = None\<rparr>), DoneChunk ''tool_use''], sr_dead = None\<rparr>"])
     (simp_all add: sample_env_def)

end
