(* ===== verification/Turn.thy ===== *)
theory Turn
  imports Subagent Projector
begin

text \<open>
  The turn loop, \<^verbatim>\<open>Session.runTurn\<close> of \<^verbatim>\<open>kit/session/session.go\<close>, with what it is
  made of: the streaming of one attempt, compaction, the routing of the tool calls of a response
  through plan mode and the gate, the batch, the suspensions, and the resumes of
  \<^verbatim>\<open>ask.go\<close>. One session runs one turn at a time (the runtime's turn mutex), so the loop is a
  function of the session's state and the environment. Hooks, the semaphore, outcome records and the
  recovery of panics are left out.
\<close>

section \<open>One attempt\<close>

definition tool_call_id :: "tool_call_msg \<Rightarrow> string" where
  "tool_call_id tc = (if tc_id tc \<noteq> [] then tc_id tc else tc_name tc)"

definition map_stop_reason :: "string \<Rightarrow> string" where
  "map_stop_reason finish =
     (let f = to_lower finish
      in if f = ''end_turn'' \<or> f = ''stop'' then ''end_turn''
         else if f = ''tool_use'' then ''tool_use''
         else if f = ''max_tokens'' then ''max_tokens''
         else if f = [] then ''end_turn''
         else finish)"

definition thinking_display_text :: "raw_message \<Rightarrow> string" where
  "thinking_display_text raw = str_member ''thinking'' raw"

record response =
  rs_calls :: "tool_call_msg list"
  rs_finish :: string
  rs_text :: string

fun stream_chunks ::
    "session_cfg \<Rightarrow> turn_env \<Rightarrow> string \<Rightarrow> stream_run \<Rightarrow> nat \<Rightarrow> chunk list \<Rightarrow> response \<Rightarrow> sess \<Rightarrow>
     (response \<times> stream_err option) \<times> sess" where
  "stream_chunks cfg env turn sr i [] r s = ((r, if dead_at sr i then Some ErrCtx else None), s)"
| "stream_chunks cfg env turn sr i (c # cs) r s =
     (if dead_at sr i then ((r, Some ErrCtx), s)
      else (case c of
              TextChunk t \<Rightarrow>
                stream_chunks cfg env turn sr (Suc i) cs (r\<lparr>rs_text := rs_text r @ t\<rparr>)
                  (if t \<noteq> [] then publish (BusChunk turn t) s else s)
            | ThinkingChunk raw \<Rightarrow>
                (let (m, _) = en_append_raw env (raw_thinking_line turn (cg_model cfg) raw (en_now env)) (se_mgr s);
                     s1 = s\<lparr>se_mgr := m, se_log := se_log s @ [raw_thinking_line turn (cg_model cfg) raw (en_now env)]\<rparr>;
                     t = thinking_display_text raw
                 in stream_chunks cfg env turn sr (Suc i) cs r
                      (if t \<noteq> [] then publish (BusThought turn t) s1 else s1))
            | ToolChunk cid (Some tc) \<Rightarrow>
                stream_chunks cfg env turn sr (Suc i) cs (r\<lparr>rs_calls := rs_calls r @ [tc]\<rparr>)
                  (publish (BusToolCall turn cid tc) s)
            | UsageChunk (Some (inp, outp)) \<Rightarrow>
                stream_chunks cfg env turn sr (Suc i) cs r
                  (publish (BusUsage turn inp outp) (s\<lparr>se_last_input := inp\<rparr>))
            | DoneChunk finish \<Rightarrow>
                stream_chunks cfg env turn sr (Suc i) cs (r\<lparr>rs_finish := finish\<rparr>) s
            | ErrorChunk (Some e) \<Rightarrow> ((r, Some e), s)
            | _ \<Rightarrow> stream_chunks cfg env turn sr (Suc i) cs r s))"

definition stream_and_emit ::
    "session_cfg \<Rightarrow> turn_env \<Rightarrow> string \<Rightarrow> stream_run \<Rightarrow> sess \<Rightarrow> (response \<times> stream_err option) \<times> sess" where
  "stream_and_emit cfg env turn sr s =
     (let r = \<lparr>rs_calls = [], rs_finish = [], rs_text = []\<rparr>
      in case sr_open sr of
           Some e \<Rightarrow> ((r, Some (call_error e)), s)
         | None \<Rightarrow> stream_chunks cfg env turn sr 0 (sr_chunks sr) r s)"

section \<open>Compaction and steering\<close>

definition compact :: "session_cfg \<Rightarrow> turn_env \<Rightarrow> string \<Rightarrow> sess \<Rightarrow> sess" where
  \<comment> \<open>a compaction that degrades leaves the transcript; a failed usage append skips the marker\<close>
  "compact cfg env turn s =
     (let ls = read_all (se_mgr s);
          sr = en_summary env (se_compactions s) (summarizer_input (cs_limit (cg_compaction cfg)) ls);
          s1 = s\<lparr>se_compactions := se_compactions s + 1\<rparr>
      in case compaction_lines (en_uuid env) (en_now env) turn (se_last_input s) ls sr of
           Some [use, marker] \<Rightarrow>
             (case log_line_err env use s1 of
                (s2, Some e) \<Rightarrow> s2
              | (s2, None) \<Rightarrow> log_line env marker s2)
         | _ \<Rightarrow> s1)"

definition maybe_compact :: "session_cfg \<Rightarrow> turn_env \<Rightarrow> string \<Rightarrow> sess \<Rightarrow> sess" where
  "maybe_compact cfg env turn s =
     (if \<not> cs_enabled (cg_compaction cfg) then s
      else if \<not> over_threshold (se_last_input s) (estimate_lines_since_last_request (read_all (se_mgr s)))
                 (cs_limit (cg_compaction cfg)) (cs_threshold (cg_compaction cfg)) then s
      else if se_compact_turn s = turn then s
      else compact cfg env turn (s\<lparr>se_compact_turn := turn\<rparr>))"

definition arrive :: "turn_env \<Rightarrow> sess \<Rightarrow> sess" where
  \<comment> \<open>the steering inputs other goroutines enqueued since the last boundary\<close>
  "arrive env s =
     s\<lparr>se_steer := foldl (\<lambda>q (x, t). fst (steer_enqueue x t q)) (se_steer s) (en_steer env (length (se_log s)))\<rparr>"

section \<open>Routing the calls of a response\<close>

definition subagent_call :: "session_cfg \<Rightarrow> turn_env \<Rightarrow> string \<Rightarrow> tool_call_msg \<Rightarrow> sess \<Rightarrow> sess" where
  \<comment> \<open>a Task or Agent call that passed the gate; the foreground dispatch is keyed by the tool's name\<close>
  "subagent_call cfg env turn tc s =
     (let ad = agent_def_for cfg (tc_input tc);
          call = tool_call_id tc;
          s2 = (if wants_background_dispatch (tc_input tc) \<and> cg_background_wired cfg then
                  (case dispatch_subagent_background cfg env turn call ad s of
                     (Inl e, s1) \<Rightarrow> append_tool_result_loud env turn call (error_form e) True s1
                   | (Inr payload, s1) \<Rightarrow> append_tool_result_loud env turn call payload False s1)
                else
                  (case dispatch_subagent cfg env turn (tc_name tc) (extract_subagent_prompt (tc_input tc)) ad s of
                     ((_, Some e), s1) \<Rightarrow> append_tool_result_loud env turn call (error_form e) True s1
                   | ((res, None), s1) \<Rightarrow>
                       append_tool_result_loud env turn call
                         (bounded_tool_result tool_result_cap (fst (subagent_result_payload res)))
                         (snd (subagent_result_payload res)) s1))
      in maybe_append_boundary cfg env (tc_name tc) call turn s2)"

record routed =
  ro_sess :: sess
  ro_batch :: "tool_call_msg list"
  ro_gates :: "pending_permission list"

definition call_verdict :: "session_cfg \<Rightarrow> sess \<Rightarrow> tool_call_msg \<Rightarrow> gate_verdict" where
  "call_verdict cfg s tc =
     gate_call (cg_gate cfg) (Some (cg_catalog cfg)) (cg_automation cfg) (se_degraded s) (tc_name tc) (tc_input tc)"

definition call_blocked :: "session_cfg \<Rightarrow> sess \<Rightarrow> tool_call_msg \<Rightarrow> bool" where
  "call_blocked cfg s tc = plan_mode_blocks (se_plan s) (Some (cg_catalog cfg)) (tc_name tc)"

definition gate_refused :: "session_cfg \<Rightarrow> turn_env \<Rightarrow> string \<Rightarrow> routed \<Rightarrow> tool_call_msg \<Rightarrow> routed" where
  \<comment> \<open>the verdict is not to execute\<close>
  "gate_refused cfg env turn r tc =
     (let v = call_verdict cfg (ro_sess r) tc
      in if gv_action v = GateSuspend then
           r\<lparr>ro_gates := ro_gates r @ [\<lparr>pp_call = tool_call_id tc, pp_tool = tc_name tc, pp_input = tc_input tc\<rparr>]\<rparr>
         else r\<lparr>ro_sess := append_tool_result_loud env turn (tool_call_id tc) (gv_result v) True (ro_sess r)\<rparr>)"

definition route_call :: "session_cfg \<Rightarrow> turn_env \<Rightarrow> string \<Rightarrow> routed \<Rightarrow> tool_call_msg \<Rightarrow> routed" where
  "route_call cfg env turn r tc =
     (let pass = (gv_action (call_verdict cfg (ro_sess r) tc) = GateExecute)
      in if is_subagent_tool (tc_name tc) then
           (if \<not> pass then gate_refused cfg env turn r tc
            else r\<lparr>ro_sess := subagent_call cfg env turn tc (ro_sess r)\<rparr>)
         else if call_blocked cfg (ro_sess r) tc then
           r\<lparr>ro_sess := append_tool_result_loud env turn (tool_call_id tc) plan_mode_refusal True (ro_sess r)\<rparr>
         else if \<not> pass then gate_refused cfg env turn r tc
         else r\<lparr>ro_batch := ro_batch r @ [tc]\<rparr>)"

definition stub_executors :: executors where
  "stub_executors i = Some (\<lambda>n x. \<lparr>xo_output = stub_tool_result, xo_err = None, xo_deadline = False\<rparr>)"

definition run_batch :: "session_cfg \<Rightarrow> turn_env \<Rightarrow> tool_call_msg list \<Rightarrow> sess \<Rightarrow> tool_result list \<times> sess" where
  \<comment> \<open>the calls that found the context dead are cancelled, the others reach the executor\<close>
  "run_batch cfg env calls s =
     (let n = length (se_log s);
          exec = (if cg_exec_wired cfg then en_exec env n else stub_executors);
          live = filter (\<lambda>i. \<not> en_exec_dead env n i) [0..<length calls];
          rs = map (\<lambda>i. if en_exec_dead env n i then cancelled_result i (calls ! i)
                        else dispatch_batch exec (Some (cg_catalog cfg)) calls ! i) [0..<length calls]
      in (rs, s\<lparr>se_executed := se_executed s @ map (\<lambda>i. calls ! i) live\<rparr>))"

definition apply_result ::
    "session_cfg \<Rightarrow> turn_env \<Rightarrow> string \<Rightarrow> string list \<Rightarrow> sess \<times> (string \<times> raw_message \<times> string) option \<Rightarrow> tool_result \<Rightarrow>
     sess \<times> (string \<times> raw_message \<times> string) option" where
  \<comment> \<open>the second component is the slot of the suspended call\<close>
  "apply_result cfg env turn ids st res =
     (let (s, slot) = st;
          call = (if tr_index res < length ids then ids ! tr_index res else tr_name res)
      in if tr_err res = Some ErrSuspended then (s, Some (call, tr_output res, tr_name res))
         else
           (let s1 = append_tool_result_loud env turn call (bounded_tool_result tool_result_cap (tr_output res)) (tr_is_error res) s;
                s2 = maybe_append_boundary cfg env (tr_name res) call turn s1;
                s3 = (if tr_name res = ''EnterPlanMode'' \<and> \<not> tr_is_error res then enter_plan_mode env call turn s2 else s2)
            in (s3, slot)))"

datatype outcome = TurnStop string | TurnFail string | TurnAgain

definition ask_dropped :: raw_message where
  "ask_dropped = error_form ''ask suspended but no broker is wired (question dropped)''"

definition record_calls :: "turn_env \<Rightarrow> string \<Rightarrow> tool_call_msg list \<Rightarrow> sess \<Rightarrow> sess" where
  "record_calls env turn calls s =
     foldl (\<lambda>u tc. log_line env (tool_call_line turn (tool_call_id tc) (tc_name tc) (tc_input tc) (en_now env)) u) s calls"

definition route_calls :: "session_cfg \<Rightarrow> turn_env \<Rightarrow> string \<Rightarrow> tool_call_msg list \<Rightarrow> sess \<Rightarrow> routed" where
  "route_calls cfg env turn calls s =
     foldl (route_call cfg env turn) \<lparr>ro_sess = record_calls env turn calls s, ro_batch = [], ro_gates = []\<rparr> calls"

definition tool_round :: "session_cfg \<Rightarrow> turn_env \<Rightarrow> string \<Rightarrow> tool_call_msg list \<Rightarrow> sess \<Rightarrow> outcome \<times> sess" where
  "tool_round cfg env turn calls s =
     (let r = route_calls cfg env turn calls s;
          (results, s2) = run_batch cfg env (ro_batch r) (ro_sess r);
          (s3, slot) = foldl (apply_result cfg env turn (map tool_call_id (ro_batch r))) (s2, None) results;
          s4 = foldl (\<lambda>u pp. suspend_for_permission cfg env turn pp u) s3 (ro_gates r)
      in if ro_gates r \<noteq> [] then (TurnStop ''ask'', s4)
         else (case slot of
                 None \<Rightarrow> (TurnAgain, s4)
               | Some (call, out, tool) \<Rightarrow>
                   if call = [] then (TurnAgain, s4)
                   else (case se_broker s4 of
                      Some b \<Rightarrow> (TurnStop ''ask'', suspend_for_ask env turn call out tool b s4)
                    | None \<Rightarrow> (TurnAgain, append_tool_result_loud env turn call ask_dropped True s4))))"

section \<open>The loop\<close>

definition end_turn :: "session_cfg \<Rightarrow> turn_env \<Rightarrow> string \<Rightarrow> stream_run \<Rightarrow> response \<Rightarrow> sess \<Rightarrow> outcome \<times> sess" where
  \<comment> \<open>a response without calls; the last check of the context\<close>
  "end_turn cfg env turn sr r s =
     (if sr_dead sr \<noteq> None then (TurnStop ''cancelled'', record_canceled env turn ''context cancelled before turn end'' s)
      else (TurnStop (map_stop_reason (rs_finish r)),
            log_line env (assistant_message_line turn (rs_text r) (en_now env)) s))"

definition stream_failed ::
    "session_cfg \<Rightarrow> turn_env \<Rightarrow> string \<Rightarrow> stream_run \<Rightarrow> bool \<Rightarrow> stream_err \<Rightarrow> sess \<Rightarrow> (outcome \<times> bool) \<times> sess" where
  \<comment> \<open>\<open>retried\<close> is the overflow guard of the turn\<close>
  "stream_failed cfg env turn sr retried e s =
     (if sr_dead sr \<noteq> None then
        ((TurnStop ''cancelled'', retried), record_canceled env turn ''context cancelled during stream'' s)
      else if is_overflow e \<and> \<not> retried then
        (let s1 = compact cfg env turn (s\<lparr>se_compact_turn := turn\<rparr>)
         in ((TurnAgain, True), s1\<lparr>se_projector := set_retry_compacted_turn turn (se_projector s1)\<rparr>))
      else ((TurnFail (''session turn stream: '' @ stream_err_text e), retried),
            append_error env turn ''provider'' (stream_err_text e) False s))"

definition turn_step :: "session_cfg \<Rightarrow> turn_env \<Rightarrow> string \<Rightarrow> bool \<Rightarrow> sess \<Rightarrow> (outcome \<times> bool) \<times> sess" where
  "turn_step cfg env turn retried s =
     (if en_head_dead env (length (se_log s)) then
        ((TurnStop ''cancelled'', retried), record_canceled env turn ''context cancelled before turn step'' s)
      else
        (let s1 = maybe_compact cfg env turn (drain_steering env turn (arrive env s));
             sr = en_stream env (se_attempt s1) (project (se_projector s1) (se_mgr s1) turn);
             ((r, err), s2) = stream_and_emit cfg env turn sr (s1\<lparr>se_attempt := se_attempt s1 + 1\<rparr>)
         in case err of
              Some e \<Rightarrow> stream_failed cfg env turn sr retried e s2
            | None \<Rightarrow>
                (let (out, s3) = (if rs_calls r \<noteq> [] then tool_round cfg env turn (rs_calls r) s2
                                  else end_turn cfg env turn sr r s2)
                 in ((out, retried), s3))))"

fun turn_loop :: "session_cfg \<Rightarrow> turn_env \<Rightarrow> string \<Rightarrow> nat \<Rightarrow> bool \<Rightarrow> sess \<Rightarrow> outcome \<times> sess" where
  "turn_loop cfg env turn 0 retried s =
     (TurnFail ''session: tool loop exceeded max iterations'',
      append_error env turn ''session'' ''tool loop exceeded max iterations'' True s)"
| "turn_loop cfg env turn (Suc k) retried s =
     (case turn_step cfg env turn retried s of
        ((TurnAgain, retried'), s') \<Rightarrow> turn_loop cfg env turn k retried' s'
      | ((out, _), s') \<Rightarrow> (out, s'))"

definition max_iterations :: nat where
  "max_iterations = 64"

definition run_turn :: "session_cfg \<Rightarrow> turn_env \<Rightarrow> string \<Rightarrow> sess \<Rightarrow> outcome \<times> sess" where
  "run_turn cfg env turn s = turn_loop cfg env turn max_iterations False s"

definition session_prompt ::
    "session_cfg \<Rightarrow> turn_env \<Rightarrow> string option \<Rightarrow> content_block list \<Rightarrow> sess \<Rightarrow> outcome \<times> sess" where
  \<comment> \<open>the first argument after the environment is the checkpointer's error\<close>
  "session_prompt cfg env snap blocks s =
     (let (ts, turn) = next_turn_id (se_turns s);
          s1 = s\<lparr>se_turns := ts\<rparr>;
          s2 = (case snap of Some e \<Rightarrow> append_error env turn ''checkpoint'' e True s1 | None \<Rightarrow> s1)
      in case log_line_err env (user_message_line turn blocks (en_now env)) s2 of
           (s3, Some e) \<Rightarrow> (TurnFail (manager_err_text e), s3)
         | (s3, None) \<Rightarrow> run_turn cfg env turn s3)"

section \<open>Resumes\<close>

definition execute_gated_call :: "session_cfg \<Rightarrow> turn_env \<Rightarrow> pending_ask \<Rightarrow> sess \<Rightarrow> (raw_message \<times> bool) \<times> sess" where
  "execute_gated_call cfg env p s =
     (if is_subagent_tool (pa_tool p) then
        (case dispatch_subagent cfg env (pa_turn p) (pa_call p) (extract_subagent_prompt (pa_input p))
                (agent_def_for cfg (pa_input p)) s of
           ((_, Some e), s1) \<Rightarrow> ((error_form e, True), s1)
         | ((res, None), s1) \<Rightarrow>
             ((bounded_tool_result tool_result_cap (fst (subagent_result_payload res)),
               snd (subagent_result_payload res)), s1))
      else
        (case run_batch cfg env [\<lparr>tc_id = pa_call p, tc_name = pa_tool p, tc_input = pa_input p\<rparr>] s of
           ([], s1) \<Rightarrow> ((error_form ''gated call produced no result'', True), s1)
         | (res # _, s1) \<Rightarrow> ((bounded_tool_result tool_result_cap (tr_output res), tr_is_error res), s1)))"

definition land_permission ::
    "session_cfg \<Rightarrow> turn_env \<Rightarrow> (ask_err \<Rightarrow> string) \<Rightarrow> pending_ask \<Rightarrow> ask_outcome \<Rightarrow> sess \<Rightarrow> sess" where
  \<comment> \<open>\<^verbatim>\<open>resumePermissionAsk\<close> up to its call of \<^verbatim>\<open>runTurn\<close>\<close>
  "land_permission cfg env show_err p out s =
     (let (run, ran) = execute_gated_call cfg env p s;
          ((result, is_err, executed), effects) = resolve_permission_outcome show_err run p out;
          s1 = (if ExecuteCall \<in> set effects then ran
                else if MarkDegraded \<in> set effects then s\<lparr>se_degraded := True\<rparr> else s);
          s2 = append_tool_result_loud env (pa_turn p) (pa_call p) result is_err s1
      in if executed then
           (let s3 = maybe_append_boundary cfg env (pa_tool p) (pa_call p) (pa_turn p) s2
            in if pa_tool p = ''EnterPlanMode'' then enter_plan_mode env (pa_call p) (pa_turn p) s3 else s3)
         else s2)"

definition resume_permission_ask ::
    "session_cfg \<Rightarrow> turn_env \<Rightarrow> (ask_err \<Rightarrow> string) \<Rightarrow> pending_ask \<Rightarrow> ask_outcome \<Rightarrow> sess \<Rightarrow> outcome \<times> sess" where
  "resume_permission_ask cfg env show_err p out s =
     run_turn cfg env (pa_turn p) (land_permission cfg env show_err p out s)"

definition leave_plan_mode :: "turn_env \<Rightarrow> string \<Rightarrow> string \<Rightarrow> sess \<Rightarrow> sess" where
  "leave_plan_mode env call turn s =
     log_line env (plan_mode_line PlanModeCauseExit call turn (en_now env))
       (s\<lparr>se_plan := map_option plan_exit (se_plan s)\<rparr>)"

definition resume_ask_form :: "session_cfg \<Rightarrow> turn_env \<Rightarrow> pending_ask \<Rightarrow> string \<Rightarrow> bool \<Rightarrow> sess \<Rightarrow> outcome \<times> sess" where
  "resume_ask_form cfg env p form is_err s =
     run_turn cfg env (pa_turn p)
       (append_tool_result_loud env (pa_turn p) (pa_call p) (Some (JStr form)) is_err s)"

definition resume_ask_claimed ::
    "session_cfg \<Rightarrow> turn_env \<Rightarrow> string \<Rightarrow> pending_ask \<Rightarrow> string option \<Rightarrow> sess \<Rightarrow> outcome \<times> sess" where
  \<comment> \<open>\<open>dur\<close> is the text of the broker's timeout\<close>
  "resume_ask_claimed cfg env dur p reply s =
     (let (form, is_err, exits) = resume_form (en_quote env) dur p reply
      in resume_ask_form cfg env p form is_err
           (if exits then leave_plan_mode env (pa_call p) (pa_turn p) s else s))"

definition resolve_ask ::
    "session_cfg \<Rightarrow> turn_env \<Rightarrow> string \<Rightarrow> string option \<Rightarrow> sess \<Rightarrow> (outcome \<times> sess) option" where
  \<comment> \<open>ResolveAsk, and CancelPendingAsk with no reply; \<open>None\<close> is \<^verbatim>\<open>errNoPendingAsk\<close>\<close>
  "resolve_ask cfg env dur reply s =
     (case se_broker s of
        None \<Rightarrow> None
      | Some b \<Rightarrow>
          (case claim b of
             (_, None) \<Rightarrow> None
           | (b', Some p) \<Rightarrow> Some (resume_ask_claimed cfg env dur p reply (s\<lparr>se_broker := Some b'\<rparr>))))"

definition resolve_ask_structured ::
    "session_cfg \<Rightarrow> turn_env \<Rightarrow> (string \<times> json) list \<Rightarrow> sess \<Rightarrow> (outcome \<times> sess) option" where
  "resolve_ask_structured cfg env content s =
     (case se_broker s of
        None \<Rightarrow> None
      | Some b \<Rightarrow>
          (case claim b of
             (_, None) \<Rightarrow> None
           | (b', Some p) \<Rightarrow>
               Some (resume_ask_form cfg env p (render_structured_reply (en_quote env) (pa_questions p) content) False
                       (s\<lparr>se_broker := Some b'\<rparr>))))"

end
