(* ===== verification/TurnProps.thy ===== *)
theory TurnProps
  imports Turn
begin

text \<open>
  What the turn loop keeps: which calls reach the executor, that every call of a response is
  answered, the bounds on attempts and compactions, plan mode, and what a dialog's outcome lands.
\<close>

section \<open>What the parts of a round leave alone\<close>

named_theorems core_simps \<open>the core after an operation\<close>
named_theorems exec_simps \<open>the calls handed to the executor after an operation\<close>

lemma frame_core: "frame s = frame s' \<Longrightarrow> core s = core s' \<and> se_executed s = se_executed s'"
  by (simp add: frame_def)

lemma log_line_core [core_simps]: "core (log_line env l s) = core s"
  by (simp add: core_def log_simps)

lemma log_line_exec [exec_simps]: "se_executed (log_line env l s) = se_executed s"
  by (simp add: log_simps)

lemma result_core [core_simps]: "core (append_tool_result_loud env turn call out err s) = core s"
  by (rule frame_core[OF append_tool_result_loud_frame, THEN conjunct1])

lemma result_exec [exec_simps]: "se_executed (append_tool_result_loud env turn call out err s) = se_executed s"
  by (rule frame_core[OF append_tool_result_loud_frame, THEN conjunct2])

lemma boundary_core [core_simps]: "core (maybe_append_boundary cfg env tool call turn s) = core s"
  by (rule frame_core[OF maybe_append_boundary_frame, THEN conjunct1])

lemma boundary_exec [exec_simps]: "se_executed (maybe_append_boundary cfg env tool call turn s) = se_executed s"
  by (rule frame_core[OF maybe_append_boundary_frame, THEN conjunct2])

lemma publish_core [core_simps]: "core (publish e s) = core s"
  by (simp add: core_def publish_def)

lemma publish_exec [exec_simps]: "se_executed (publish e s) = se_executed s"
  by (simp add: publish_def)

lemma core_update [core_simps]:
  "core (s\<lparr>se_executed := x\<rparr>) = core s" "core (s\<lparr>se_sub := n\<rparr>) = core s" "core (s\<lparr>se_turns := ts\<rparr>) = core s"
  "core (s\<lparr>se_mgr := m\<rparr>) = core s" "core (s\<lparr>se_log := ls\<rparr>) = core s" "core (s\<lparr>se_last_input := i\<rparr>) = core s"
  by (simp_all add: core_def)

lemma core_fields:
  "core s = core s' \<Longrightarrow> se_plan s = se_plan s' \<and> se_attempt s = se_attempt s' \<and> se_compactions s = se_compactions s' \<and>
     se_broker s = se_broker s' \<and> se_queue s = se_queue s' \<and> se_degraded s = se_degraded s' \<and> se_steer s = se_steer s' \<and>
     se_compact_turn s = se_compact_turn s' \<and> se_projector s = se_projector s'"
  by (simp add: core_def)

subsection \<open>Subagents\<close>

lemma sub_stream_core [core_simps]: "core (snd (sub_stream turn sr s)) = core s"
  by (rule frame_core[OF sub_stream_frame, THEN conjunct1])

lemma sub_call_core [core_simps]: "core (sub_call cfg env bg rs turn s tc) = core s"
  by (simp add: sub_call_def execute_restricted_def Let_def core_simps split: sum.split)

lemma sub_calls_core [core_simps]: "core (foldl (sub_call cfg env bg rs turn) s calls) = core s"
  by (induction calls arbitrary: s) (simp_all add: core_simps)

lemma sub_loop_core [core_simps]: "core (snd (sub_loop cfg env bg rs turn prompt k s)) = core s"
proof (induction k arbitrary: s)
  case (Suc k)
  let ?sr = "en_sub_stream env (se_sub s) (sub_messages prompt)"
  obtain r s1 where r: "sub_stream turn ?sr (s\<lparr>se_sub := se_sub s + 1\<rparr>) = (r, s1)"
    by (rule prod.exhaust)
  obtain calls tx e where "r = (calls, tx, e)" by (rule prod_cases3)
  with r have st: "sub_stream turn ?sr (s\<lparr>se_sub := se_sub s + 1\<rparr>) = ((calls, tx, e), s1)" by (simp only:)
  then have "core s1 = core s" using sub_stream_core[of turn ?sr "s\<lparr>se_sub := se_sub s + 1\<rparr>"] by (simp add: core_simps)
  with Suc st show ?case by (simp add: Let_def core_simps split: option.split)
qed simp

lemma begin_dispatch_core [core_simps]: "core (snd (begin_dispatch cfg env parent call ad s)) = core s"
  by (simp add: begin_dispatch_def Let_def split_beta core_simps)

lemma begin_dispatch_exec [exec_simps]: "se_executed (snd (begin_dispatch cfg env parent call ad s)) = se_executed s"
  by (simp add: begin_dispatch_def Let_def split_beta exec_simps)

lemma dispatch_core [core_simps]: "core (snd (dispatch_subagent cfg env parent call prompt ad s)) = core s"
  by (simp add: dispatch_subagent_def Let_def split_beta core_simps sub_run_def)

lemma dispatch_exec:
  "set (se_executed (snd (dispatch_subagent cfg env parent call prompt ad s))) \<subseteq>
     set (se_executed s) \<union> {tc. tc_name tc \<in> set (restricted_for ad)}"
proof -
  have "set (se_executed (snd (sub_run cfg env False (restricted_for ad) sub prompt u))) \<subseteq>
      set (se_executed u) \<union> {tc. tc_name tc \<in> set (restricted_for ad)}" for sub u
    unfolding sub_run_def by (rule subset_trans[OF sub_loop_executed]) (simp add: log_simps)
  from this[of "fst (begin_dispatch cfg env parent call ad s)" "snd (begin_dispatch cfg env parent call ad s)"]
  show ?thesis by (simp add: dispatch_subagent_def Let_def split_beta exec_simps)
qed

lemma background_core [core_simps]: "core (snd (dispatch_subagent_background cfg env parent call ad s)) = core s"
  by (simp add: dispatch_subagent_background_def Let_def split_beta core_simps split: sum.split)

lemma background_exec [exec_simps]:
  "se_executed (snd (dispatch_subagent_background cfg env parent call ad s)) = se_executed s"
  by (simp add: dispatch_subagent_background_def Let_def split_beta exec_simps split: sum.split)

lemma dispatched:
  "dispatch_subagent cfg env parent call prompt ad s = (r, s') \<Longrightarrow>
     core s' = core s \<and> set (se_executed s') \<subseteq> set (se_executed s) \<union> {tc. tc_name tc \<in> set (restricted_for ad)}"
  using dispatch_core[of cfg env parent call prompt ad s] dispatch_exec[of cfg env parent call prompt ad s] by simp

lemma dispatched_background:
  "dispatch_subagent_background cfg env parent call ad s = (r, s') \<Longrightarrow>
     core s' = core s \<and> se_executed s' = se_executed s"
  using background_core[of cfg env parent call ad s] background_exec[of cfg env parent call ad s] by simp

lemma subagent_call_keeps:
  "core (subagent_call cfg env turn tc s) = core s \<and>
   set (se_executed (subagent_call cfg env turn tc s)) \<subseteq>
     set (se_executed s) \<union> {x. tc_name x \<in> set (restricted_for (agent_def_for cfg (tc_input tc)))}"
proof -
  let ?ad = "agent_def_for cfg (tc_input tc)"
  obtain r1 s1 where b: "dispatch_subagent_background cfg env turn (tool_call_id tc) ?ad s = (r1, s1)"
    by (rule prod.exhaust)
  obtain q s2 where d: "dispatch_subagent cfg env turn (tc_name tc) (extract_subagent_prompt (tc_input tc)) ?ad s = (q, s2)"
    by (rule prod.exhaust)
  obtain res e where "q = (res, e)" by (rule prod.exhaust)
  with b d dispatched[OF d] dispatched_background[OF b] show ?thesis
    by (cases r1; cases e) (auto simp: subagent_call_def Let_def core_simps exec_simps)
qed

lemmas subagent_call_core [core_simps] = subagent_call_keeps[THEN conjunct1]
lemmas subagent_call_exec = subagent_call_keeps[THEN conjunct2]

section \<open>Routing\<close>

lemma record_calls_core [core_simps]: "core (record_calls env turn calls s) = core s"
  unfolding record_calls_def by (induction calls arbitrary: s) (simp_all add: core_simps)

lemma record_calls_exec [exec_simps]: "se_executed (record_calls env turn calls s) = se_executed s"
  unfolding record_calls_def by (induction calls arbitrary: s) (simp_all add: exec_simps)

lemma gate_refused_keeps:
  "core (ro_sess (gate_refused cfg env turn r tc)) = core (ro_sess r) \<and>
   se_executed (ro_sess (gate_refused cfg env turn r tc)) = se_executed (ro_sess r) \<and>
   ro_batch (gate_refused cfg env turn r tc) = ro_batch r"
  by (simp add: gate_refused_def Let_def core_simps exec_simps)

lemma route_call_core: "core (ro_sess (route_call cfg env turn r tc)) = core (ro_sess r)"
  by (simp add: route_call_def Let_def core_simps gate_refused_keeps)

lemma verdict_core: "core s = core s' \<Longrightarrow> call_verdict cfg s tc = call_verdict cfg s' tc \<and> call_blocked cfg s tc = call_blocked cfg s' tc"
  by (drule core_fields) (simp add: call_verdict_def call_blocked_def)

definition may_run :: "session_cfg \<Rightarrow> sess \<Rightarrow> tool_call_msg \<Rightarrow> bool" where
  \<comment> \<open>the gate and, but for subagents, plan mode let the call through\<close>
  "may_run cfg s tc =
     (gv_action (call_verdict cfg s tc) = GateExecute \<and> (is_subagent_tool (tc_name tc) \<or> \<not> call_blocked cfg s tc))"

definition agent_may_run :: "session_cfg \<Rightarrow> sess \<Rightarrow> tool_call_msg list \<Rightarrow> tool_call_msg \<Rightarrow> bool" where
  \<comment> \<open>a subagent call of the response that passed the gate has the call in its restricted set\<close>
  "agent_may_run cfg s calls tc =
     (\<exists>p \<in> set calls. is_subagent_tool (tc_name p) \<and> may_run cfg s p \<and>
        tc_name tc \<in> set (restricted_for (agent_def_for cfg (tc_input p))))"

definition routed_ok :: "session_cfg \<Rightarrow> sess \<Rightarrow> tool_call_msg list \<Rightarrow> routed \<Rightarrow> bool" where
  "routed_ok cfg s calls r =
     (core (ro_sess r) = core s \<and>
      (\<forall>tc \<in> set (ro_batch r). tc \<in> set calls \<and> \<not> is_subagent_tool (tc_name tc) \<and> may_run cfg s tc) \<and>
      (\<forall>tc \<in> set (se_executed (ro_sess r)). tc \<in> set (se_executed s) \<or> agent_may_run cfg s calls tc))"

lemma route_call_ok:
  assumes "routed_ok cfg s calls r" "tc \<in> set calls"
  shows "routed_ok cfg s calls (route_call cfg env turn r tc)"
proof -
  have c: "core (ro_sess r) = core s" using assms(1) by (simp add: routed_ok_def)
  note v = verdict_core[OF c]
  show ?thesis
  proof (cases "is_subagent_tool (tc_name tc) \<and> may_run cfg s tc")
    case True
    then have "route_call cfg env turn r tc = r\<lparr>ro_sess := subagent_call cfg env turn tc (ro_sess r)\<rparr>"
      by (simp add: route_call_def v may_run_def)
    with True assms show ?thesis
      using subagent_call_exec[of cfg env turn tc "ro_sess r"]
      by (auto simp: routed_ok_def core_simps agent_may_run_def)
  next
    case False
    then have "se_executed (ro_sess (route_call cfg env turn r tc)) = se_executed (ro_sess r)"
      by (auto simp: route_call_def v may_run_def Let_def gate_refused_keeps exec_simps)
    moreover have "ro_batch (route_call cfg env turn r tc) = ro_batch r \<or>
        ro_batch (route_call cfg env turn r tc) = ro_batch r @ [tc] \<and> \<not> is_subagent_tool (tc_name tc) \<and> may_run cfg s tc"
      using False by (auto simp: route_call_def v may_run_def Let_def gate_refused_keeps)
    ultimately show ?thesis using assms route_call_core[of cfg env turn r tc] by (auto simp: routed_ok_def)
  qed
qed

lemma route_calls_ok: "routed_ok cfg s calls (route_calls cfg env turn calls s)"
proof -
  have "routed_ok cfg s calls r \<Longrightarrow> set xs \<subseteq> set calls \<Longrightarrow> routed_ok cfg s calls (foldl (route_call cfg env turn) r xs)" for r xs
    by (induction xs arbitrary: r) (auto intro: route_call_ok)
  moreover have "routed_ok cfg s calls \<lparr>ro_sess = record_calls env turn calls s, ro_batch = [], ro_gates = []\<rparr>"
    by (simp add: routed_ok_def core_simps exec_simps)
  ultimately show ?thesis unfolding route_calls_def by blast
qed

section \<open>The batch and the suspensions\<close>

definition calm :: "sess \<Rightarrow> sess \<Rightarrow> bool" where
  \<comment> \<open>nothing was executed, no attempt or compaction was made, and plan mode was not left\<close>
  "calm s s' =
     (se_executed s' = se_executed s \<and> se_attempt s' = se_attempt s \<and> se_compactions s' = se_compactions s \<and>
      se_compact_turn s' = se_compact_turn s \<and> (plan_mode_on (se_plan s) \<longrightarrow> plan_mode_on (se_plan s')))"

lemma calm_refl [simp]: "calm s s" by (simp add: calm_def)

lemma calm_trans [trans]: "calm s t \<Longrightarrow> calm t u \<Longrightarrow> calm s u" by (simp add: calm_def)

lemma calm_frame: "frame s' = frame s \<Longrightarrow> calm s s'"
  by (simp add: calm_def frame_defs)

lemma calm_fold: "(\<And>u x. x \<in> set xs \<Longrightarrow> calm u (f u x)) \<Longrightarrow> calm s (foldl f s xs)"
proof (induction xs arbitrary: s)
  case (Cons x xs)
  have "calm (f s x) (foldl f (f s x) xs)" by (rule Cons.IH) (simp add: Cons.prems)
  with Cons.prems[of x s] show ?case using calm_trans by auto
qed simp

lemma calm_log [intro]: "calm s (log_line env l s)"
  by (rule calm_frame) simp

lemma calm_result [intro]: "calm s (append_tool_result_loud env turn call out err s)"
  by (rule calm_frame) (rule append_tool_result_loud_frame)

lemma calm_boundary [intro]: "calm s (maybe_append_boundary cfg env tool call turn s)"
  by (rule calm_frame) (rule maybe_append_boundary_frame)

lemma calm_enter [intro]: "calm s (enter_plan_mode env call turn s)"
  by (auto simp: enter_plan_mode_def calm_def log_simps plan_mode_on_def plan_enter_def split: option.splits)

lemma calm_suspend [intro]: "calm s (suspend_for_permission cfg env turn pp s)"
  by (auto simp: suspend_for_permission_def calm_def log_simps Let_def calm_result[unfolded calm_def] split: option.split)

lemma calm_suspend_ask [intro]: "calm s (suspend_for_ask env turn call out tool b s)"
  by (simp add: suspend_for_ask_def calm_def log_simps Let_def)

lemma calm_apply: "calm (fst st) (fst (apply_result cfg env turn ids st res))"
proof -
  have "calm s (if c then enter_plan_mode env call turn t else t)" if "calm s t" for c call s t
    using that calm_trans by (cases c) auto
  moreover have "calm s (maybe_append_boundary cfg env tool call turn (append_tool_result_loud env turn call out err s))"
    for s tool call out err by (rule calm_trans[OF calm_result calm_boundary])
  ultimately show ?thesis by (simp add: apply_result_def Let_def split_beta)
qed

lemma calm_applies: "calm (fst st) (fst (foldl (apply_result cfg env turn ids) st rs))"
proof (induction rs arbitrary: st)
  case (Cons x rs)
  show ?case using calm_trans[OF calm_apply Cons.IH] by simp
qed simp

lemma run_batch_exec:
  "set (se_executed (snd (run_batch cfg env calls s))) \<subseteq> set (se_executed s) \<union> set calls"
  by (auto simp: run_batch_def Let_def)

lemma run_batch_core [core_simps]: "core (snd (run_batch cfg env calls s)) = core s"
  by (simp add: run_batch_def Let_def core_simps)

lemma tool_round_after:
  "\<exists>s4. calm (snd (run_batch cfg env (ro_batch (route_calls cfg env turn calls s)) (ro_sess (route_calls cfg env turn calls s))))
     s4 \<and> s4 = snd (tool_round cfg env turn calls s)"
proof -
  let ?r = "route_calls cfg env turn calls s"
  obtain rs s2 where b: "run_batch cfg env (ro_batch ?r) (ro_sess ?r) = (rs, s2)" by (rule prod.exhaust)
  obtain s3 slot where a: "foldl (apply_result cfg env turn (map tool_call_id (ro_batch ?r))) (s2, None) rs = (s3, slot)"
    by (rule prod.exhaust)
  let ?s4 = "foldl (\<lambda>u pp. suspend_for_permission cfg env turn pp u) s3 (ro_gates ?r)"
  have "calm s2 s3" using calm_applies[of "(s2, None)" cfg env turn "map tool_call_id (ro_batch ?r)" rs] a by simp
  moreover have "calm s3 ?s4" by (rule calm_fold) (rule calm_suspend)
  ultimately have "calm s2 ?s4" by (rule calm_trans)
  moreover have "calm ?s4 (snd (tool_round cfg env turn calls s))"
    using b a by (auto simp: tool_round_def Let_def split: option.split)
  ultimately show ?thesis using b calm_trans by auto
qed

lemma tool_round_keeps:
  "se_attempt (snd (tool_round cfg env turn calls s)) = se_attempt s \<and>
   se_compactions (snd (tool_round cfg env turn calls s)) = se_compactions s \<and>
   se_compact_turn (snd (tool_round cfg env turn calls s)) = se_compact_turn s \<and>
   (plan_mode_on (se_plan s) \<longrightarrow> plan_mode_on (se_plan (snd (tool_round cfg env turn calls s))))"
proof -
  let ?r = "route_calls cfg env turn calls s"
  have "core (snd (run_batch cfg env (ro_batch ?r) (ro_sess ?r))) = core s"
    using route_calls_ok[of cfg s calls env turn] by (simp add: core_simps routed_ok_def)
  from core_fields[OF this] show ?thesis
    using tool_round_after[of cfg env turn calls s] by (auto simp: calm_def)
qed

lemma round_executed:
  assumes "tc \<in> set (se_executed (snd (tool_round cfg env turn calls s)))" "tc \<notin> set (se_executed s)"
  shows "(tc \<in> set calls \<and> \<not> is_subagent_tool (tc_name tc) \<and> \<not> call_blocked cfg s tc \<and>
            gv_action (call_verdict cfg s tc) = GateExecute) \<or>
         (\<exists>p \<in> set calls. is_subagent_tool (tc_name p) \<and> gv_action (call_verdict cfg s p) = GateExecute \<and>
            tc_name tc \<in> set (restricted_for (agent_def_for cfg (tc_input p))))"
proof -
  let ?r = "route_calls cfg env turn calls s"
  have "tc \<in> set (se_executed (ro_sess ?r)) \<or> tc \<in> set (ro_batch ?r)"
    using assms(1) tool_round_after[of cfg env turn calls s] run_batch_exec[of cfg env "ro_batch ?r" "ro_sess ?r"]
    by (auto simp: calm_def)
  then show ?thesis
    using route_calls_ok[of cfg s calls env turn] assms(2)
    by (auto simp: routed_ok_def agent_may_run_def may_run_def)
qed

section \<open>The loop\<close>

lemma stream_chunks_keeps:
  "core (snd (stream_chunks cfg env turn sr i cs r s)) = core s \<and>
   se_executed (snd (stream_chunks cfg env turn sr i cs r s)) = se_executed s"
proof (induction cs arbitrary: i r s)
  case (Cons c cs)
  show ?case
  proof (cases c)
    case (ToolChunk cid tc)
    then show ?thesis using Cons by (cases tc) (simp_all add: core_simps exec_simps)
  next
    case (UsageChunk u)
    then show ?thesis using Cons by (cases u) (auto simp: core_simps exec_simps)
  next
    case (ErrorChunk e)
    then show ?thesis using Cons by (cases e) simp_all
  qed (simp_all add: Cons core_simps exec_simps Let_def split_beta)
qed simp

lemma stream_and_emit_keeps:
  "core (snd (stream_and_emit cfg env turn sr s)) = core s \<and>
   se_executed (snd (stream_and_emit cfg env turn sr s)) = se_executed s"
  by (simp add: stream_and_emit_def Let_def stream_chunks_keeps split: option.split)

lemma calm_stream: "stream_and_emit cfg env turn sr s = (x, s') \<Longrightarrow> calm s s'"
  using stream_and_emit_keeps[of cfg env turn sr s] by (simp add: calm_frame frame_def)

lemma calm_log_err: "log_line_err env l s = (s', e) \<Longrightarrow> calm s s'"
  by (drule log_line_err_simps) (simp add: calm_def)

lemma calm_drain: "calm s (drain_steering env turn (arrive env s))"
proof -
  have "calm s (arrive env s)" by (simp add: calm_def arrive_def)
  moreover have "calm t (drain_steering env turn t)" for t
    by (auto simp: drain_steering_def calm_def publish_def Let_def split: prod.split option.split dest!: log_line_err_simps)
  ultimately show ?thesis by (rule calm_trans)
qed

lemma calm_cancel: "calm s (record_canceled env turn reason s)"
  by (simp add: record_canceled_def calm_def log_simps Let_def)

lemma calm_error: "calm s (append_error env turn comp' msg rec s)"
  unfolding append_error_def by (rule calm_log)

definition compacted :: "string \<Rightarrow> sess \<Rightarrow> sess \<Rightarrow> bool" where
  \<comment> \<open>the only counter that moved is that of compactions, by one, and the turn is stamped\<close>
  "compacted turn s s' =
     (se_executed s' = se_executed s \<and> se_attempt s' = se_attempt s \<and> se_compactions s' = se_compactions s + 1 \<and>
      se_compact_turn s' = turn \<and> (plan_mode_on (se_plan s) \<longrightarrow> plan_mode_on (se_plan s')))"

lemma compact_compacted: "compacted turn s (compact cfg env turn (s\<lparr>se_compact_turn := turn\<rparr>))"
  by (auto simp: compact_def compacted_def Let_def log_simps
      split: option.split list.split prod.split dest!: log_line_err_simps)

lemma maybe_compact_cases:
  "maybe_compact cfg env turn s = s \<or>
   (se_compact_turn s \<noteq> turn \<and> compacted turn s (maybe_compact cfg env turn s))"
  by (simp add: maybe_compact_def compact_compacted)

definition spare :: "string \<Rightarrow> bool \<Rightarrow> sess \<Rightarrow> nat" where
  \<comment> \<open>the compactions the turn may still make\<close>
  "spare turn retried s = (if se_compact_turn s = turn then 0 else 1) + (if retried then 0 else 1)"

definition permitted :: "session_cfg \<Rightarrow> tool_call_msg \<Rightarrow> bool" where
  \<comment> \<open>not of the tools plan mode refuses, or of some subagent's restricted set\<close>
  "permitted cfg tc =
     (\<not> (tc_name tc \<in> set plan_mode_extra_refused \<or> is_catalog_mutating (Some (cg_catalog cfg)) (tc_name tc)) \<or>
      (\<exists>inp. tc_name tc \<in> set (restricted_for (agent_def_for cfg inp))))"

definition advances :: "session_cfg \<Rightarrow> string \<Rightarrow> nat \<Rightarrow> bool \<Rightarrow> sess \<Rightarrow> bool \<Rightarrow> sess \<Rightarrow> bool" where
  \<comment> \<open>what \<open>k\<close> iterations may do\<close>
  "advances cfg turn k retried s retried' s' =
     (se_attempt s' \<le> se_attempt s + k \<and>
      se_compactions s' + spare turn retried' s' \<le> se_compactions s + spare turn retried s \<and>
      (plan_mode_on (se_plan s) \<longrightarrow> plan_mode_on (se_plan s') \<and>
         (\<forall>tc \<in> set (se_executed s'). tc \<in> set (se_executed s) \<or> permitted cfg tc)))"

lemma advances_trans:
  "advances cfg turn j r s r' s' \<Longrightarrow> advances cfg turn k r' s' r'' s'' \<Longrightarrow> advances cfg turn (j + k) r s r'' s''"
  by (auto simp: advances_def)

lemma advances_calm: "calm s s' \<Longrightarrow> advances cfg turn 0 r s r s'"
  by (simp add: calm_def advances_def spare_def)

lemma advances_maybe_compact: "advances cfg turn 0 r s r (maybe_compact cfg env turn s)"
  using maybe_compact_cases[of cfg env turn s] by (auto simp: advances_def compacted_def spare_def)

lemma advances_mono: "advances cfg turn j r s r' s' \<Longrightarrow> j \<le> k \<Longrightarrow> advances cfg turn k r s r' s'"
  by (auto simp: advances_def)

lemma tool_round_advances: "advances cfg turn 0 r s r (snd (tool_round cfg env turn calls s))"
proof -
  let ?s' = "snd (tool_round cfg env turn calls s)"
  have "permitted cfg tc" if p: "plan_mode_on (se_plan s)" and tc: "tc \<in> set (se_executed ?s')" "tc \<notin> set (se_executed s)" for tc
    using round_executed[OF tc] p by (auto simp: permitted_def call_blocked_def plan_mode_blocks_def)
  then show ?thesis
    using tool_round_keeps[of cfg env turn calls s] by (auto simp: advances_def spare_def)
qed

lemma stream_failed_advances:
  assumes "stream_failed cfg env turn sr r e s = ((out, r'), s')"
  shows "advances cfg turn 0 r s r' s'"
proof (cases "sr_dead sr = None \<and> is_overflow e \<and> \<not> r")
  case True
  let ?c = "compact cfg env turn (s\<lparr>se_compact_turn := turn\<rparr>)"
  have c: "compacted turn s ?c" by (rule compact_compacted)
  from True assms have s': "r'" "s' = ?c\<lparr>se_projector := set_retry_compacted_turn turn (se_projector ?c)\<rparr>"
    by (simp_all add: stream_failed_def Let_def)
  show ?thesis using c True unfolding s'(2) by (simp add: s'(1) compacted_def advances_def spare_def)
next
  case False
  then have "r' = r \<and> calm s s'" using assms calm_cancel calm_error
    by (auto simp: stream_failed_def split: if_splits)
  then show ?thesis using advances_calm by blast
qed

lemma turn_step_advances:
  assumes "turn_step cfg env turn r s = ((out, r'), s')"
  shows "advances cfg turn 1 r s r' s'"
proof (cases "en_head_dead env (length (se_log s))")
  case True
  then have "r' = r" "calm s s'" using assms calm_cancel by (auto simp: turn_step_def)
  then show ?thesis using advances_calm advances_mono by blast
next
  case False
  define s1 where "s1 = maybe_compact cfg env turn (drain_steering env turn (arrive env s))"
  define sr where "sr = en_stream env (se_attempt s1) (project (se_projector s1) (se_mgr s1) turn)"
  define t where "t = s1\<lparr>se_attempt := se_attempt s1 + 1\<rparr>"
  obtain x s2 where st: "stream_and_emit cfg env turn sr t = (x, s2)" by (rule prod.exhaust)
  obtain rsp err where x: "x = (rsp, err)" by (rule prod.exhaust)
  have "advances cfg turn 0 r s r s1"
    unfolding s1_def using advances_trans[OF advances_calm[OF calm_drain] advances_maybe_compact] by simp
  moreover have "advances cfg turn 1 r s1 r t" by (simp add: t_def advances_def spare_def)
  ultimately have "advances cfg turn 1 r s r t" using advances_trans by fastforce
  then have A: "advances cfg turn 1 r s r s2" using advances_trans advances_calm[OF calm_stream[OF st]] by fastforce
  have "advances cfg turn 0 r s2 r' s'"
  proof (cases err)
    case None
    then have "r' = r \<and> s' = snd (if rs_calls rsp \<noteq> [] then tool_round cfg env turn (rs_calls rsp) s2 else end_turn cfg env turn sr rsp s2)"
      using assms False st x by (auto simp: turn_step_def Let_def s1_def sr_def t_def split_beta)
    moreover have "calm s2 (snd (end_turn cfg env turn sr rsp s2))"
      using calm_cancel calm_log by (simp add: end_turn_def)
    ultimately show ?thesis using tool_round_advances advances_calm by simp
  next
    case (Some e)
    then have "stream_failed cfg env turn sr r e s2 = ((out, r'), s')"
      using assms False st x by (simp add: turn_step_def Let_def s1_def sr_def t_def)
    then show ?thesis by (rule stream_failed_advances)
  qed
  with A show ?thesis using advances_trans by fastforce
qed

lemma turn_loop_advances:
  "\<exists>r'. advances cfg turn k r s r' (snd (turn_loop cfg env turn k r s)) \<and> fst (turn_loop cfg env turn k r s) \<noteq> TurnAgain"
proof (induction k arbitrary: r s)
  case 0
  have "advances cfg turn 0 r s r (append_error env turn ''session'' ''tool loop exceeded max iterations'' True s)"
    by (rule advances_calm[OF calm_error])
  then show ?case by auto
next
  case (Suc k)
  obtain x s1 where st: "turn_step cfg env turn r s = (x, s1)" by (rule prod.exhaust)
  obtain out r1 where x: "x = (out, r1)" by (rule prod.exhaust)
  have one: "advances cfg turn 1 r s r1 s1" using st x turn_step_advances by blast
  show ?case
  proof (cases "out = TurnAgain")
    case True
    obtain r2 where r2: "advances cfg turn k r1 s1 r2 (snd (turn_loop cfg env turn k r1 s1))"
      "fst (turn_loop cfg env turn k r1 s1) \<noteq> TurnAgain" using Suc[of r1 s1] by blast
    then show ?thesis using advances_trans[OF one r2(1)] True st x by auto
  next
    case False
    moreover have "advances cfg turn (Suc k) r s r1 s1" using one advances_mono by fastforce
    ultimately show ?thesis using st x by (auto split: outcome.split)
  qed
qed

section \<open>Properties of rounds and turns\<close>

text \<open>C2. Every call that reaches the executor in a round of tool calls is a call of the response that
the gate executes and plan mode does not block, in the state the round started in, or a call of the
restricted set of a subagent whose own call the gate executed.\<close>

theorem round_executes_only_permitted:
  assumes "tc \<in> set (se_executed (snd (tool_round cfg env turn calls s)))" "tc \<notin> set (se_executed s)"
  shows "(tc \<in> set calls \<and> \<not> is_subagent_tool (tc_name tc) \<and> \<not> call_blocked cfg s tc \<and>
            gv_action (call_verdict cfg s tc) = GateExecute) \<or>
         (\<exists>p \<in> set calls. is_subagent_tool (tc_name p) \<and> gv_action (call_verdict cfg s p) = GateExecute \<and>
            tc_name tc \<in> set (restricted_for (agent_def_for cfg (tc_input p))))"
  by (rule round_executed[OF assms])

text \<open>C6. A turn always ends: after at most 64 attempts it stops or fails, with at most two
compactions, one by threshold and one forced by an overflow, whatever the provider and the tools do.\<close>

theorem turn_is_bounded:
  "se_attempt (snd (run_turn cfg env turn s)) \<le> se_attempt s + 64 \<and>
   se_compactions (snd (run_turn cfg env turn s)) \<le> se_compactions s + 2 \<and>
   fst (run_turn cfg env turn s) \<noteq> TurnAgain"
proof -
  obtain r' where "advances cfg turn 64 False s r' (snd (run_turn cfg env turn s))" "fst (run_turn cfg env turn s) \<noteq> TurnAgain"
    using turn_loop_advances[of cfg turn 64 False s env] by (auto simp: run_turn_def max_iterations_def)
  moreover have "spare turn False s \<le> 2" by (simp add: spare_def)
  ultimately show ?thesis by (auto simp: advances_def)
qed

text \<open>C16. A turn that starts in plan mode ends in plan mode, and no tool plan mode refuses (mutating by
the catalog, or of the refused list) reaches the executor, but for what the restricted set of a
subagent lists.\<close>

theorem plan_mode_holds_all_turn:
  assumes "plan_mode_on (se_plan s)"
  shows "plan_mode_on (se_plan (snd (run_turn cfg env turn s))) \<and>
    (\<forall>tc \<in> set (se_executed (snd (run_turn cfg env turn s))). tc \<in> set (se_executed s) \<or>
       \<not> (tc_name tc \<in> set plan_mode_extra_refused \<or> is_catalog_mutating (Some (cg_catalog cfg)) (tc_name tc)) \<or>
       (\<exists>inp. tc_name tc \<in> set (restricted_for (agent_def_for cfg inp))))"
  using turn_loop_advances[of cfg turn max_iterations False s env] assms
  unfolding run_turn_def advances_def permitted_def by blast

end
