(* ===== verification/Answers.thy ===== *)
theory Answers
  imports TurnProps
begin

text \<open>
  Every call of a response is answered in the transcript: by its result, or by the record of its
  suspension. The transcript of a session only grows; an answer once written stays.
\<close>

section \<open>The log only grows\<close>

lemma if_both: "P a \<Longrightarrow> P b \<Longrightarrow> P (if c then a else b)"
  by simp

definition grows :: "sess \<Rightarrow> sess \<Rightarrow> bool" where
  "grows s s' = prefix (se_log s) (se_log s')"

lemma grows_refl [simp]: "grows s s" by (simp add: grows_def)

lemma grows_trans [trans]: "grows s t \<Longrightarrow> grows t u \<Longrightarrow> grows s u"
  unfolding grows_def by (rule prefix_order.trans)

lemma grows_same: "se_log s' = se_log s \<Longrightarrow> grows s s'" by (simp add: grows_def)

lemma grows_length: "grows s s' \<Longrightarrow> length (se_log s) \<le> length (se_log s')"
  unfolding grows_def by (rule prefix_length_le)

lemma grows_fold: "(\<And>u x. grows u (f u x)) \<Longrightarrow> grows s (foldl f s xs)"
proof (induction xs arbitrary: s)
  case (Cons x xs)
  have "grows s (f s x)" "grows (f s x) (foldl f (f s x) xs)" using Cons by auto
  then show ?case using grows_trans by auto
qed simp

lemma grows_log: "grows s (log_line env l s)"
  by (simp add: grows_def log_simps)

lemma grows_result: "grows s (append_tool_result_loud env turn call out err s)"
  using append_tool_result_loud_log[of env turn call out err s] by (auto simp: grows_def)

lemma grows_boundary: "grows s (maybe_append_boundary cfg env tool call turn s)"
  using maybe_append_boundary_log[of cfg env tool call turn s] by (auto simp: grows_def)

lemma grows_publish: "grows s (publish e s)"
  by (simp add: grows_def publish_def)

lemma sub_chunks_log: "se_log (snd (sub_chunks turn sr i cs tx calls s)) = se_log s"
proof (induction turn sr i cs tx calls s rule: sub_chunks.induct)
  case (2 turn sr i c cs tx calls s)
  then show ?case by (cases c) (auto simp: publish_def split: option.splits)
qed simp

lemma sub_stream_log: "se_log (snd (sub_stream turn sr s)) = se_log s"
  by (simp add: sub_stream_def sub_chunks_log split: option.split)

lemma execute_restricted_log: "se_log (snd (execute_restricted cfg env bg rs tc s)) = se_log s"
  by (simp add: execute_restricted_def Let_def)

lemma grows_sub_call: "grows s (sub_call cfg env bg rs turn s tc)"
proof -
  obtain r s1 where x: "execute_restricted cfg env bg rs tc s = (r, s1)" by (rule prod.exhaust)
  then have "grows s s1" using execute_restricted_log[of cfg env bg rs tc s] by (simp add: grows_same)
  then have "grows s (log_line env l s1)" for l using grows_log grows_trans by blast
  then have "grows s (append_tool_result_loud env turn call out err (log_line env l s1))" for call out err l
    using grows_result grows_trans by blast
  then show ?thesis by (simp add: sub_call_def x Let_def split: sum.split)
qed

lemma grows_sub_loop: "grows s (snd (sub_loop cfg env bg rs turn prompt k s))"
proof (induction k arbitrary: s)
  case (Suc k)
  let ?sr = "en_sub_stream env (se_sub s) (sub_messages prompt)"
  obtain r s1 where r: "sub_stream turn ?sr (s\<lparr>se_sub := se_sub s + 1\<rparr>) = (r, s1)"
    by (rule prod.exhaust)
  obtain calls tx e where "r = (calls, tx, e)" by (rule prod_cases3)
  with r have st: "sub_stream turn ?sr (s\<lparr>se_sub := se_sub s + 1\<rparr>) = ((calls, tx, e), s1)" by (simp only:)
  then have a: "grows s s1" using sub_stream_log[of turn ?sr "s\<lparr>se_sub := se_sub s + 1\<rparr>"] by (simp add: grows_same)
  have "grows s1 (foldl (sub_call cfg env bg rs turn) s1 calls)" by (rule grows_fold) (rule grows_sub_call)
  with Suc a have "grows s (snd (sub_loop cfg env bg rs turn prompt k (foldl (sub_call cfg env bg rs turn) s1 calls)))"
    using grows_trans by blast
  with st a show ?case by (simp add: Let_def split: option.split)
qed simp

lemma grows_begin: "grows s (snd (begin_dispatch cfg env parent call ad s))"
  by (simp add: begin_dispatch_def Let_def split_beta grows_def log_simps publish_def)

lemma grows_dispatch: "grows s (snd (dispatch_subagent cfg env parent call prompt ad s))"
proof -
  let ?b = "begin_dispatch cfg env parent call ad s"
  let ?r = "sub_run cfg env False (restricted_for ad) (fst ?b) prompt (snd ?b)"
  have "grows (snd ?b) (snd ?r)" unfolding sub_run_def using grows_log grows_sub_loop grows_trans by blast
  then have "grows s (snd ?r)" using grows_begin grows_trans by blast
  then have "grows s (publish e (log_line env l (snd ?r)))" for e l
    using grows_log grows_publish grows_trans by blast
  then show ?thesis by (simp add: dispatch_subagent_def Let_def split_beta)
qed

lemma grows_background: "grows s (snd (dispatch_subagent_background cfg env parent call ad s))"
  using grows_begin by (simp add: dispatch_subagent_background_def Let_def split_beta split: sum.split)

lemma grows_run_batch: "grows s (snd (run_batch cfg env calls s))"
  by (simp add: run_batch_def Let_def grows_def)

lemma grows_enter: "grows s (enter_plan_mode env call turn s)"
  by (simp add: enter_plan_mode_def grows_def log_simps split: option.split)

section \<open>Answers\<close>

definition answered :: "nat \<Rightarrow> string \<Rightarrow> sess \<Rightarrow> bool" where
  \<comment> \<open>after the first \<open>n\<close> lines the log has a result or a suspension of the call\<close>
  "answered n call s =
     (\<exists>l \<in> set (drop n (se_log s)). ln_tool_call l = call \<and> (ln_type l = TypeToolResult \<or> ln_type l = TypeAskSuspended))"

lemma answered_grows: "answered n call s \<Longrightarrow> grows s s' \<Longrightarrow> answered n call s'"
  by (auto simp: answered_def grows_def prefix_def)

lemma answered_result:
  assumes "n \<le> length (se_log s)"
  shows "answered n call (append_tool_result_loud env turn call out err s)"
  using append_tool_result_loud_log[of env turn call out err s] assms by (auto simp: answered_def)

lemma answered_suspended:
  assumes "n \<le> length (se_log s)"
  shows "answered n call (log_line env (ask_suspended_line turn call q ts) s)"
  using assms by (simp add: answered_def log_simps ask_suspended_line_def record_line_def zero_line_def)

lemma suspend_answers:
  assumes "n \<le> length (se_log s)"
  shows "answered n (pp_call pp) (suspend_for_permission cfg env turn pp s) \<and> grows s (suspend_for_permission cfg env turn pp s)"
proof (cases "cg_gate cfg = None \<or> se_queue s = None")
  case True
  then have "suspend_for_permission cfg env turn pp s = append_tool_result_loud env turn (pp_call pp)
      (permission_decline_form (pp_tool pp) ''the ask queue is not wired'') True s"
    by (auto simp: suspend_for_permission_def split: option.split)
  then show ?thesis using answered_result[OF assms] grows_result by simp
next
  case False
  then show ?thesis
    using assms by (auto simp: suspend_for_permission_def Let_def answered_def grows_def log_simps
        ask_suspended_line_def record_line_def zero_line_def)
qed

lemma suspends_answer:
  assumes "n \<le> length (se_log s)"
  shows "(\<forall>pp \<in> set gs. answered n (pp_call pp) (foldl (\<lambda>u pp. suspend_for_permission cfg env turn pp u) s gs)) \<and>
    grows s (foldl (\<lambda>u pp. suspend_for_permission cfg env turn pp u) s gs)"
  using assms
proof (induction gs arbitrary: s)
  case (Cons g gs)
  let ?s1 = "suspend_for_permission cfg env turn g s"
  have a: "answered n (pp_call g) ?s1" "grows s ?s1" using suspend_answers[OF Cons.prems] by blast+
  have "n \<le> length (se_log ?s1)" using a(2) grows_length Cons.prems le_trans by blast
  from Cons.IH[OF this] show ?case using a answered_grows grows_trans by auto
qed simp

lemma suspend_ask_answers:
  assumes "n \<le> length (se_log s)"
  shows "answered n call (suspend_for_ask env turn call out tool b s) \<and> grows s (suspend_for_ask env turn call out tool b s)"
  using assms by (auto simp: suspend_for_ask_def Let_def answered_def grows_def log_simps
      ask_suspended_line_def record_line_def zero_line_def)

section \<open>A round answers its calls\<close>

lemma subagent_call_answers:
  assumes "n \<le> length (se_log s)"
  shows "answered n (tool_call_id tc) (subagent_call cfg env turn tc s) \<and> grows s (subagent_call cfg env turn tc s)"
proof -
  have fin: "answered n (tool_call_id tc) (maybe_append_boundary cfg env (tc_name tc) (tool_call_id tc) turn
       (append_tool_result_loud env turn (tool_call_id tc) out err s1)) \<and>
     grows s (maybe_append_boundary cfg env (tc_name tc) (tool_call_id tc) turn
       (append_tool_result_loud env turn (tool_call_id tc) out err s1))" if "grows s s1" for out err s1
  proof -
    have "n \<le> length (se_log s1)" using grows_length[OF that] assms by simp
    have "answered n (tool_call_id tc) (append_tool_result_loud env turn (tool_call_id tc) out err s1)"
      by (rule answered_result) fact
    then show ?thesis
      using answered_grows[OF _ grows_boundary] grows_trans[OF grows_trans[OF that grows_result] grows_boundary] by blast
  qed
  let ?ad = "agent_def_for cfg (tc_input tc)"
  obtain r1 s1 where b: "dispatch_subagent_background cfg env turn (tool_call_id tc) ?ad s = (r1, s1)"
    by (rule prod.exhaust)
  obtain q s2 where d: "dispatch_subagent cfg env turn (tc_name tc) (extract_subagent_prompt (tc_input tc)) ?ad s = (q, s2)"
    by (rule prod.exhaust)
  obtain res e where q: "q = (res, e)" by (rule prod.exhaust)
  have "grows s s1" "grows s s2"
    using grows_background[of s cfg env turn "tool_call_id tc" ?ad] b
      grows_dispatch[of s cfg env turn "tc_name tc" "extract_subagent_prompt (tc_input tc)" ?ad] d by simp_all
  with b d q fin show ?thesis
    by (cases r1; cases e) (simp_all add: subagent_call_def Let_def)
qed

definition covered :: "nat \<Rightarrow> routed \<Rightarrow> tool_call_msg \<Rightarrow> bool" where
  "covered n r tc =
     (answered n (tool_call_id tc) (ro_sess r) \<or> tc \<in> set (ro_batch r) \<or> tool_call_id tc \<in> pp_call ` set (ro_gates r))"

definition routed_grows :: "routed \<Rightarrow> routed \<Rightarrow> bool" where
  "routed_grows r r' = (grows (ro_sess r) (ro_sess r') \<and> set (ro_batch r) \<subseteq> set (ro_batch r') \<and> set (ro_gates r) \<subseteq> set (ro_gates r'))"

lemma covered_grows: "covered n r tc \<Longrightarrow> routed_grows r r' \<Longrightarrow> covered n r' tc"
  using answered_grows by (auto simp: covered_def routed_grows_def)

lemma gate_refused_covers:
  assumes "n \<le> length (se_log (ro_sess r))"
  shows "covered n (gate_refused cfg env turn r tc) tc \<and> routed_grows r (gate_refused cfg env turn r tc)"
  using answered_result[OF assms] grows_result by (auto simp: gate_refused_def covered_def routed_grows_def Let_def)

lemma route_call_covers:
  assumes "n \<le> length (se_log (ro_sess r))"
  shows "covered n (route_call cfg env turn r tc) tc \<and> routed_grows r (route_call cfg env turn r tc)"
  using gate_refused_covers[OF assms] subagent_call_answers[OF assms] answered_result[OF assms] grows_result
  by (simp add: route_call_def Let_def) (auto simp: covered_def routed_grows_def)

lemma route_fold_covers:
  assumes "n \<le> length (se_log (ro_sess r))"
  shows "(\<forall>tc \<in> set calls. covered n (foldl (route_call cfg env turn) r calls) tc) \<and>
    routed_grows r (foldl (route_call cfg env turn) r calls)"
  using assms
proof (induction calls arbitrary: r)
  case (Cons c calls)
  let ?r1 = "route_call cfg env turn r c"
  have a: "covered n ?r1 c" "routed_grows r ?r1" using route_call_covers[OF Cons.prems] by blast+
  have "n \<le> length (se_log (ro_sess ?r1))"
    using a(2) grows_length Cons.prems le_trans unfolding routed_grows_def by blast
  from Cons.IH[OF this] a show ?case
    using covered_grows grows_trans by (auto simp: routed_grows_def)
qed (simp add: routed_grows_def)

lemma route_calls_covers:
  "(\<forall>tc \<in> set calls. covered (length (se_log s)) (route_calls cfg env turn calls s) tc) \<and>
   grows s (ro_sess (route_calls cfg env turn calls s))"
proof -
  have g: "grows s (record_calls env turn calls s)"
    unfolding record_calls_def by (rule grows_fold) (rule grows_log)
  then have "length (se_log s) \<le> length (se_log (record_calls env turn calls s))" by (rule grows_length)
  then show ?thesis
    using route_fold_covers[of "length (se_log s)" "\<lparr>ro_sess = record_calls env turn calls s, ro_batch = [], ro_gates = []\<rparr>" calls cfg env turn]
      g grows_trans unfolding route_calls_def routed_grows_def by fastforce
qed

definition suspends :: "tool_result \<Rightarrow> bool" where
  "suspends res = (tr_err res = Some ErrSuspended)"

definition result_key :: "string list \<Rightarrow> tool_result \<Rightarrow> string" where
  "result_key ids res = (if tr_index res < length ids then ids ! tr_index res else tr_name res)"

lemma apply_result_unsuspended:
  "\<not> suspends res \<Longrightarrow> apply_result cfg env turn ids st res =
     (let u = maybe_append_boundary cfg env (tr_name res) (result_key ids res) turn
                (append_tool_result_loud env turn (result_key ids res)
                  (bounded_tool_result tool_result_cap (tr_output res)) (tr_is_error res) (fst st))
      in (if tr_name res = ''EnterPlanMode'' \<and> \<not> tr_is_error res then enter_plan_mode env (result_key ids res) turn u else u,
          snd st))"
  by (simp add: apply_result_def split_beta Let_def result_key_def suspends_def)

lemma apply_result_answers:
  assumes "n \<le> length (se_log (fst st))"
  shows "grows (fst st) (fst (apply_result cfg env turn ids st res)) \<and>
    (suspends res \<or> answered n (result_key ids res) (fst (apply_result cfg env turn ids st res))) \<and>
    snd (apply_result cfg env turn ids st res) =
      (if suspends res then Some (result_key ids res, tr_output res, tr_name res) else snd st)"
proof (cases "suspends res")
  case False
  let ?a = "append_tool_result_loud env turn (result_key ids res) (bounded_tool_result tool_result_cap (tr_output res))
       (tr_is_error res) (fst st)"
  let ?b = "maybe_append_boundary cfg env (tr_name res) (result_key ids res) turn ?a"
  have a: "answered n (result_key ids res) ?a" by (rule answered_result[OF assms])
  have b: "answered n (result_key ids res) ?b" "grows (fst st) ?b"
    by (rule answered_grows[OF a grows_boundary], rule grows_trans[OF grows_result grows_boundary])
  have e: "answered n (result_key ids res) (enter_plan_mode env c turn ?b)" "grows (fst st) (enter_plan_mode env c turn ?b)" for c
    by (rule answered_grows[OF b(1) grows_enter], rule grows_trans[OF b(2) grows_enter])
  let ?u = "if tr_name res = ''EnterPlanMode'' \<and> \<not> tr_is_error res then enter_plan_mode env (result_key ids res) turn ?b else ?b"
  have u: "apply_result cfg env turn ids st res = (?u, snd st)"
    by (simp only: apply_result_unsuspended[OF False] Let_def)
  have "answered n (result_key ids res) ?u \<and> grows (fst st) ?u"
    by (rule if_both) (use b e in blast)+
  then show ?thesis unfolding u using False by simp
qed (simp add: apply_result_def split_beta Let_def result_key_def suspends_def)

lemma apply_results_answer:
  assumes "n \<le> length (se_log (fst st))"
  shows "grows (fst st) (fst (foldl (apply_result cfg env turn ids) st rs)) \<and>
    (\<forall>res \<in> set rs. suspends res \<or> answered n (result_key ids res) (fst (foldl (apply_result cfg env turn ids) st rs))) \<and>
    snd (foldl (apply_result cfg env turn ids) st rs) =
      (case filter suspends rs of [] \<Rightarrow> snd st
       | _ \<Rightarrow> (let l = last (filter suspends rs) in Some (result_key ids l, tr_output l, tr_name l)))"
  using assms
proof (induction rs arbitrary: st)
  case (Cons x rs)
  let ?t = "apply_result cfg env turn ids st x"
  note one = apply_result_answers[OF Cons.prems, of cfg env turn ids x]
  have "n \<le> length (se_log (fst ?t))" using one grows_length Cons.prems le_trans by blast
  note ih = Cons.IH[OF this]
  have "grows (fst st) (fst (foldl (apply_result cfg env turn ids) ?t rs))" using one ih grows_trans by blast
  moreover have "suspends x \<or> answered n (result_key ids x) (fst (foldl (apply_result cfg env turn ids) ?t rs))"
    using one ih answered_grows by blast
  ultimately show ?case using one ih by (auto simp: Let_def split: list.split)
qed simp

definition round_suspensions :: "session_cfg \<Rightarrow> turn_env \<Rightarrow> string \<Rightarrow> tool_call_msg list \<Rightarrow> sess \<Rightarrow> tool_result list" where
  \<comment> \<open>the results of the round's batch that are suspensions\<close>
  "round_suspensions cfg env turn calls s =
     (let r = route_calls cfg env turn calls s in filter suspends (fst (run_batch cfg env (ro_batch r) (ro_sess r))))"

lemma run_batch_results:
  "length (fst (run_batch cfg env calls s)) = length calls \<and>
   (\<forall>i < length calls. tr_index (fst (run_batch cfg env calls s) ! i) = i)"
proof -
  have "tr_index (execute_bounded e c i x) = i" for e c i x
    by (auto simp: execute_bounded_def execute_one_def Let_def split: option.splits)
  then show ?thesis by (simp add: run_batch_def Let_def dispatch_batch_def cancelled_result_def)
qed

lemma only_suspension:
  assumes "x \<in> set xs" "P x" "length (filter P xs) \<le> 1"
  shows "filter P xs = [x]"
proof -
  have "x \<in> set (filter P xs)" using assms by simp
  then show ?thesis using assms(3) by (cases "filter P xs") auto
qed

lemma round_answers:
  assumes ids: "\<forall>tc \<in> set calls. tool_call_id tc \<noteq> []"
    and one: "length (round_suspensions cfg env turn calls s) \<le> 1"
    and sep: "ro_gates (route_calls cfg env turn calls s) = [] \<or> round_suspensions cfg env turn calls s = []"
    and tc: "tc \<in> set calls"
  shows "answered (length (se_log s)) (tool_call_id tc) (snd (tool_round cfg env turn calls s))"
proof -
  let ?n = "length (se_log s)" and ?r = "route_calls cfg env turn calls s"
  let ?ids = "map tool_call_id (ro_batch ?r)"
  obtain rs s2 where b: "run_batch cfg env (ro_batch ?r) (ro_sess ?r) = (rs, s2)" by (rule prod.exhaust)
  obtain s3 slot where a: "foldl (apply_result cfg env turn ?ids) (s2, None) rs = (s3, slot)" by (rule prod.exhaust)
  let ?s4 = "foldl (\<lambda>u pp. suspend_for_permission cfg env turn pp u) s3 (ro_gates ?r)"
  let ?s' = "snd (tool_round cfg env turn calls s)"
  have g: "grows s (ro_sess ?r)" using route_calls_covers by blast
  have g2: "grows s s2" using grows_run_batch[of "ro_sess ?r" cfg env "ro_batch ?r"] b g grows_trans by auto
  have n2: "?n \<le> length (se_log (fst (s2, None :: (string \<times> raw_message \<times> string) option)))" using g2 grows_length by simp
  note ap = apply_results_answer[OF n2, of cfg env turn ?ids rs, unfolded a fst_conv snd_conv]
  have g3: "grows s s3" using ap g2 grows_trans by blast
  have n3: "?n \<le> length (se_log s3)" using g3 grows_length by blast
  note su = suspends_answer[OF n3, where gs = "ro_gates ?r" and cfg = cfg and env = env and turn = turn]
  have n4: "?n \<le> length (se_log ?s4)" using su g3 grows_trans grows_length by blast
  have g4: "grows ?s4 ?s'"
    using b a suspend_ask_answers[OF n4] grows_result by (auto simp: tool_round_def Let_def split: option.split)
  have g23: "grows s2 s3" using ap by (simp only: fst_conv)
  have up: "answered ?n c ?s'" if "answered ?n c s3" for c
    by (rule answered_grows[OF answered_grows[OF that conjunct2[OF su]] g4])
  have "covered ?n ?r tc" using route_calls_covers tc by blast
  then consider (routed) "answered ?n (tool_call_id tc) (ro_sess ?r)" | (batch) "tc \<in> set (ro_batch ?r)"
    | (gated) "tool_call_id tc \<in> pp_call ` set (ro_gates ?r)" by (auto simp: covered_def)
  then show ?thesis
  proof cases
    case routed
    have "grows (ro_sess ?r) s2" using grows_run_batch[of "ro_sess ?r" cfg env "ro_batch ?r"] b by simp
    from up[OF answered_grows[OF answered_grows[OF routed this] g23]] show ?thesis .
  next
    case gated
    then obtain pp where pp: "pp \<in> set (ro_gates ?r)" "tool_call_id tc = pp_call pp" by blast
    then show ?thesis using answered_grows[OF bspec[OF conjunct1[OF su] pp(1)] g4] by simp
  next
    case batch
    then obtain i where i: "i < length (ro_batch ?r)" "ro_batch ?r ! i = tc" by (auto simp: in_set_conv_nth)
    have len: "length rs = length (ro_batch ?r)" "tr_index (rs ! i) = i"
      using run_batch_results[of cfg env "ro_batch ?r" "ro_sess ?r"] b i by auto
    then have key: "result_key ?ids (rs ! i) = tool_call_id tc" and mem: "rs ! i \<in> set rs"
      using i by (simp_all add: result_key_def)
    show ?thesis
    proof (cases "suspends (rs ! i)")
      case False
      then have "answered ?n (tool_call_id tc) s3" using ap mem key by metis
      then show ?thesis by (rule up)
    next
      case True
      have rsus: "round_suspensions cfg env turn calls s = filter suspends rs"
        by (simp add: round_suspensions_def Let_def b)
      have f: "filter suspends rs = [rs ! i]" using only_suspension[of "rs ! i" rs suspends] mem True one rsus by simp
      then have ng: "ro_gates ?r = []" using sep rsus by simp
      have slot: "slot = Some (tool_call_id tc, tr_output (rs ! i), tr_name (rs ! i))"
        using ap f key by (simp add: Let_def)
      have "tool_call_id tc \<noteq> []" using ids tc by blast
      then have "?s' = (case se_broker s3 of
            Some bb \<Rightarrow> suspend_for_ask env turn (tool_call_id tc) (tr_output (rs ! i)) (tr_name (rs ! i)) bb s3
          | None \<Rightarrow> append_tool_result_loud env turn (tool_call_id tc) ask_dropped True s3)"
        using b a slot ng by (simp add: tool_round_def Let_def split: option.split)
      then show ?thesis
        using suspend_ask_answers[OF n3] answered_result[OF n3] by (simp split: option.split)
    qed
  qed
qed

section \<open>Landing a dialog's outcome\<close>

lemma gated_call_keeps:
  "grows s (snd (execute_gated_call cfg env p s)) \<and> core (snd (execute_gated_call cfg env p s)) = core s"
proof -
  let ?ad = "agent_def_for cfg (pa_input p)" and ?c = "\<lparr>tc_id = pa_call p, tc_name = pa_tool p, tc_input = pa_input p\<rparr>"
  obtain q s2 where d: "dispatch_subagent cfg env (pa_turn p) (pa_call p) (extract_subagent_prompt (pa_input p)) ?ad s = (q, s2)"
    by (rule prod.exhaust)
  obtain res e where q: "q = (res, e)" by (rule prod.exhaust)
  obtain rs s1 where b: "run_batch cfg env [?c] s = (rs, s1)" by (rule prod.exhaust)
  have "grows s s2" "core s2 = core s"
    using grows_dispatch[of s cfg env "pa_turn p" "pa_call p" "extract_subagent_prompt (pa_input p)" ?ad] dispatched[OF d] d by auto
  moreover have "grows s s1" "core s1 = core s"
    using grows_run_batch[of s cfg env "[?c]"] run_batch_core[of cfg env "[?c]" s] b by simp_all
  ultimately show ?thesis using d q b by (cases e; cases rs) (simp_all add: execute_gated_call_def)
qed

lemma landing_after:
  assumes "grows s s1"
  shows "answered (length (se_log s)) call (append_tool_result_loud env turn call out err s1)"
  by (rule answered_result) (rule grows_length[OF assms])

lemma permission_lands:
  "answered (length (se_log s)) (pa_call p) (land_permission cfg env show_err p out s) \<and>
   (se_executed (land_permission cfg env show_err p out s) \<noteq> se_executed s \<longrightarrow>
      ao_err out = None \<and> \<not> ao_cancelled out \<and> ao_selected out \<in> {''allow_once'', ''allow_always''})"
proof -
  obtain run ran where x: "execute_gated_call cfg env p s = (run, ran)" by (rule prod.exhaust)
  obtain tri eff where o1: "resolve_permission_outcome show_err run p out = (tri, eff)" by (rule prod.exhaust)
  obtain result is_err executed where tri: "tri = (result, is_err, executed)" by (rule prod_cases3)
  let ?s1 = "if ExecuteCall \<in> set eff then ran else if MarkDegraded \<in> set eff then s\<lparr>se_degraded := True\<rparr> else s"
  let ?s2 = "append_tool_result_loud env (pa_turn p) (pa_call p) result is_err ?s1"
  have "grows s ?s1" using gated_call_keeps[of s cfg env p] x by (simp add: grows_def)
  then have a2: "answered (length (se_log s)) (pa_call p) ?s2" by (rule landing_after)
  let ?s3 = "maybe_append_boundary cfg env (pa_tool p) (pa_call p) (pa_turn p) ?s2"
  have land: "land_permission cfg env show_err p out s =
      (if executed then if pa_tool p = ''EnterPlanMode'' then enter_plan_mode env (pa_call p) (pa_turn p) ?s3 else ?s3 else ?s2)"
    by (simp add: land_permission_def x o1 tri Let_def)
  have "answered (length (se_log s)) (pa_call p) (land_permission cfg env show_err p out s)"
    unfolding land using answered_grows[OF answered_grows[OF a2 grows_boundary] grows_enter]
      answered_grows[OF a2 grows_boundary] a2 by presburger
  moreover have "se_executed (land_permission cfg env show_err p out s) = se_executed ?s1"
    unfolding land using calm_enter by (simp add: exec_simps calm_def)
  moreover have "ExecuteCall \<in> set eff \<longrightarrow>
      ao_err out = None \<and> \<not> ao_cancelled out \<and> ao_selected out \<in> {''allow_once'', ''allow_always''}"
    using o1 tri by (auto simp: resolve_permission_outcome_def split: option.splits if_splits)
  ultimately show ?thesis by (auto split: if_splits)
qed

section \<open>Ungated rounds\<close>

lemma ungated_route:
  assumes "cg_gate cfg = None" "\<not> plan_mode_on (se_plan (ro_sess r))" "\<forall>tc \<in> set calls. \<not> is_subagent_tool (tc_name tc)"
  shows "foldl (route_call cfg env turn) r calls = r\<lparr>ro_batch := ro_batch r @ calls\<rparr>"
  using assms
proof (induction calls arbitrary: r)
  case (Cons c calls)
  then have "route_call cfg env turn r c = r\<lparr>ro_batch := ro_batch r @ [c]\<rparr>"
    by (simp add: route_call_def call_verdict_def gate_call_def call_blocked_def plan_mode_blocks_def)
  with Cons show ?case by simp
qed simp

lemma ungated_routes:
  assumes "cg_gate cfg = None" "\<not> plan_mode_on (se_plan s)" "\<forall>tc \<in> set calls. \<not> is_subagent_tool (tc_name tc)"
  shows "route_calls cfg env turn calls s = \<lparr>ro_sess = record_calls env turn calls s, ro_batch = calls, ro_gates = []\<rparr>"
proof -
  have "core (record_calls env turn calls s) = core s" by (rule record_calls_core)
  then have "\<not> plan_mode_on (se_plan (record_calls env turn calls s))" using assms(2) core_fields by metis
  then show ?thesis using ungated_route[OF assms(1) _ assms(3)] by (simp add: route_calls_def)
qed

lemma record_calls_log:
  "se_log (record_calls env turn calls s) =
     se_log s @ map (\<lambda>tc. tool_call_line turn (tool_call_id tc) (tc_name tc) (tc_input tc) (en_now env)) calls"
  unfolding record_calls_def by (induction calls arbitrary: s) (simp_all add: log_simps)

lemma apply_suspended:
  "\<forall>res \<in> set rs. suspends res \<Longrightarrow> rs \<noteq> [] \<Longrightarrow> foldl (apply_result cfg env turn ids) (s, slot) rs =
     (s, Some (result_key ids (last rs), tr_output (last rs), tr_name (last rs)))"
proof (induction rs arbitrary: slot)
  case (Cons x rs)
  then have "apply_result cfg env turn ids (s, slot) x = (s, Some (result_key ids x, tr_output x, tr_name x))"
    by (simp add: apply_result_def Let_def result_key_def suspends_def)
  with Cons show ?case by (cases "rs = []") simp_all
qed simp

lemma suspend_ask_log:
  "\<exists>q x. se_log (suspend_for_ask env turn call out tool b s) =
     se_log s @ [ask_suspended_line turn call q (en_now env), parked_ask_line turn x (en_now env)]"
  by (auto simp: suspend_for_ask_def Let_def log_simps)

lemmas line_kinds =
  tool_call_line_def ask_suspended_line_def parked_ask_line_def record_line_def zero_line_def

definition all_suspend :: "turn_env \<Rightarrow> bool" where
  \<comment> \<open>every call is alive and its executor suspends it\<close>
  "all_suspend env =
     (\<forall>n i. \<not> en_exec_dead env n i \<and>
        (\<exists>f. en_exec env n i = Some f \<and> (\<forall>name inp. xo_err (f name inp) = Some ErrSuspended)))"

lemma all_suspend_batch:
  assumes "all_suspend env" "cg_exec_wired cfg"
  shows "(\<forall>res \<in> set (fst (run_batch cfg env calls s)). suspends res) \<and>
    se_log (snd (run_batch cfg env calls s)) = se_log s \<and> se_broker (snd (run_batch cfg env calls s)) = se_broker s"
proof -
  have "suspends (execute_bounded (en_exec env n i) c i x)" for n i c x
  proof -
    obtain f where "en_exec env n i = Some f" "\<forall>name inp. xo_err (f name inp) = Some ErrSuspended"
      using assms(1) unfolding all_suspend_def by blast
    then show ?thesis by (simp add: suspends_def execute_bounded_def execute_one_def Let_def)
  qed
  then show ?thesis using assms by (auto simp: run_batch_def Let_def dispatch_batch_def all_suspend_def)
qed

lemma last_question:
  assumes "cg_gate cfg = None" "\<not> plan_mode_on (se_plan s)" "\<forall>tc \<in> set calls. \<not> is_subagent_tool (tc_name tc)"
    and "all_suspend env" "cg_exec_wired cfg" "se_broker s = Some b" "calls \<noteq> []" "tool_call_id (last calls) \<noteq> []"
  shows "fst (tool_round cfg env turn calls s) = TurnStop ''ask'' \<and>
    (\<exists>q x. se_log (snd (tool_round cfg env turn calls s)) = se_log s @
        map (\<lambda>tc. tool_call_line turn (tool_call_id tc) (tc_name tc) (tc_input tc) (en_now env)) calls @
        [ask_suspended_line turn (tool_call_id (last calls)) q (en_now env), parked_ask_line turn x (en_now env)])"
proof -
  let ?u = "record_calls env turn calls s"
  obtain rs s2 where b: "run_batch cfg env calls ?u = (rs, s2)" by (rule prod.exhaust)
  have rs: "\<forall>res \<in> set rs. suspends res" "se_log s2 = se_log ?u" "se_broker s2 = se_broker ?u"
    using all_suspend_batch[OF assms(4,5), of calls ?u] b by simp_all
  have len: "length rs = length calls" "\<forall>i < length calls. tr_index (rs ! i) = i"
    using run_batch_results[of cfg env calls ?u] b by simp_all
  then have ne: "rs \<noteq> []" using assms(7) by auto
  have key: "result_key (map tool_call_id calls) (last rs) = tool_call_id (last calls)"
    using len assms(7) ne by (simp add: result_key_def last_conv_nth)
  have "core ?u = core s" by (rule record_calls_core)
  then have br: "se_broker s2 = Some b" using rs(3) assms(6) core_fields by metis
  have t: "tool_round cfg env turn calls s = (TurnStop ''ask'',
      suspend_for_ask env turn (tool_call_id (last calls)) (tr_output (last rs)) (tr_name (last rs)) b s2)"
    using assms(8) br by (simp add: tool_round_def ungated_routes[OF assms(1-3)] b apply_suspended[OF rs(1) ne] key)
  show ?thesis
    using suspend_ask_log[of env turn "tool_call_id (last calls)" "tr_output (last rs)" "tr_name (last rs)" b s2]
    by (simp add: t rs(2) record_calls_log)
qed

section \<open>Properties\<close>


definition sample_exec :: "exec_err option \<Rightarrow> nat \<Rightarrow> executors" where
  "sample_exec e n i = Some (\<lambda>name inp. \<lparr>xo_output = None, xo_err = e, xo_deadline = False\<rparr>)"

definition sample_stream :: "nat \<Rightarrow> message list \<Rightarrow> stream_run" where
  "sample_stream n ms = \<lparr>sr_open = None, sr_chunks = [DoneChunk ''end_turn''], sr_dead = None\<rparr>"

lemma sample_facts:
  "cg_gate sample_cfg = None" "\<not> plan_mode_on (se_plan sample_sess)"
  "\<forall>tc \<in> set sample_calls. \<not> is_subagent_tool (tc_name tc) \<and> tool_call_id tc \<noteq> []"
  "cg_exec_wired sample_cfg" "se_broker sample_sess = Some (new_ask_broker 0)" "sample_calls \<noteq> []"
  "tool_call_id (last sample_calls) = ''2''" "se_log sample_sess = []" "all_suspend (sample_env st (sample_exec (Some ErrSuspended)))"
  by (simp_all add: sample_cfg_def sample_sess_def sample_calls_def is_subagent_tool_def tool_call_id_def
      plan_mode_on_def all_suspend_def sample_env_def sample_exec_def)


text \<open>When several calls of one response suspend, only the last one is put and recorded: the
others get neither a result nor a suspension, although their calls are in the transcript.\<close>

theorem only_last_question_is_put:
  assumes "cg_gate cfg = None" "\<not> plan_mode_on (se_plan s)" "\<forall>tc \<in> set calls. \<not> is_subagent_tool (tc_name tc)"
    and "all_suspend env" "cg_exec_wired cfg" "se_broker s = Some b" "calls \<noteq> []" "tool_call_id (last calls) \<noteq> []"
  shows "fst (tool_round cfg env turn calls s) = TurnStop ''ask'' \<and>
    (\<forall>tc \<in> set calls. answered (length (se_log s)) (tool_call_id tc) (snd (tool_round cfg env turn calls s)) \<longleftrightarrow>
       tool_call_id tc = tool_call_id (last calls))"
  using last_question[OF assms, of turn] by (auto simp: answered_def line_kinds)

theorem only_last_question_is_put_witness:
  "\<not> answered 0 ''1'' (snd (tool_round sample_cfg (sample_env sample_stream (sample_exec (Some ErrSuspended))) ''t''
     sample_calls sample_sess))"
proof -
  let ?env = "sample_env sample_stream (sample_exec (Some ErrSuspended))"
  have "\<forall>tc \<in> set sample_calls. answered (length (se_log sample_sess)) (tool_call_id tc)
        (snd (tool_round sample_cfg ?env ''t'' sample_calls sample_sess)) \<longleftrightarrow>
      tool_call_id tc = tool_call_id (last sample_calls)"
    by (rule only_last_question_is_put[THEN conjunct2]) (use sample_facts in \<open>auto\<close>)
  then show ?thesis by (simp add: sample_facts(7,8)) (simp add: sample_calls_def tool_call_id_def)
qed


lemma allowed_call_runs:
  assumes "\<not> is_subagent_tool (pa_tool p)" "\<And>n i. \<not> en_exec_dead env n i" "ao_err out = None" "\<not> ao_cancelled out"
    "ao_selected out = ''allow_once''"
  shows "se_executed (land_permission cfg env show_err p out s) =
    se_executed s @ [\<lparr>tc_id = pa_call p, tc_name = pa_tool p, tc_input = pa_input p\<rparr>]"
proof -
  let ?c = "\<lparr>tc_id = pa_call p, tc_name = pa_tool p, tc_input = pa_input p\<rparr>"
  obtain run ran where x: "execute_gated_call cfg env p s = (run, ran)" by (rule prod.exhaust)
  have "se_executed ran = se_executed s @ [?c]"
    using x assms(1,2) by (auto simp: execute_gated_call_def run_batch_def Let_def)
  moreover have "se_executed (land_permission cfg env show_err p out s) = se_executed ran"
    using assms(3-5) calm_enter by (simp add: land_permission_def x resolve_permission_outcome_def Let_def exec_simps calm_def)
  ultimately show ?thesis by simp
qed


text \<open>Plan mode is not asked again when a dialog is answered: the allowed call runs whatever
plan mode has become while the dialog was open.\<close>

lemma allowed_call_ignores_plan_mode:
  assumes "\<And>n i. \<not> en_exec_dead env n i"
  shows "\<exists>tc \<in> set (se_executed (land_permission cfg env show_err (question\<lparr>pa_tool := ''Write''\<rparr>)
      (zero_outcome\<lparr>ao_selected := ''allow_once''\<rparr>) (s\<lparr>se_plan := Some p, se_executed := []\<rparr>))). tc_name tc = ''Write''"
proof -
  have "se_executed (land_permission cfg env show_err (question\<lparr>pa_tool := ''Write''\<rparr>)
      (zero_outcome\<lparr>ao_selected := ''allow_once''\<rparr>) (s\<lparr>se_plan := Some p, se_executed := []\<rparr>)) =
    [] @ [\<lparr>tc_id = pa_call (question\<lparr>pa_tool := ''Write''\<rparr>), tc_name = ''Write'', tc_input = pa_input (question\<lparr>pa_tool := ''Write''\<rparr>)\<rparr>]"
    using allowed_call_runs[of "question\<lparr>pa_tool := ''Write''\<rparr>" env "zero_outcome\<lparr>ao_selected := ''allow_once''\<rparr>" cfg show_err
      "s\<lparr>se_plan := Some p, se_executed := []\<rparr>"] assms by (simp add: is_subagent_tool_def zero_outcome_def)
  then show ?thesis by simp
qed

text \<open>In gated mode a question of the ask class can never be put: it opens a permission dialog
first, and when the operator allows it the executor's suspension lands as an error result, with no
question pending and plan mode unchanged.\<close>

theorem gated_question_never_put:
  assumes "gate_ask_class (Some (cg_catalog cfg)) (pa_tool p)" "gd_rules d = None" "gd_hook d = None"
    "gate_mode d = PermModeGated" "all_suspend env" "cg_exec_wired cfg" "\<not> is_subagent_tool (pa_tool p)"
    "pa_tool p \<noteq> ''EnterPlanMode''" "ao_err out = None" "\<not> ao_cancelled out" "ao_selected out = ''allow_once''"
  shows "gv_action (gate_call (Some d) (Some (cg_catalog cfg)) False False (pa_tool p) (pa_input p)) = GateSuspend \<and>
    core (land_permission cfg env show_err p out s) = core s \<and>
    (\<exists>l \<in> set (drop (length (se_log s)) (se_log (land_permission cfg env show_err p out s))).
       ln_type l = TypeToolResult \<and> ln_tool_call l = pa_call p \<and> ln_is_error l)"
proof -
  let ?c = "\<lparr>tc_id = pa_call p, tc_name = pa_tool p, tc_input = pa_input p\<rparr>"
  obtain f where f: "en_exec env (length (se_log s)) 0 = Some f" "\<forall>name inp. xo_err (f name inp) = Some ErrSuspended"
    and alive: "\<And>n i. \<not> en_exec_dead env n i"
    using assms(5) unfolding all_suspend_def by blast
  obtain run ran where x: "execute_gated_call cfg env p s = (run, ran)" by (rule prod.exhaust)
  have ran: "snd run" "core ran = core s" "se_log ran = se_log s"
    using x f alive assms(6,7) by (auto simp: execute_gated_call_def run_batch_def Let_def dispatch_batch_def core_simps
        execute_bounded_def execute_one_def)
  have land: "land_permission cfg env show_err p out s =
      append_tool_result_loud env (pa_turn p) (pa_call p) (fst run) True ran"
    using assms(9-11) ran(1) by (simp add: land_permission_def x resolve_permission_outcome_def)
  have "gv_action (gate_call (Some d) (Some (cg_catalog cfg)) False False (pa_tool p) (pa_input p)) = GateSuspend"
    using assms(1-4) by (simp add: gate_call_def gate_hook_verdict_def rule_step_def ask_path_def)
  moreover have "core (land_permission cfg env show_err p out s) = core s" by (simp add: land core_simps ran(2))
  moreover have "\<exists>l \<in> set (drop (length (se_log s)) (se_log (land_permission cfg env show_err p out s))).
       ln_type l = TypeToolResult \<and> ln_tool_call l = pa_call p \<and> ln_is_error l"
    unfolding land append_tool_result_loud_def
    by (auto simp: log_simps ran(3) tool_result_line_def record_line_def zero_line_def
        split: prod.splits option.splits dest!: log_line_err_simps)
  ultimately show ?thesis by blast
qed

theorem gated_question_never_put_witness:
  "\<exists>cfg. se_broker (land_permission cfg (sample_env sample_stream (sample_exec (Some ErrSuspended))) (\<lambda>e. [])
     (question\<lparr>pa_tool := ''ExitPlanMode''\<rparr>) (zero_outcome\<lparr>ao_selected := ''allow_once''\<rparr>) sample_sess) = Some (new_ask_broker 0)"
proof -
  let ?env = "sample_env sample_stream (sample_exec (Some ErrSuspended))" and ?p = "question\<lparr>pa_tool := ''ExitPlanMode''\<rparr>"
  let ?o = "zero_outcome\<lparr>ao_selected := ''allow_once''\<rparr>"
  let ?cfg = "sample_cfg\<lparr>cg_catalog := [(''ExitPlanMode'', \<lparr>tl_name = ''ExitPlanMode'', tl_description = [], tl_schema = None,
     tl_mutability = ReadOnly, tl_timeout = 120000, tl_safe = Some False, tl_destructive = False\<rparr>)]\<rparr>"
  let ?d = "\<lparr>gd_hook = None, gd_rules = None, gd_mode = Some PermModeGated, gd_subject = None\<rparr>"
  have "core (land_permission ?cfg ?env (\<lambda>e. []) ?p ?o sample_sess) = core sample_sess"
  proof (rule gated_question_never_put[where d = ?d, THEN conjunct2, THEN conjunct1])
    show "gate_ask_class (Some (cg_catalog ?cfg)) (pa_tool ?p)"
      by (simp add: gate_ask_class_def cat_get_def is_mutating_def is_concurrency_safe_def)
    show "all_suspend ?env" by (rule sample_facts(9))
    show "cg_exec_wired ?cfg" using sample_facts(4) by simp
  qed (simp_all add: gate_mode_def is_subagent_tool_def zero_outcome_def)
  from core_fields[OF this] sample_facts(5) show ?thesis by (intro exI[of _ ?cfg]) (simp only:)
qed

section \<open>Witnesses of the turn\<close>

lemma sample_round_executes:
  "se_executed (snd (tool_round sample_cfg (sample_env sample_stream (sample_exec None)) ''t'' sample_calls sample_sess)) = sample_calls"
proof -
  let ?env = "sample_env sample_stream (sample_exec None)"
  have r: "route_calls sample_cfg ?env ''t'' sample_calls sample_sess =
      \<lparr>ro_sess = record_calls ?env ''t'' sample_calls sample_sess, ro_batch = sample_calls, ro_gates = []\<rparr>"
    by (rule ungated_routes) (use sample_facts in blast)+
  have "calm (snd (run_batch sample_cfg ?env sample_calls (record_calls ?env ''t'' sample_calls sample_sess)))
      (snd (tool_round sample_cfg ?env ''t'' sample_calls sample_sess))"
    using tool_round_after[of sample_cfg ?env "''t''" sample_calls sample_sess] by (simp only: r routed.simps) blast
  then have "se_executed (snd (tool_round sample_cfg ?env ''t'' sample_calls sample_sess)) =
      se_executed (snd (run_batch sample_cfg ?env sample_calls (record_calls ?env ''t'' sample_calls sample_sess)))"
    by (simp add: calm_def)
  also have "\<dots> = se_executed (record_calls ?env ''t'' sample_calls sample_sess) @ sample_calls"
    by (simp add: run_batch_def Let_def sample_env_def map_nth)
  also have "se_executed (record_calls ?env ''t'' sample_calls sample_sess) = se_executed sample_sess"
    by (rule record_calls_exec)
  finally show ?thesis by (simp add: sample_sess_def)
qed

theorem round_executes_only_permitted_witness:
  "hd sample_calls \<in> set (se_executed (snd (tool_round sample_cfg (sample_env sample_stream (sample_exec None)) ''t''
       sample_calls sample_sess))) \<and>
   gv_action (call_verdict sample_cfg sample_sess (hd sample_calls)) = GateExecute"
proof -
  let ?env = "sample_env sample_stream (sample_exec None)" and ?c = "hd sample_calls"
  have m: "?c \<in> set sample_calls" using sample_facts(6) by simp
  have c: "?c \<in> set (se_executed (snd (tool_round sample_cfg ?env ''t'' sample_calls sample_sess)))"
    by (simp add: sample_round_executes sample_facts(6))
  have "?c \<notin> set (se_executed sample_sess)" by (simp add: sample_sess_def)
  from round_executes_only_permitted[OF c this] sample_facts(3) m c show ?thesis
    by (auto simp: sample_cfg_def agent_def_for_def)
qed

theorem plan_mode_holds_all_turn_witness:
  "plan_mode_on (se_plan (snd (run_turn sample_cfg (sample_env sample_stream (sample_exec None)) ''t''
     (sample_sess\<lparr>se_plan := Some (plan_enter new_plan_mode)\<rparr>))))"
  by (rule plan_mode_holds_all_turn[THEN conjunct1]) (simp add: plan_mode_on_def plan_enter_def new_plan_mode_def)

end
