(* ===== verification/Breaker.thy ===== *)
theory Breaker
  imports Prelude
begin

text \<open>
  The circuit breaker of model routing, \<^verbatim>\<open>kit/modelrouting/breaker.go\<close>, and the interface
  \<^verbatim>\<open>Breaker\<close> of \<^verbatim>\<open>dispatch.go\<close> with its two implementations. An instant is the number of
  nanoseconds since Go's zero time, a duration a number of nanoseconds; floating point numbers are
  any type with the operations the code uses, so nothing proved here depends on rounding. Every
  method runs under the breaker's mutex, so an execution is a sequence of calls.
\<close>

section \<open>Instants\<close>

type_synonym instant = int

definition max_duration :: int where "max_duration = 2 ^ 63 - 1"
definition min_duration :: int where "min_duration = - (2 ^ 63)"

definition time_sub :: "instant \<Rightarrow> instant \<Rightarrow> int" where
  \<comment> \<open>\<^verbatim>\<open>Time.Sub\<close> saturates at the range of \<^verbatim>\<open>Duration\<close>\<close>
  "time_sub a b = max min_duration (min max_duration (a - b))"

definition is_duration :: "int \<Rightarrow> bool" where
  "is_duration d = (min_duration \<le> d \<and> d \<le> max_duration)"

lemma time_sub_reaches: "0 < d \<Longrightarrow> is_duration d \<Longrightarrow> d \<le> time_sub a b \<longleftrightarrow> d \<le> a - b"
  by (auto simp: time_sub_def is_duration_def min_duration_def max_duration_def)

section \<open>The ring of outcomes\<close>

record ring =
  rg_cap :: nat
  rg_buf :: "bool list"
  rg_idx :: nat

definition new_ring_buffer :: "int \<Rightarrow> ring" where
  "new_ring_buffer capacity = \<lparr>rg_cap = nat (if capacity < 1 then 1 else capacity), rg_buf = [], rg_idx = 0\<rparr>"

definition ring_push :: "bool \<Rightarrow> ring \<Rightarrow> ring" where
  "ring_push v r =
     (if length (rg_buf r) < rg_cap r then r\<lparr>rg_buf := rg_buf r @ [v]\<rparr>
      else r\<lparr>rg_buf := (rg_buf r)[rg_idx r := v], rg_idx := (rg_idx r + 1) mod rg_cap r\<rparr>)"

definition failures :: "bool list \<Rightarrow> nat" where
  "failures h = length (filter Not h)"

definition ring_error_rate :: "(nat \<Rightarrow> 'f) \<Rightarrow> ring \<Rightarrow> 'f::{zero,divide}" where
  \<comment> \<open>the first argument converts an integer to a float\<close>
  "ring_error_rate flt r =
     (if rg_buf r = [] then 0 else flt (failures (rg_buf r)) div flt (length (rg_buf r)))"

definition ring_len :: "ring \<Rightarrow> nat" where
  "ring_len r = length (rg_buf r)"

section \<open>The breaker\<close>

datatype breaker_state = BreakerClosed | BreakerOpen | BreakerHalfOpen

record 'f breaker_cfg =
  bc_consecutive :: int
  bc_window :: int
  bc_threshold :: 'f
  bc_cooldown :: int
  bc_probes :: int

record 'f circuit_breaker =
  cb_state :: breaker_state
  cb_consecutive :: nat
  cb_window :: ring
  cb_opened :: instant
  cb_cfg :: "'f breaker_cfg"

definition second :: int where "second = 1000000000"

definition default_breaker :: "'f \<Rightarrow> 'f breaker_cfg" where
  \<comment> \<open>the argument is the literal 0.50\<close>
  "default_breaker half =
     \<lparr>bc_consecutive = 5, bc_window = 20, bc_threshold = half, bc_cooldown = 60 * second, bc_probes = 1\<rparr>"

definition fill_breaker_cfg :: "'f \<Rightarrow> 'f::{zero,ord} breaker_cfg \<Rightarrow> 'f breaker_cfg" where
  "fill_breaker_cfg half cfg =
     cfg\<lparr>bc_consecutive := (if bc_consecutive cfg < 1 then bc_consecutive (default_breaker half) else bc_consecutive cfg),
         bc_window := (if bc_window cfg < 1 then bc_window (default_breaker half) else bc_window cfg),
         bc_threshold := (if bc_threshold cfg \<le> 0 then bc_threshold (default_breaker half) else bc_threshold cfg),
         bc_cooldown := (if bc_cooldown cfg \<le> 0 then bc_cooldown (default_breaker half) else bc_cooldown cfg)\<rparr>"

definition new_circuit_breaker :: "'f \<Rightarrow> 'f::{zero,ord} breaker_cfg \<Rightarrow> 'f circuit_breaker" where
  "new_circuit_breaker half cfg =
     (let c = fill_breaker_cfg half cfg
      in \<lparr>cb_state = BreakerClosed, cb_consecutive = 0, cb_window = new_ring_buffer (bc_window c), cb_opened = 0, cb_cfg = c\<rparr>)"

definition breaker_allow :: "instant \<Rightarrow> 'f circuit_breaker \<Rightarrow> bool \<times> 'f circuit_breaker" where
  "breaker_allow now b =
     (case cb_state b of
        BreakerClosed \<Rightarrow> (True, b)
      | BreakerHalfOpen \<Rightarrow> (True, b)
      | BreakerOpen \<Rightarrow>
          (if bc_cooldown (cb_cfg b) \<le> time_sub now (cb_opened b) then (True, b\<lparr>cb_state := BreakerHalfOpen\<rparr>)
           else (False, b)))"

definition record_success :: "'f circuit_breaker \<Rightarrow> 'f circuit_breaker" where
  "record_success b =
     (let b1 = b\<lparr>cb_consecutive := 0, cb_window := ring_push True (cb_window b)\<rparr>
      in if cb_state b1 = BreakerHalfOpen then b1\<lparr>cb_state := BreakerClosed\<rparr> else b1)"

definition rate_trips :: "(nat \<Rightarrow> 'f) \<Rightarrow> 'f::{zero,divide,ord} circuit_breaker \<Rightarrow> bool" where
  "rate_trips flt b =
     (bc_window (cb_cfg b) \<le> int (ring_len (cb_window b)) \<and>
      bc_threshold (cb_cfg b) < ring_error_rate flt (cb_window b))"

definition record_transient :: "(nat \<Rightarrow> 'f) \<Rightarrow> instant \<Rightarrow> 'f::{zero,divide,ord} circuit_breaker \<Rightarrow> 'f circuit_breaker" where
  "record_transient flt now b =
     (let b1 = b\<lparr>cb_consecutive := cb_consecutive b + 1, cb_window := ring_push False (cb_window b)\<rparr>
      in case cb_state b1 of
           BreakerHalfOpen \<Rightarrow> b1\<lparr>cb_opened := now, cb_state := BreakerOpen\<rparr>
         | BreakerClosed \<Rightarrow>
             (if bc_consecutive (cb_cfg b1) \<le> int (cb_consecutive b1) \<or> rate_trips flt b1
              then b1\<lparr>cb_opened := now, cb_state := BreakerOpen\<rparr> else b1)
         | BreakerOpen \<Rightarrow> b1)"

datatype breaker_call = CallAllow instant | CallSuccess | CallTransient instant

fun breaker_step :: "(nat \<Rightarrow> 'f) \<Rightarrow> 'f::{zero,divide,ord} circuit_breaker \<Rightarrow> breaker_call \<Rightarrow> 'f circuit_breaker" where
  "breaker_step flt b (CallAllow now) = snd (breaker_allow now b)"
| "breaker_step flt b CallSuccess = record_success b"
| "breaker_step flt b (CallTransient now) = record_transient flt now b"

definition run_breaker :: "(nat \<Rightarrow> 'f) \<Rightarrow> breaker_call list \<Rightarrow> 'f::{zero,divide,ord} circuit_breaker \<Rightarrow> 'f circuit_breaker" where
  "run_breaker flt calls b = foldl (breaker_step flt) b calls"

section \<open>The ring holds the last outcomes\<close>

definition last_n :: "nat \<Rightarrow> 'a list \<Rightarrow> 'a list" where
  "last_n n h = drop (length h - n) h"

definition ring_holds :: "nat \<Rightarrow> bool list \<Rightarrow> ring \<Rightarrow> bool" where
  \<comment> \<open>read from the write position on, the buffer is the last outcomes in order\<close>
  "ring_holds cap h r =
     (rg_cap r = cap \<and> rg_idx r < cap \<and> (length h < cap \<longrightarrow> rg_idx r = 0) \<and> rotate (rg_idx r) (rg_buf r) = last_n cap h)"

lemma last_n_length [simp]: "length (last_n n h) = min n (length h)"
  by (simp add: last_n_def)

lemma last_n_snoc: "last_n n (h @ [v]) = (if length h < n then h @ [v] else if n = 0 then [] else tl (last_n n h) @ [v])"
  by (auto simp: last_n_def Suc_diff_le drop_Suc drop_tl)

lemma ring_holds_length: "ring_holds cap h r \<Longrightarrow> length (rg_buf r) = min cap (length h)"
  by (metis last_n_length length_rotate ring_holds_def)

lemma ring_overwrite:
  assumes "i < length buf"
  shows "rotate (Suc i mod length buf) (buf[i := v]) = tl (rotate i buf) @ [v]"
proof -
  have "rotate (Suc i mod length buf) (buf[i := v]) = rotate1 (rotate i (buf[i := v]))"
    by (metis length_list_update rotate_Suc rotate_conv_mod)
  also have "rotate i (buf[i := v]) = v # drop (Suc i) buf @ take i buf"
    using assms by (simp add: rotate_drop_take upd_conv_take_nth_drop)
  also have "rotate1 (v # drop (Suc i) buf @ take i buf) = tl (rotate i buf) @ [v]"
    using assms by (simp add: rotate_drop_take Cons_nth_drop_Suc[symmetric])
  finally show ?thesis .
qed

lemma ring_push_holds:
  assumes "ring_holds cap h r"
  shows "ring_holds cap (h @ [v]) (ring_push v r)"
proof (cases "length h < cap")
  case True
  then have z: "rg_cap r = cap" "rg_idx r = 0" using assms by (simp_all add: ring_holds_def)
  then have "rg_buf r = h" using assms True by (simp add: ring_holds_def last_n_def)
  with True z show ?thesis by (simp add: ring_holds_def ring_push_def last_n_def)
next
  case False
  have l: "length (rg_buf r) = cap" using ring_holds_length[OF assms] False by simp
  have z: "rg_cap r = cap" "rg_idx r < cap" "rotate (rg_idx r) (rg_buf r) = last_n cap h" "0 < cap"
    using assms by (auto simp: ring_holds_def)
  have "rotate (Suc (rg_idx r) mod cap) ((rg_buf r)[rg_idx r := v]) = tl (last_n cap h) @ [v]"
    using ring_overwrite[of "rg_idx r" "rg_buf r" v] z by (simp only: l)
  with False l z show ?thesis by (simp add: ring_holds_def ring_push_def last_n_snoc)
qed

lemma new_ring_holds: "1 \<le> n \<Longrightarrow> ring_holds (nat n) [] (new_ring_buffer n)"
  by (simp add: ring_holds_def new_ring_buffer_def last_n_def)

lemma failures_append: "failures (a @ b) = failures a + failures b"
  by (simp add: failures_def)

lemma ring_failures:
  assumes "ring_holds cap h r"
  shows "failures (rg_buf r) = failures (last_n cap h)"
proof -
  let ?m = "rg_idx r mod length (rg_buf r)"
  have "failures (last_n cap h) = failures (drop ?m (rg_buf r) @ take ?m (rg_buf r))"
    using assms by (simp add: ring_holds_def rotate_drop_take[symmetric])
  also have "\<dots> = failures (take ?m (rg_buf r) @ drop ?m (rg_buf r))" by (simp only: failures_append add.commute)
  finally show ?thesis by simp
qed

section \<open>The breaker by its history\<close>

record breaker_spec =
  sp_state :: breaker_state
  sp_opened :: instant
  sp_history :: "bool list"

definition trailing_failures :: "bool list \<Rightarrow> nat" where
  "trailing_failures h = length (takeWhile Not (rev h))"

definition window_rate :: "(nat \<Rightarrow> 'f) \<Rightarrow> nat \<Rightarrow> bool list \<Rightarrow> 'f::{zero,divide}" where
  "window_rate flt n h = (if h = [] then 0 else flt (failures (last_n n h)) div flt (min n (length h)))"

definition should_trip :: "(nat \<Rightarrow> 'f) \<Rightarrow> 'f::{zero,divide,ord} breaker_cfg \<Rightarrow> bool list \<Rightarrow> bool" where
  "should_trip flt cfg h =
     (bc_consecutive cfg \<le> int (trailing_failures h) \<or>
      (bc_window cfg \<le> int (length h) \<and> bc_threshold cfg < window_rate flt (nat (bc_window cfg)) h))"

fun spec_step :: "(nat \<Rightarrow> 'f) \<Rightarrow> 'f::{zero,divide,ord} breaker_cfg \<Rightarrow> breaker_spec \<Rightarrow> breaker_call \<Rightarrow> breaker_spec" where
  "spec_step flt cfg s (CallAllow now) =
     (if sp_state s = BreakerOpen \<and> bc_cooldown cfg \<le> time_sub now (sp_opened s) then s\<lparr>sp_state := BreakerHalfOpen\<rparr> else s)"
| "spec_step flt cfg s CallSuccess =
     s\<lparr>sp_history := sp_history s @ [True],
       sp_state := (if sp_state s = BreakerHalfOpen then BreakerClosed else sp_state s)\<rparr>"
| "spec_step flt cfg s (CallTransient now) =
     (let h = sp_history s @ [False];
          trips = sp_state s = BreakerHalfOpen \<or> (sp_state s = BreakerClosed \<and> should_trip flt cfg h)
      in s\<lparr>sp_history := h, sp_state := (if trips then BreakerOpen else sp_state s),
            sp_opened := (if trips then now else sp_opened s)\<rparr>)"

definition run_spec :: "(nat \<Rightarrow> 'f) \<Rightarrow> 'f::{zero,divide,ord} breaker_cfg \<Rightarrow> breaker_call list \<Rightarrow> breaker_spec" where
  "run_spec flt cfg calls =
     foldl (spec_step flt cfg) \<lparr>sp_state = BreakerClosed, sp_opened = 0, sp_history = []\<rparr> calls"

definition breaker_refines :: "'f breaker_cfg \<Rightarrow> 'f circuit_breaker \<Rightarrow> breaker_spec \<Rightarrow> bool" where
  "breaker_refines cfg b s =
     (cb_cfg b = cfg \<and> 1 \<le> bc_window cfg \<and> cb_state b = sp_state s \<and> cb_opened b = sp_opened s \<and>
      cb_consecutive b = trailing_failures (sp_history s) \<and> ring_holds (nat (bc_window cfg)) (sp_history s) (cb_window b))"

lemma trailing_snoc [simp]:
  "trailing_failures (h @ [True]) = 0" "trailing_failures (h @ [False]) = Suc (trailing_failures h)"
  by (simp_all add: trailing_failures_def)

lemma new_breaker_refines:
  "breaker_refines (fill_breaker_cfg half cfg) (new_circuit_breaker half cfg)
     \<lparr>sp_state = BreakerClosed, sp_opened = 0, sp_history = []\<rparr>"
proof -
  have "1 \<le> bc_window (fill_breaker_cfg half cfg)" by (simp add: fill_breaker_cfg_def default_breaker_def)
  then show ?thesis
    by (simp add: breaker_refines_def new_circuit_breaker_def Let_def trailing_failures_def new_ring_holds)
qed

lemma ring_rate:
  assumes "ring_holds (nat n) h r"
  shows "ring_error_rate flt r = window_rate flt (nat n) h"
proof -
  have "rg_buf r = [] \<longleftrightarrow> h = []"
    using ring_holds_length[OF assms] assms by (cases h; cases "rg_buf r") (auto simp: ring_holds_def)
  then show ?thesis
    by (simp add: ring_error_rate_def window_rate_def ring_failures[OF assms] ring_holds_length[OF assms])
qed

lemma trip_rule:
  assumes "ring_holds (nat (bc_window cfg)) h (cb_window b)" "cb_cfg b = cfg" "cb_consecutive b = trailing_failures h"
    "1 \<le> bc_window cfg"
  shows "(bc_consecutive (cb_cfg b) \<le> int (cb_consecutive b) \<or> rate_trips flt b) = should_trip flt cfg h"
proof -
  have "bc_window cfg \<le> int (ring_len (cb_window b)) \<longleftrightarrow> bc_window cfg \<le> int (length h)"
    using ring_holds_length[OF assms(1)] assms(4) by (auto simp: ring_len_def)
  then show ?thesis using assms(2,3) by (simp add: rate_trips_def should_trip_def ring_rate[OF assms(1)])
qed

lemma breaker_step_refines:
  assumes "breaker_refines cfg b s"
  shows "breaker_refines cfg (breaker_step flt b c) (spec_step flt cfg s c)"
proof (cases c)
  case (CallAllow now)
  then show ?thesis
    using assms by (auto simp: breaker_refines_def breaker_allow_def split: breaker_state.splits)
next
  case CallSuccess
  then show ?thesis
    using assms by (auto simp: breaker_refines_def record_success_def Let_def ring_push_holds)
next
  case (CallTransient now)
  let ?b = "b\<lparr>cb_consecutive := cb_consecutive b + 1, cb_window := ring_push False (cb_window b)\<rparr>"
  let ?h = "sp_history s @ [False]"
  have r: "ring_holds (nat (bc_window cfg)) ?h (cb_window ?b)" "cb_cfg ?b = cfg" "cb_consecutive ?b = trailing_failures ?h"
    "1 \<le> bc_window cfg" "cb_state b = sp_state s" "cb_opened b = sp_opened s"
    using assms by (simp_all add: breaker_refines_def ring_push_holds)
  have t: "record_transient flt now b =
      (if sp_state s = BreakerHalfOpen \<or> (sp_state s = BreakerClosed \<and> should_trip flt cfg ?h)
       then ?b\<lparr>cb_opened := now, cb_state := BreakerOpen\<rparr> else ?b)"
    using trip_rule[OF r(1-4), of flt] r(5) unfolding record_transient_def Let_def
    by (cases "sp_state s") simp_all
  show ?thesis using r by (simp add: CallTransient t breaker_refines_def Let_def)
qed

lemma run_breaker_refines:
  "breaker_refines cfg b s \<Longrightarrow> breaker_refines cfg (run_breaker flt calls b) (foldl (spec_step flt cfg) s calls)"
  unfolding run_breaker_def by (induction calls arbitrary: b s) (simp_all add: breaker_step_refines)

text \<open>C13. The breaker implements its history specification: whatever the calls, its phase, its opening
instant and its answers are those of the automaton that keeps the whole history of outcomes and
trips on the trailing failures or on the failure rate of the last window of outcomes.\<close>

theorem breaker_follows_history:
  "let b = run_breaker flt calls (new_circuit_breaker half cfg);
       c = fill_breaker_cfg half cfg;
       s = run_spec flt c calls
   in cb_state b = sp_state s \<and> cb_opened b = sp_opened s \<and>
      cb_consecutive b = trailing_failures (sp_history s) \<and>
      ring_error_rate flt (cb_window b) = window_rate flt (nat (bc_window c)) (sp_history s) \<and>
      fst (breaker_allow now b) = (if sp_state s = BreakerOpen then bc_cooldown c \<le> time_sub now (sp_opened s) else True)"
proof -
  note r = run_breaker_refines[OF new_breaker_refines, of half cfg flt calls, unfolded breaker_refines_def]
  note rate = ring_rate[where flt = flt, OF r[THEN conjunct2, THEN conjunct2, THEN conjunct2, THEN conjunct2, THEN conjunct2]]
  show ?thesis unfolding Let_def run_spec_def breaker_allow_def
    using r by (simp add: rate split: breaker_state.split)
qed

section \<open>An open breaker\<close>

fun call_before :: "instant \<Rightarrow> breaker_call \<Rightarrow> bool" where
  "call_before t (CallAllow now) = (now < t)"
| "call_before t _ = True"

lemma open_step:
  assumes "cb_state b = BreakerOpen" "is_duration (bc_cooldown (cb_cfg b))" "0 < bc_cooldown (cb_cfg b)"
    "call_before (cb_opened b + bc_cooldown (cb_cfg b)) c"
  shows "cb_state (breaker_step flt b c) = BreakerOpen \<and> cb_opened (breaker_step flt b c) = cb_opened b \<and>
    cb_cfg (breaker_step flt b c) = cb_cfg b"
  using assms
  by (cases c) (auto simp: breaker_allow_def record_success_def record_transient_def Let_def time_sub_reaches)

lemma open_run:
  assumes "cb_state b = BreakerOpen" "is_duration (bc_cooldown (cb_cfg b))" "0 < bc_cooldown (cb_cfg b)"
    "list_all (call_before (cb_opened b + bc_cooldown (cb_cfg b))) calls"
  shows "cb_state (run_breaker flt calls b) = BreakerOpen \<and> cb_opened (run_breaker flt calls b) = cb_opened b \<and>
    cb_cfg (run_breaker flt calls b) = cb_cfg b"
  using assms
proof (induction calls arbitrary: b)
  case (Cons c calls)
  then have s: "cb_state (breaker_step flt b c) = BreakerOpen" "cb_opened (breaker_step flt b c) = cb_opened b"
    "cb_cfg (breaker_step flt b c) = cb_cfg b"
    using open_step[of b c flt] by simp_all
  have "run_breaker flt (c # calls) b = run_breaker flt calls (breaker_step flt b c)" by (simp add: run_breaker_def)
  with Cons.IH[of "breaker_step flt b c"] Cons.prems s show ?case by simp
qed (simp add: run_breaker_def)

text \<open>An open breaker stays shut: until its cooldown has elapsed no sequence of outcomes and probes,
in any order and from any number of goroutines, opens it to a call or moves its opening instant.\<close>

theorem open_breaker_refuses:
  assumes "cb_state b = BreakerOpen" "is_duration (bc_cooldown (cb_cfg b))" "0 < bc_cooldown (cb_cfg b)"
    and "list_all (call_before (cb_opened b + bc_cooldown (cb_cfg b))) calls" "now < cb_opened b + bc_cooldown (cb_cfg b)"
  shows "\<not> fst (breaker_allow now (run_breaker flt calls b)) \<and> cb_opened (run_breaker flt calls b) = cb_opened b"
  using open_run[OF assms(1-4), of flt] assms(2,3,5) by (simp add: breaker_allow_def time_sub_reaches)

definition sample_breaker :: "int circuit_breaker" where
  "sample_breaker = run_breaker int (replicate 5 (CallTransient 10)) (new_circuit_breaker 1 (default_breaker 1))"

lemma sample_breaker_open:
  "cb_state sample_breaker = BreakerOpen" "cb_opened sample_breaker = 10" "bc_cooldown (cb_cfg sample_breaker) = 60000000000"
  by code_simp+

theorem open_breaker_refuses_witness:
  "\<not> fst (breaker_allow 60000000009 (run_breaker int [CallSuccess, CallTransient 40, CallAllow 59000000000] sample_breaker))"
proof -
  have "\<not> fst (breaker_allow 60000000009 (run_breaker int [CallSuccess, CallTransient 40, CallAllow 59000000000] sample_breaker)) \<and>
      cb_opened (run_breaker int [CallSuccess, CallTransient 40, CallAllow 59000000000] sample_breaker) = cb_opened sample_breaker"
    by (rule open_breaker_refuses) (simp_all add: sample_breaker_open is_duration_def min_duration_def max_duration_def)
  then show ?thesis by simp
qed

section \<open>The interface\<close>

datatype 'f breaker = Circuit "'f circuit_breaker" | NoopBreaker

fun if_allow :: "instant \<Rightarrow> 'f breaker \<Rightarrow> bool \<times> 'f breaker" where
  "if_allow now (Circuit b) = map_prod id Circuit (breaker_allow now b)"
| "if_allow now NoopBreaker = (True, NoopBreaker)"

fun if_success :: "'f breaker \<Rightarrow> 'f breaker" where
  "if_success (Circuit b) = Circuit (record_success b)"
| "if_success NoopBreaker = NoopBreaker"

fun if_transient :: "(nat \<Rightarrow> 'f) \<Rightarrow> instant \<Rightarrow> 'f::{zero,divide,ord} breaker \<Rightarrow> 'f breaker" where
  "if_transient flt now (Circuit b) = Circuit (record_transient flt now b)"
| "if_transient flt now NoopBreaker = NoopBreaker"

locale breaker_contract =
  fixes allow :: "instant \<Rightarrow> 'b \<Rightarrow> bool \<times> 'b"
    and success :: "'b \<Rightarrow> 'b"
  assumes refusal_inert: "\<not> fst (allow t b) \<Longrightarrow> snd (allow t b) = b"
    and admission_holds: "fst (allow t b) \<Longrightarrow> fst (allow u (snd (allow t b)))"
    and success_reopens: "fst (allow t b) \<Longrightarrow> fst (allow u (success (snd (allow t b))))"
begin

lemma admitted_twice: "fst (allow t b) \<Longrightarrow> fst (allow u (snd (allow v (snd (allow t b)))))"
  using admission_holds[of v "snd (allow t b)" u] admission_holds[of t b v] by simp

lemma refused_twice: "\<not> fst (allow t b) \<Longrightarrow> \<not> fst (allow t (snd (allow t b)))"
  by (simp add: refusal_inert)

end

interpretation br: breaker_contract if_allow if_success
proof
  fix t u :: instant and b :: "'f breaker"
  show "\<not> fst (if_allow t b) \<Longrightarrow> snd (if_allow t b) = b"
    by (cases b) (auto simp: breaker_allow_def split: breaker_state.splits)
  show "fst (if_allow t b) \<Longrightarrow> fst (if_allow u (snd (if_allow t b)))"
    by (cases b) (auto simp: breaker_allow_def split: breaker_state.splits if_splits)
  show "fst (if_allow t b) \<Longrightarrow> fst (if_allow u (if_success (snd (if_allow t b))))"
    by (cases b) (auto simp: breaker_allow_def record_success_def Let_def split: breaker_state.splits if_splits)
qed

end
