(* ===== verification/Cost.thy ===== *)
theory Cost
  imports Breaker
begin

text \<open>
  The cost ceiling of model routing, \<^verbatim>\<open>kit/modelrouting/cost.go\<close>: spending per calendar window, one
  degradation and then the hard stop. Floating point numbers are any type with the operations the
  code uses. Every method runs under the tracker's mutex.
\<close>

section \<open>Data\<close>

record 'f pricing =
  pr_input :: 'f
  pr_output :: 'f

record 'f cost_cfg =
  cc_amount :: 'f
  cc_window :: int
  cc_degrade :: string

datatype cost_action = CostAllow | CostDegrade | CostHardStop

record 'f cost_warn =
  cw_start :: instant
  cw_spent :: 'f
  cw_ceiling :: 'f
  cw_degraded_to :: string
  cw_hard_stop :: bool

record 'f cost_tracker =
  ct_cfg :: "'f cost_cfg"
  ct_pricing :: "string \<rightharpoonup> 'f pricing"
  ct_spent :: 'f
  ct_degraded_spent :: 'f
  ct_start :: instant
  ct_degraded :: bool
  ct_degrade_warned :: bool
  ct_stop_warned :: bool
  ct_bus :: "'f cost_warn list option"

section \<open>Operations\<close>

definition day :: int where "day = 24 * 3600 * second"

definition new_cost_tracker :: "'f cost_cfg \<Rightarrow> (string \<rightharpoonup> 'f pricing) \<Rightarrow> 'f::zero cost_warn list option \<Rightarrow> 'f cost_tracker" where
  \<comment> \<open>the bus may be absent; a nil pricing map is the empty one\<close>
  "new_cost_tracker cfg pricing bus =
     \<lparr>ct_cfg = cfg\<lparr>cc_window := (if cc_window cfg \<le> 0 then day else cc_window cfg)\<rparr>, ct_pricing = pricing,
      ct_spent = 0, ct_degraded_spent = 0, ct_start = 0, ct_degraded = False, ct_degrade_warned = False,
      ct_stop_warned = False, ct_bus = bus\<rparr>"

definition price :: "(int \<Rightarrow> 'f) \<Rightarrow> 'f pricing \<Rightarrow> int \<Rightarrow> int \<Rightarrow> 'f::{plus,times,divide}" where
  "price flt p i out = (flt i * pr_input p + flt out * pr_output p) div flt 1000000"

definition account :: "(int \<Rightarrow> 'f) \<Rightarrow> string \<Rightarrow> int \<Rightarrow> int \<Rightarrow> 'f::{plus,times,divide} cost_tracker \<Rightarrow> 'f cost_tracker" where
  "account flt model i out c =
     (if i = 0 \<and> out = 0 then c
      else (case ct_pricing c model of
              None \<Rightarrow> c
            | Some p \<Rightarrow>
                (if ct_degraded c then c\<lparr>ct_degraded_spent := ct_degraded_spent c + price flt p i out\<rparr>
                 else c\<lparr>ct_spent := ct_spent c + price flt p i out\<rparr>)))"

definition truncate_time :: "instant \<Rightarrow> int \<Rightarrow> instant" where
  "truncate_time t d = (if d \<le> 0 then t else t - t mod d)"

definition publish_warn :: "'f cost_warn \<Rightarrow> 'f cost_tracker \<Rightarrow> 'f cost_tracker" where
  "publish_warn e c = c\<lparr>ct_bus := map_option (\<lambda>es. es @ [e]) (ct_bus c)\<rparr>"

definition roll_window :: "instant \<Rightarrow> 'f::zero cost_tracker \<Rightarrow> 'f cost_tracker" where
  "roll_window now c =
     (if ct_start c = 0 then c\<lparr>ct_start := truncate_time now (cc_window (ct_cfg c))\<rparr>
      else if cc_window (ct_cfg c) \<le> time_sub now (ct_start c) then
        c\<lparr>ct_start := truncate_time now (cc_window (ct_cfg c)), ct_spent := 0, ct_degraded_spent := 0,
          ct_degraded := False, ct_degrade_warned := False, ct_stop_warned := False\<rparr>
      else c)"

definition check :: "instant \<Rightarrow> 'f::{zero,ord} cost_tracker \<Rightarrow> cost_action \<times> 'f cost_tracker" where
  "check now c =
     (let c = roll_window now c; amount = cc_amount (ct_cfg c)
      in if amount \<le> 0 then (CostAllow, c)
         else if \<not> ct_degraded c then
           (if amount \<le> ct_spent c then
              (let c1 = c\<lparr>ct_degraded := True\<rparr>
               in (CostDegrade,
                   if ct_degrade_warned c1 then c1
                   else (publish_warn \<lparr>cw_start = ct_start c1, cw_spent = ct_spent c1, cw_ceiling = amount,
                          cw_degraded_to = cc_degrade (ct_cfg c1), cw_hard_stop = False\<rparr> c1)\<lparr>ct_degrade_warned := True\<rparr>))
            else (CostAllow, c))
         else if amount \<le> ct_degraded_spent c then
           (CostHardStop,
            if ct_stop_warned c then c
            else (publish_warn \<lparr>cw_start = ct_start c, cw_spent = ct_degraded_spent c, cw_ceiling = amount,
                   cw_degraded_to = [], cw_hard_stop = True\<rparr> c)\<lparr>ct_stop_warned := True\<rparr>)
         else (CostDegrade, c))"

definition total_spent :: "'f::plus cost_tracker \<Rightarrow> 'f" where
  "total_spent c = ct_spent c + ct_degraded_spent c"

datatype cost_call = CheckAt instant | AccountFor string int int

fun cost_step :: "(int \<Rightarrow> 'f) \<Rightarrow> 'f::{zero,plus,times,divide,ord} cost_tracker \<Rightarrow> cost_call \<Rightarrow> 'f cost_tracker" where
  "cost_step flt c (CheckAt now) = snd (check now c)"
| "cost_step flt c (AccountFor model i out) = account flt model i out c"

fun cost_answers :: "(int \<Rightarrow> 'f) \<Rightarrow> cost_call list \<Rightarrow> 'f::{zero,plus,times,divide,ord} cost_tracker \<Rightarrow> cost_action list" where
  "cost_answers flt [] c = []"
| "cost_answers flt (CheckAt now # cs) c = fst (check now c) # cost_answers flt cs (snd (check now c))"
| "cost_answers flt (AccountFor model i out # cs) c = cost_answers flt cs (account flt model i out c)"

section \<open>One window\<close>

definition in_window :: "'f cost_tracker \<Rightarrow> instant \<Rightarrow> bool" where
  "in_window c now = (ct_start c \<noteq> 0 \<and> time_sub now (ct_start c) < cc_window (ct_cfg c))"

fun call_in_window :: "'f cost_tracker \<Rightarrow> cost_call \<Rightarrow> bool" where
  "call_in_window c (CheckAt now) = in_window c now"
| "call_in_window c (AccountFor _ i out) = (0 \<le> i \<and> 0 \<le> out)"

definition spend_grows :: "(int \<Rightarrow> 'f) \<Rightarrow> 'f::{zero,plus,times,divide,ord} cost_tracker \<Rightarrow> bool" where
  \<comment> \<open>no priced request takes a sum back under the ceiling\<close>
  "spend_grows flt c =
     (\<forall>m p i out s. ct_pricing c m = Some p \<longrightarrow> 0 \<le> i \<longrightarrow> 0 \<le> out \<longrightarrow> cc_amount (ct_cfg c) \<le> s \<longrightarrow> cc_amount (ct_cfg c) \<le> s + price flt p i out)"

fun action_rank :: "cost_action \<Rightarrow> nat" where
  "action_rank CostAllow = 0"
| "action_rank CostDegrade = 1"
| "action_rank CostHardStop = 2"

definition cost_rank :: "'f::{zero,ord} cost_tracker \<Rightarrow> nat" where
  \<comment> \<open>what the next check in the window answers at least\<close>
  "cost_rank c =
     (if cc_amount (ct_cfg c) \<le> 0 then 0
      else if \<not> ct_degraded c then 0
      else if cc_amount (ct_cfg c) \<le> ct_degraded_spent c then 2 else 1)"

lemma roll_in_window: "in_window c now \<Longrightarrow> roll_window now c = c"
  by (simp add: in_window_def roll_window_def)

lemma check_frame:
  assumes "in_window c now"
  shows "ct_cfg (snd (check now c)) = ct_cfg c \<and> ct_pricing (snd (check now c)) = ct_pricing c \<and>
    ct_start (snd (check now c)) = ct_start c"
  by (simp add: check_def Let_def roll_in_window[OF assms] publish_warn_def)

lemma account_frame:
  "ct_cfg (account flt m i out c) = ct_cfg c" "ct_pricing (account flt m i out c) = ct_pricing c"
  "ct_start (account flt m i out c) = ct_start c"
  by (simp_all add: account_def split: option.split)

lemma check_rank:
  assumes "in_window c now"
  shows "cost_rank c \<le> action_rank (fst (check now c)) \<and> action_rank (fst (check now c)) \<le> cost_rank (snd (check now c))"
  by (simp add: check_def Let_def roll_in_window[OF assms] publish_warn_def cost_rank_def)

lemma account_rank: "spend_grows flt c \<Longrightarrow> 0 \<le> i \<Longrightarrow> 0 \<le> out \<Longrightarrow> cost_rank c \<le> cost_rank (account flt m i out c)"
  by (auto simp: cost_rank_def account_def spend_grows_def split: option.split)

lemma in_window_frame:
  "ct_cfg c' = ct_cfg c \<Longrightarrow> ct_pricing c' = ct_pricing c \<Longrightarrow> ct_start c' = ct_start c \<Longrightarrow>
     call_in_window c' = call_in_window c \<and> spend_grows flt c' = spend_grows flt c"
proof -
  assume a: "ct_cfg c' = ct_cfg c" "ct_pricing c' = ct_pricing c" "ct_start c' = ct_start c"
  have "call_in_window c' x = call_in_window c x" for x using a by (cases x) (simp_all add: in_window_def)
  with a show ?thesis by (auto simp: spend_grows_def)
qed

lemma answers_ranked:
  assumes "spend_grows flt c" "list_all (call_in_window c) cs"
  shows "sorted (map action_rank (cost_answers flt cs c)) \<and> (\<forall>a \<in> set (cost_answers flt cs c). cost_rank c \<le> action_rank a)"
  using assms
proof (induction flt cs c rule: cost_answers.induct)
  case (2 flt now cs c)
  then have w: "in_window c now" by simp
  let ?c = "snd (check now c)"
  have "sorted (map action_rank (cost_answers flt cs ?c)) \<and> (\<forall>a \<in> set (cost_answers flt cs ?c). cost_rank ?c \<le> action_rank a)"
    using 2 in_window_frame[of ?c c flt] check_frame[OF w] by simp
  then show ?case using check_rank[OF w] by (auto intro: order_trans)
next
  case (3 flt model i out cs c)
  let ?c = "account flt model i out c"
  have "sorted (map action_rank (cost_answers flt cs ?c)) \<and> (\<forall>a \<in> set (cost_answers flt cs ?c). cost_rank ?c \<le> action_rank a)"
    using 3 in_window_frame[of ?c c flt] by (simp add: account_frame)
  then show ?case using account_rank[OF "3.prems"(1), of i out model] "3.prems"(2) by (auto intro: order_trans)
qed simp


definition sample_tracker :: "int cost_tracker" where
  "sample_tracker = snd (check 90000000000000 (new_cost_tracker \<lparr>cc_amount = 5, cc_window = 0, cc_degrade = ''light''\<rparr>
     [''m'' \<mapsto> \<lparr>pr_input = 1000000, pr_output = 2000000\<rparr>] (Some [])))"

lemma sample_tracker_facts: "ct_start sample_tracker = 86400000000000" "cc_window (ct_cfg sample_tracker) = 86400000000000"
    "cc_amount (ct_cfg sample_tracker) = 5" "ct_pricing sample_tracker = [''m'' \<mapsto> \<lparr>pr_input = 1000000, pr_output = 2000000\<rparr>]"
    "\<not> ct_degraded sample_tracker" "ct_spent sample_tracker = 0" "ct_degraded_spent sample_tracker = 0"
  by (simp_all add: sample_tracker_def check_def new_cost_tracker_def roll_window_def truncate_time_def Let_def day_def second_def)

lemma sample_spend_grows: "spend_grows id sample_tracker"
  by (auto simp: spend_grows_def sample_tracker_facts price_def split: if_splits)

definition sample_cost_calls :: "cost_call list" where
  "sample_cost_calls = [CheckAt 90000000000001, AccountFor ''m'' 3 1, CheckAt 90000000000002, AccountFor ''m'' 5 0, CheckAt 90000000000003]"


end
