(* ===== verification/Routing.thy ===== *)
theory Routing
  imports Cost TurnIds "HOL-Library.List_Lexorder" "HOL-Library.Char_ord" "HOL-Library.AList"
begin

text \<open>
  Model routing, \<^verbatim>\<open>kit/modelrouting/config.go\<close>, \<^verbatim>\<open>load.go\<close>, \<^verbatim>\<open>resolver.go\<close>, \<^verbatim>\<open>capability.go\<close> and
  \<^verbatim>\<open>safety.go\<close>: the configuration, its layering and validation, the time windows, and the resolution
  of a tier to a chain of targets. A Go map is an association list; a time zone is a parameter, the
  civil day of an instant and the instant of a civil time, as the time package computes them.
\<close>

section \<open>Configuration\<close>

type_synonym 'v gomap = "(string \<times> 'v) list"

record capability_profile =
  cp_context :: int
  cp_max_output :: int
  cp_tools :: bool
  cp_streaming :: bool
  cp_thinking :: bool
  cp_limitations :: "string list"

record 'f model_config =
  mo_provider :: string
  mo_pricing :: "'f pricing"
  mo_caps :: capability_profile

record provider_config =
  pv_base_url :: string
  pv_shape :: string
  pv_api_key :: string
  pv_api_key_env :: string
  pv_usage :: string

record tier_binding =
  tb_model :: string
  tb_fallback :: "string list"

record schedule =
  sh_from :: string
  sh_to :: string
  sh_days :: "string list"

record time_window =
  tw_name :: string
  tw_zone :: string
  tw_schedule :: schedule
  tw_tiers :: "tier_binding gomap"

record 'f config =
  cf_timezone :: string
  cf_session_tier :: string
  cf_providers :: "provider_config gomap"
  cf_models :: "'f model_config gomap"
  cf_tiers :: "tier_binding gomap"
  cf_windows :: "time_window list"
  cf_projects :: "tier_binding gomap gomap"
  cf_breaker :: "'f breaker_cfg"
  cf_cost :: "'f cost_cfg"

record 'f target =
  tg_provider :: string
  tg_model :: string
  tg_base_url :: string
  tg_shape :: string
  tg_caps :: capability_profile
  tg_pricing :: "'f pricing"

record capability_req =
  rq_tools :: bool
  rq_streaming :: bool
  rq_thinking :: bool

definition zero_req :: capability_req where
  "zero_req = \<lparr>rq_tools = False, rq_streaming = False, rq_thinking = False\<rparr>"

definition apply_defaults :: "'f \<Rightarrow> 'f::zero config \<Rightarrow> 'f config" where
  "apply_defaults half cfg =
     (let d = default_breaker half; cb = cf_breaker cfg; co = cf_cost cfg
      in cfg\<lparr>cf_timezone := (if cf_timezone cfg = [] then ''UTC'' else cf_timezone cfg),
             cf_session_tier := (if cf_session_tier cfg = [] then ''heavy'' else cf_session_tier cfg),
             cf_breaker := cb\<lparr>bc_consecutive := (if bc_consecutive cb = 0 then bc_consecutive d else bc_consecutive cb),
               bc_window := (if bc_window cb = 0 then bc_window d else bc_window cb),
               bc_threshold := (if bc_threshold cb = 0 then bc_threshold d else bc_threshold cb),
               bc_cooldown := (if bc_cooldown cb = 0 then bc_cooldown d else bc_cooldown cb),
               bc_probes := (if bc_probes cb = 0 then bc_probes d else bc_probes cb)\<rparr>,
             cf_cost := co\<lparr>cc_window := (if cc_window co = 0 then day else cc_window co)\<rparr>\<rparr>)"

section \<open>Layers\<close>

datatype yaml = YMap "(string \<times> yaml) list" | YLeaf string

fun deep_merge :: "yaml gomap \<Rightarrow> yaml gomap \<Rightarrow> yaml gomap" where
  "deep_merge dst [] = dst"
| "deep_merge dst ((k, sv) # src) =
     deep_merge
       (AList.update k
         (case sv of
            YLeaf _ \<Rightarrow> sv
          | YMap sm \<Rightarrow> (case map_of dst k of Some (YMap dm) \<Rightarrow> YMap (deep_merge dm sm) | _ \<Rightarrow> sv)) dst) src"

section \<open>Time windows\<close>

record zone =
  zn_day :: "instant \<Rightarrow> int"
  zn_date :: "int \<Rightarrow> int \<Rightarrow> int \<Rightarrow> instant"

definition hour :: int where "hour = 3600 * second"
definition minute :: int where "minute = 60 * second"

definition fixed_zone :: "int \<Rightarrow> zone" where
  \<comment> \<open>an offset in nanoseconds east of UTC\<close>
  "fixed_zone off = \<lparr>zn_day = (\<lambda>t. (t + off) div day), zn_date = (\<lambda>d h m. d * day + h * hour + m * minute - off)\<rparr>"

definition utc :: zone where "utc = fixed_zone 0"

definition weekday_abbr :: "int \<Rightarrow> string" where
  \<comment> \<open>the weekday of a civil day; day 0 of the calendar is a Monday\<close>
  "weekday_abbr d = [''Sun'', ''Mon'', ''Tue'', ''Wed'', ''Thu'', ''Fri'', ''Sat''] ! nat ((d + 1) mod 7)"

definition day_matches :: "string list \<Rightarrow> int \<Rightarrow> bool" where
  "day_matches days d = (days = [] \<or> weekday_abbr d \<in> set days)"

definition atoi :: "string \<Rightarrow> int option" where
  \<comment> \<open>\<^verbatim>\<open>strconv.Atoi\<close>\<close>
  "atoi s =
     (let neg = (s \<noteq> [] \<and> hd s = CHR ''-'');
          ds = (if s \<noteq> [] \<and> hd s \<in> {CHR ''-'', CHR ''+''} then tl s else s)
      in if ds = [] \<or> \<not> list_all is_digit ds then None
         else let v = int (parse_digits ds); w = (if neg then - v else v)
              in if min_duration \<le> w \<and> w \<le> max_duration then Some w else None)"

definition parse_hhmm :: "string \<Rightarrow> (int \<times> int) option" where
  "parse_hhmm s =
     (case split_char CHR '':'' s of
        [a, b] \<Rightarrow>
          (case (atoi a, atoi b) of
             (Some h, Some m) \<Rightarrow> (if h < 0 \<or> 23 < h \<or> m < 0 \<or> 59 < m then None else Some (h, m))
           | _ \<Rightarrow> None)
      | _ \<Rightarrow> None)"

definition window_contains :: "(string \<Rightarrow> zone option) \<Rightarrow> string \<Rightarrow> time_window \<Rightarrow> instant \<Rightarrow> bool" where
  "window_contains tz fallback w t =
     (let name = (if tw_zone w = [] then fallback else tw_zone w);
          z = (case tz name of Some z \<Rightarrow> z | None \<Rightarrow> utc);
          d = zn_day z t
      in day_matches (sh_days (tw_schedule w)) d \<and>
         (case (parse_hhmm (sh_from (tw_schedule w)), parse_hhmm (sh_to (tw_schedule w))) of
            (Some (h1, m1), Some (h2, m2)) \<Rightarrow>
              (let a = zn_date z d h1 m1; b = zn_date z d h2 m2
               in if \<not> b < a then \<not> t < a \<and> t < b else \<not> t < a \<or> t < b)
          | _ \<Rightarrow> False))"

definition active_window :: "(string \<Rightarrow> zone option) \<Rightarrow> 'f config \<Rightarrow> instant \<Rightarrow> time_window option" where
  "active_window tz cfg now = find (\<lambda>w. window_contains tz (cf_timezone cfg) w now) (cf_windows cfg)"

section \<open>Resolution\<close>

datatype route_err =
    TierUnknown string
  | ModelUnknown string
  | ProviderUnknown string string
  | NoCapable capability_req "string list"

definition resolve_binding ::
    "(string \<Rightarrow> zone option) \<Rightarrow> 'f config \<Rightarrow> string \<Rightarrow> string \<Rightarrow> instant \<Rightarrow> tier_binding option" where
  "resolve_binding tz cfg tier project now =
     (case (case active_window tz cfg now of Some w \<Rightarrow> map_of (tw_tiers w) tier | None \<Rightarrow> None) of
        Some b \<Rightarrow> Some b
      | None \<Rightarrow>
          (case (if project = [] then None
                 else case map_of (cf_projects cfg) project of Some po \<Rightarrow> map_of po tier | None \<Rightarrow> None) of
             Some b \<Rightarrow> Some b
           | None \<Rightarrow> map_of (cf_tiers cfg) tier))"

definition build_target :: "'f config \<Rightarrow> string \<Rightarrow> (route_err, 'f target) result" where
  "build_target cfg slug =
     (case map_of (cf_models cfg) slug of
        None \<Rightarrow> Fail (ModelUnknown slug)
      | Some m \<Rightarrow>
          (case map_of (cf_providers cfg) (mo_provider m) of
             None \<Rightarrow> Fail (ProviderUnknown (mo_provider m) slug)
           | Some p \<Rightarrow> Ok \<lparr>tg_provider = mo_provider m, tg_model = slug, tg_base_url = pv_base_url p,
                            tg_shape = pv_shape p, tg_caps = mo_caps m, tg_pricing = mo_pricing m\<rparr>))"

definition satisfies :: "capability_profile \<Rightarrow> capability_req \<Rightarrow> bool" where
  "satisfies caps req =
     (\<not> (rq_tools req \<and> \<not> cp_tools caps) \<and> \<not> (rq_streaming req \<and> \<not> cp_streaming caps) \<and>
      \<not> (rq_thinking req \<and> \<not> cp_thinking caps))"

fun first_capable :: "capability_req \<Rightarrow> 'f target list \<Rightarrow> ('f target \<times> 'f target list) option" where
  "first_capable req [] = None"
| "first_capable req (c # cs) = (if satisfies (tg_caps c) req then Some (c, cs) else first_capable req cs)"

definition apply_capability_gate ::
    "'f target \<Rightarrow> 'f target list \<Rightarrow> capability_req \<Rightarrow> (route_err, 'f target \<times> 'f target list) result" where
  "apply_capability_gate primary fallback req =
     (if req = zero_req then Ok (primary, fallback)
      else (case first_capable req (primary # fallback) of
              Some r \<Rightarrow> Ok r
            | None \<Rightarrow> Fail (NoCapable req (map tg_model (primary # fallback)))))"

fun build_targets :: "'f config \<Rightarrow> string list \<Rightarrow> (route_err, 'f target list) result" where
  "build_targets cfg [] = Ok []"
| "build_targets cfg (slug # slugs) =
     (case build_target cfg slug of
        Fail e \<Rightarrow> Fail e
      | Ok t \<Rightarrow> (case build_targets cfg slugs of Fail e \<Rightarrow> Fail e | Ok ts \<Rightarrow> Ok (t # ts)))"

definition resolve ::
    "(string \<Rightarrow> zone option) \<Rightarrow> 'f config \<Rightarrow> string \<Rightarrow> string \<Rightarrow> instant \<Rightarrow> capability_req \<Rightarrow>
     (route_err, 'f target \<times> 'f target list) result" where
  "resolve tz cfg tier project now req =
     (case resolve_binding tz cfg tier project now of
        None \<Rightarrow> Fail (TierUnknown tier)
      | Some b \<Rightarrow>
          (case build_target cfg (tb_model b) of
             Fail e \<Rightarrow> Fail e
           | Ok primary \<Rightarrow>
               (case build_targets cfg (tb_fallback b) of
                  Fail e \<Rightarrow> Fail e
                | Ok fallbacks \<Rightarrow> apply_capability_gate primary fallbacks req)))"

section \<open>Validation\<close>

datatype binding_label = InTier string | InWindow string string | InProject string string

datatype capability = ToolCalling | Streaming | ExtendedThinking

datatype violation =
    DanglingModel binding_label string
  | DanglingFallback binding_label string
  | CapabilityLost binding_label capability string string
  | DanglingProvider string string
  | UnknownShape string string
  | DanglingDegrade string

datatype config_warning = NoCredential string

definition sorted_keys :: "'v gomap \<Rightarrow> string list" where
  "sorted_keys m = sort (remdups (map fst m))"

definition caps_lost :: "binding_label \<Rightarrow> string \<Rightarrow> string \<Rightarrow> capability_profile \<Rightarrow> capability_profile \<Rightarrow> violation list" where
  "caps_lost label model fb pcap fcap =
     (if cp_tools pcap \<and> \<not> cp_tools fcap then [CapabilityLost label ToolCalling model fb] else []) @
     (if cp_streaming pcap \<and> \<not> cp_streaming fcap then [CapabilityLost label Streaming model fb] else []) @
     (if cp_thinking pcap \<and> \<not> cp_thinking fcap then [CapabilityLost label ExtendedThinking model fb] else [])"

definition check_binding :: "'f config \<Rightarrow> binding_label \<Rightarrow> tier_binding \<Rightarrow> violation list" where
  "check_binding cfg label b =
     (let primary = map_of (cf_models cfg) (tb_model b)
      in (if primary = None then [DanglingModel label (tb_model b)] else []) @
         concat (map (\<lambda>fb. case map_of (cf_models cfg) fb of
                            None \<Rightarrow> [DanglingFallback label fb]
                          | Some f \<Rightarrow> (case primary of None \<Rightarrow> [] | Some p \<Rightarrow> caps_lost label (tb_model b) fb (mo_caps p) (mo_caps f)))
                     (tb_fallback b)))"

definition check_tiers :: "'f config \<Rightarrow> (string \<Rightarrow> binding_label) \<Rightarrow> tier_binding gomap \<Rightarrow> violation list" where
  "check_tiers cfg label tiers =
     concat (map (\<lambda>tier. case map_of tiers tier of Some b \<Rightarrow> check_binding cfg (label tier) b | None \<Rightarrow> []) (sorted_keys tiers))"

definition sorted_window_names :: "time_window list \<Rightarrow> string list" where
  "sorted_window_names ws = sort (map tw_name ws)"

definition window_by_name :: "time_window list \<Rightarrow> string \<Rightarrow> time_window" where
  \<comment> \<open>the first of that name; the zero window when there is none\<close>
  "window_by_name ws name =
     (case find (\<lambda>w. tw_name w = name) ws of
        Some w \<Rightarrow> w
      | None \<Rightarrow> \<lparr>tw_name = [], tw_zone = [], tw_schedule = \<lparr>sh_from = [], sh_to = [], sh_days = []\<rparr>, tw_tiers = []\<rparr>)"

definition validate :: "'f config \<Rightarrow> config_warning list \<times> violation list" where
  "validate cfg =
     (map NoCredential
        (filter (\<lambda>slug. case map_of (cf_providers cfg) slug of
                          Some p \<Rightarrow> pv_api_key p = [] \<and> pv_api_key_env p = [] | None \<Rightarrow> False)
           (sorted_keys (cf_providers cfg))),
      check_tiers cfg InTier (cf_tiers cfg) @
      concat (map (\<lambda>name. check_tiers cfg (InWindow name) (tw_tiers (window_by_name (cf_windows cfg) name)))
                  (sorted_window_names (cf_windows cfg))) @
      concat (map (\<lambda>proj. case map_of (cf_projects cfg) proj of
                            Some po \<Rightarrow> check_tiers cfg (InProject proj) po | None \<Rightarrow> [])
                  (sorted_keys (cf_projects cfg))) @
      concat (map (\<lambda>slug. case map_of (cf_models cfg) slug of
                            Some m \<Rightarrow> (if map_of (cf_providers cfg) (mo_provider m) = None
                                       then [DanglingProvider slug (mo_provider m)] else [])
                          | None \<Rightarrow> [])
                  (sorted_keys (cf_models cfg))) @
      concat (map (\<lambda>slug. case map_of (cf_providers cfg) slug of
                            Some p \<Rightarrow> (if pv_shape p \<notin> {''anthropic'', ''openai''} then [UnknownShape slug (pv_shape p)] else [])
                          | None \<Rightarrow> [])
                  (sorted_keys (cf_providers cfg))) @
      (if cc_degrade (cf_cost cfg) \<noteq> [] \<and> map_of (cf_tiers cfg) (cc_degrade (cf_cost cfg)) = None
       then [DanglingDegrade (cc_degrade (cf_cost cfg))] else []))"

section \<open>Breakers over the chain\<close>

type_synonym model_key = "string \<times> string"

definition add_breaker ::
    "'f \<Rightarrow> 'f::{zero,ord} config \<Rightarrow> (model_key \<rightharpoonup> 'f breaker) \<Rightarrow> string \<Rightarrow> (model_key \<rightharpoonup> 'f breaker)" where
  "add_breaker half cfg bs slug =
     (case map_of (cf_models cfg) slug of
        None \<Rightarrow> bs
      | Some m \<Rightarrow> (if bs (mo_provider m, slug) = None
                    then bs((mo_provider m, slug) \<mapsto> Circuit (new_circuit_breaker half (cf_breaker cfg))) else bs))"

definition binding_slugs :: "tier_binding gomap \<Rightarrow> string list" where
  "binding_slugs tiers = concat (map (\<lambda>(k, b). tb_model b # tb_fallback b) tiers)"

definition new_breakers_map :: "'f \<Rightarrow> 'f::{zero,ord} config \<Rightarrow> (model_key \<rightharpoonup> 'f breaker)" where
  "new_breakers_map half cfg =
     foldl (add_breaker half cfg) Map.empty
       (binding_slugs (cf_tiers cfg) @ concat (map (binding_slugs \<circ> tw_tiers) (cf_windows cfg)) @
        concat (map (binding_slugs \<circ> snd) (cf_projects cfg)))"

fun first_allowed ::
    "'f target list \<Rightarrow> (model_key \<rightharpoonup> 'f breaker) \<Rightarrow> instant \<Rightarrow>
     (nat \<times> 'f target) option \<times> (model_key \<rightharpoonup> 'f breaker)" where
  \<comment> \<open>the position of the pick; the walk is demoted when it is not 0\<close>
  "first_allowed [] bs now = (None, bs)"
| "first_allowed (c # cs) bs now =
     (case bs (tg_provider c, tg_model c) of
        None \<Rightarrow> (Some (0, c), bs)
      | Some b \<Rightarrow>
          (let (ok, b') = if_allow now b; bs' = bs((tg_provider c, tg_model c) \<mapsto> b')
           in if ok then (Some (0, c), bs') else map_prod (map_option (map_prod Suc id)) id (first_allowed cs bs' now)))"

datatype route_note = CrossProvider string string | DemotedTo string string | NoneAllowed string

definition resolve_subagent_model ::
    "(string \<Rightarrow> zone option) \<Rightarrow> 'f config option \<Rightarrow> string \<Rightarrow> bool \<Rightarrow> (model_key \<rightharpoonup> 'f breaker) \<Rightarrow> instant \<Rightarrow>
     string \<times> route_note list" where
  \<comment> \<open>the boolean: the map of breakers is not empty\<close>
  "resolve_subagent_model tz cfg session_provider some_breakers bs now =
     (case cfg of
        None \<Rightarrow> ([], [])
      | Some cfg \<Rightarrow>
          (case resolve tz cfg ''light'' [] now zero_req of
             Fail _ \<Rightarrow> ([], [])
           | Ok (primary, fallbacks) \<Rightarrow>
               if tg_provider primary \<noteq> session_provider then ([], [CrossProvider (tg_provider primary) session_provider])
               else if \<not> some_breakers then (tg_model primary, [])
               else
                 (let chain = primary # filter (\<lambda>fb. tg_provider fb = session_provider) fallbacks;
                      pick = fst (first_allowed chain bs now)
                  in case pick of
                       Some (Suc i, t) \<Rightarrow>
                         if tg_model t \<noteq> [] then (tg_model t, [DemotedTo (tg_model primary) (tg_model t)])
                         else (tg_model primary, [NoneAllowed session_provider])
                     | Some (0, t) \<Rightarrow> (tg_model primary, if tg_model t = [] then [NoneAllowed session_provider] else [])
                     | None \<Rightarrow> (tg_model primary, [NoneAllowed session_provider]))))"

end
