(* ===== verification/RoutingProps.thy ===== *)
theory RoutingProps
  imports Routing
begin

text \<open>
  What the configuration of model routing promises: a validated configuration resolves, a window is
  its interval of the day, a written layer is read back, and the subagent model stays on the
  session's provider.
\<close>

section \<open>Validated configurations\<close>

definition violations :: "'f config \<Rightarrow> violation list" where
  "violations cfg = snd (validate cfg)"

lemma set_sorted_keys: "set (sorted_keys m) = fst ` set m"
  by (simp add: sorted_keys_def)

lemma keys_checked:
  assumes "concat (map (\<lambda>k. case map_of m k of Some v \<Rightarrow> f k v | None \<Rightarrow> []) (sorted_keys m)) = []" "map_of m k = Some v"
  shows "f k v = []"
proof -
  have "k \<in> set (sorted_keys m)" using assms(2) by (auto simp: set_sorted_keys dest: map_of_SomeD intro: rev_image_eqI)
  with assms show ?thesis by fastforce
qed

lemma check_tiers_clean: "check_tiers cfg label tiers = [] \<Longrightarrow> map_of tiers tier = Some b \<Longrightarrow> check_binding cfg (label tier) b = []"
  unfolding check_tiers_def by (rule keys_checked[where f = "\<lambda>k. check_binding cfg (label k)"])

lemma window_by_name_same:
  assumes "w \<in> set ws" "distinct (map tw_name ws)"
  shows "window_by_name ws (tw_name w) = w"
  using assms by (induction ws) (auto simp: window_by_name_def image_iff)

lemma active_windowD: "active_window tz cfg now = Some w \<Longrightarrow> w \<in> set (cf_windows cfg)"
  by (auto simp: active_window_def find_Some_iff)

lemma violations_parts:
  assumes "violations cfg = []"
  shows "check_tiers cfg InTier (cf_tiers cfg) = []"
    and "\<And>w. w \<in> set (cf_windows cfg) \<Longrightarrow>
      check_tiers cfg (InWindow (tw_name w)) (tw_tiers (window_by_name (cf_windows cfg) (tw_name w))) = []"
    and "\<And>p po. map_of (cf_projects cfg) p = Some po \<Longrightarrow> check_tiers cfg (InProject p) po = []"
    and "\<And>slug m. map_of (cf_models cfg) slug = Some m \<Longrightarrow> map_of (cf_providers cfg) (mo_provider m) \<noteq> None"
    and "cc_degrade (cf_cost cfg) \<noteq> [] \<Longrightarrow> map_of (cf_tiers cfg) (cc_degrade (cf_cost cfg)) \<noteq> None"
proof -
  note v = assms[unfolded violations_def validate_def snd_conv append_is_Nil_conv]
  show "check_tiers cfg InTier (cf_tiers cfg) = []" using v by (rule conjunct1)
  show "check_tiers cfg (InWindow (tw_name w)) (tw_tiers (window_by_name (cf_windows cfg) (tw_name w))) = []"
    if "w \<in> set (cf_windows cfg)" for w
    using v[THEN conjunct2, THEN conjunct1] that by (simp add: sorted_window_names_def)
  show "check_tiers cfg (InProject p) po = []" if "map_of (cf_projects cfg) p = Some po" for p po
    using keys_checked[OF v[THEN conjunct2, THEN conjunct2, THEN conjunct1] that] .
  show "map_of (cf_providers cfg) (mo_provider m) \<noteq> None" if "map_of (cf_models cfg) slug = Some m" for slug m
    using keys_checked[OF v[THEN conjunct2, THEN conjunct2, THEN conjunct2, THEN conjunct1] that] by (auto split: if_splits)
  show "map_of (cf_tiers cfg) (cc_degrade (cf_cost cfg)) \<noteq> None" if "cc_degrade (cf_cost cfg) \<noteq> []"
    using v that by (auto split: if_splits)
qed

lemma binding_checked:
  assumes "violations cfg = []" "distinct (map tw_name (cf_windows cfg))" "resolve_binding tz cfg tier project now = Some b"
  shows "\<exists>label. check_binding cfg label b = []"
proof -
  note v = violations_parts[OF assms(1)]
  have w: "\<exists>label. check_binding cfg label b = []" if "active_window tz cfg now = Some w" "map_of (tw_tiers w) tier = Some b" for w
  proof -
    have "w \<in> set (cf_windows cfg)" by (rule active_windowD[OF that(1)])
    then have "check_tiers cfg (InWindow (tw_name w)) (tw_tiers w) = []"
      using v(2) window_by_name_same[OF _ assms(2)] by fastforce
    then show ?thesis using check_tiers_clean that(2) by blast
  qed
  have p: "\<exists>label. check_binding cfg label b = []" if "map_of (cf_projects cfg) project = Some po" "map_of po tier = Some b" for po
    using check_tiers_clean[OF v(3)[OF that(1)] that(2)] by blast
  have t: "\<exists>label. check_binding cfg label b = []" if "map_of (cf_tiers cfg) tier = Some b"
    using check_tiers_clean[OF v(1) that] by blast
  show ?thesis using assms(3) w p t by (auto simp: resolve_binding_def split: option.splits if_splits)
qed

lemma check_binding_clean:
  assumes "check_binding cfg label b = []"
  shows "\<exists>p. map_of (cf_models cfg) (tb_model b) = Some p \<and>
    (\<forall>fb \<in> set (tb_fallback b). \<exists>f. map_of (cf_models cfg) fb = Some f \<and>
       (cp_tools (mo_caps p) \<longrightarrow> cp_tools (mo_caps f)) \<and> (cp_streaming (mo_caps p) \<longrightarrow> cp_streaming (mo_caps f)) \<and>
       (cp_thinking (mo_caps p) \<longrightarrow> cp_thinking (mo_caps f)))"
  using assms by (fastforce simp: check_binding_def Let_def caps_lost_def split: option.splits if_splits)

definition providers_declared :: "'f config \<Rightarrow> bool" where
  "providers_declared cfg =
     (\<forall>slug m. map_of (cf_models cfg) slug = Some m \<longrightarrow> map_of (cf_providers cfg) (mo_provider m) \<noteq> None)"

lemma build_target_declared:
  assumes "providers_declared cfg" "map_of (cf_models cfg) slug = Some m"
  shows "\<exists>t. build_target cfg slug = Ok t \<and> tg_model t = slug \<and> tg_caps t = mo_caps m"
proof -
  obtain p where "map_of (cf_providers cfg) (mo_provider m) = Some p" using assms by (auto simp: providers_declared_def)
  then show ?thesis using assms(2) by (simp add: build_target_def)
qed

lemma build_targets_declared:
  assumes "providers_declared cfg" "\<forall>s \<in> set slugs. \<exists>m. map_of (cf_models cfg) s = Some m \<and> P (mo_caps m)"
  shows "\<exists>ts. build_targets cfg slugs = Ok ts \<and> map tg_model ts = slugs \<and> (\<forall>t \<in> set ts. P (tg_caps t))"
  using assms(2)
proof (induction slugs)
  case (Cons s slugs)
  then obtain m where m: "map_of (cf_models cfg) s = Some m" "P (mo_caps m)" by auto
  obtain t where t: "build_target cfg s = Ok t" "tg_model t = s" "tg_caps t = mo_caps m"
    using build_target_declared[OF assms(1) m(1)] by blast
  obtain ts where "build_targets cfg slugs = Ok ts" "map tg_model ts = slugs" "\<forall>t \<in> set ts. P (tg_caps t)" using Cons by auto
  with t m show ?case by simp
qed simp

lemma gate_keeps_capable: "satisfies (tg_caps p) req \<Longrightarrow> apply_capability_gate p fs req = Ok (p, fs)"
  by (simp add: apply_capability_gate_def)


section \<open>The capability gate\<close>

lemma first_capable_Some:
  "first_capable req cs = Some (c, rest) \<longleftrightarrow>
     (\<exists>skipped. cs = skipped @ c # rest \<and> satisfies (tg_caps c) req \<and> (\<forall>s \<in> set skipped. \<not> satisfies (tg_caps s) req))"
proof (induction cs)
  case (Cons a cs)
  show ?case
  proof (cases "satisfies (tg_caps a) req")
    case True
    then show ?thesis by (auto simp: Cons_eq_append_conv)
  next
    case False
    then show ?thesis using Cons by (auto simp: Cons_eq_append_conv intro: exI[of _ "a # _"])
  qed
qed simp

lemma first_capable_None: "first_capable req cs = None \<longleftrightarrow> (\<forall>c \<in> set cs. \<not> satisfies (tg_caps c) req)"
  by (induction cs) auto

section \<open>Time windows\<close>

definition time_of_day :: "int \<Rightarrow> int \<Rightarrow> int" where
  "time_of_day h m = h * hour + m * minute"

lemma day_split: "(t::int) = t div day * day + t mod day"
  by (simp add: mult.commute)

lemma window_interval:
  assumes "tz (if tw_zone w = [] then fallback else tw_zone w) = Some (fixed_zone off)"
    and "parse_hhmm (sh_from (tw_schedule w)) = Some (h1, m1)" "parse_hhmm (sh_to (tw_schedule w)) = Some (h2, m2)"
  shows "window_contains tz fallback w t \<longleftrightarrow>
    day_matches (sh_days (tw_schedule w)) ((t + off) div day) \<and>
    (let x = (t + off) mod day; a = time_of_day h1 m1; b = time_of_day h2 m2
     in if a \<le> b then a \<le> x \<and> x < b else a \<le> x \<or> x < b)"
proof -
  let ?d = "(t + off) div day" and ?x = "(t + off) mod day"
  have t: "t = ?d * day + ?x - off" using day_split[of "t + off"] by linarith
  have a: "zn_date (fixed_zone off) ?d h m = ?d * day + time_of_day h m - off" for h m
    by (simp add: fixed_zone_def time_of_day_def)
  have d: "zn_day (fixed_zone off) t = ?d" by (simp add: fixed_zone_def)
  have lt: "t < ?d * day + y - off \<longleftrightarrow> ?x < y" for y using t by linarith
  show ?thesis
    unfolding window_contains_def Let_def assms option.case prod.case d a
    by (simp add: lt not_less)
qed

text \<open>In a zone of fixed offset a window is active exactly on its days and in its interval of the local
day: from the first minute up to but without the last one, or, when the end is before the start,
around midnight.\<close>

theorem window_is_interval:
  assumes "tz (if tw_zone w = [] then fallback else tw_zone w) = Some (fixed_zone off)"
    and "parse_hhmm (sh_from (tw_schedule w)) = Some (h1, m1)" "parse_hhmm (sh_to (tw_schedule w)) = Some (h2, m2)"
  shows "window_contains tz fallback w t \<longleftrightarrow>
    day_matches (sh_days (tw_schedule w)) ((t + off) div day) \<and>
    (let x = (t + off) mod day; a = time_of_day h1 m1; b = time_of_day h2 m2
     in if a \<le> b then a \<le> x \<and> x < b else a \<le> x \<or> x < b)"
  by (rule window_interval[where tz = tz and w = w and fallback = fallback and off = off, OF assms])

lemma windows_partition_day:
  assumes "tz fallback = Some (fixed_zone off)" "parse_hhmm x = Some (h1, m1)" "parse_hhmm y = Some (h2, m2)"
    and "time_of_day h1 m1 \<noteq> time_of_day h2 m2" "tw_zone w = []" "sh_days (tw_schedule w) = []"
  shows "window_contains tz fallback (w\<lparr>tw_schedule := (tw_schedule w)\<lparr>sh_from := x, sh_to := y\<rparr>\<rparr>) t \<longleftrightarrow>
    \<not> window_contains tz fallback (w\<lparr>tw_schedule := (tw_schedule w)\<lparr>sh_from := y, sh_to := x\<rparr>\<rparr>) t"
proof -
  let ?w1 = "w\<lparr>tw_schedule := (tw_schedule w)\<lparr>sh_from := x, sh_to := y\<rparr>\<rparr>"
    and ?w2 = "w\<lparr>tw_schedule := (tw_schedule w)\<lparr>sh_from := y, sh_to := x\<rparr>\<rparr>"
  have 1: "tz (if tw_zone ?w1 = [] then fallback else tw_zone ?w1) = Some (fixed_zone off)"
    "parse_hhmm (sh_from (tw_schedule ?w1)) = Some (h1, m1)" "parse_hhmm (sh_to (tw_schedule ?w1)) = Some (h2, m2)"
    using assms by simp_all
  have 2: "tz (if tw_zone ?w2 = [] then fallback else tw_zone ?w2) = Some (fixed_zone off)"
    "parse_hhmm (sh_from (tw_schedule ?w2)) = Some (h2, m2)" "parse_hhmm (sh_to (tw_schedule ?w2)) = Some (h1, m1)"
    using assms by simp_all
  have i: "window_contains tz fallback w t \<longleftrightarrow>
      day_matches (sh_days (tw_schedule w)) ((t + off) div day) \<and>
      (let x = (t + off) mod day; a = time_of_day h1 m1; b = time_of_day h2 m2
       in if a \<le> b then a \<le> x \<and> x < b else a \<le> x \<or> x < b)"
    if "tz (if tw_zone w = [] then fallback else tw_zone w) = Some (fixed_zone off)"
      "parse_hhmm (sh_from (tw_schedule w)) = Some (h1, m1)" "parse_hhmm (sh_to (tw_schedule w)) = Some (h2, m2)" for w h1 m1 h2 m2
    by (rule window_interval[where tz = tz and w = w and fallback = fallback and off = off, OF that])
  show ?thesis unfolding i[OF 1] i[OF 2] using assms(4,6) by (auto simp: day_matches_def Let_def)
qed

lemma equal_ends_never_active:
  "tz (if tw_zone w = [] then fallback else tw_zone w) = Some (fixed_zone off) \<Longrightarrow> sh_from (tw_schedule w) = sh_to (tw_schedule w) \<Longrightarrow>
     \<not> window_contains tz fallback w t"
  by (auto simp: window_contains_def Let_def split: option.splits)

section \<open>Layers\<close>

fun ypath :: "string list \<Rightarrow> yaml gomap \<Rightarrow> yaml option" where
  "ypath [] m = Some (YMap m)"
| "ypath (k # ks) m =
     (case map_of m k of
        None \<Rightarrow> None
      | Some v \<Rightarrow> (case v of YMap sub \<Rightarrow> ypath ks sub | YLeaf _ \<Rightarrow> (if ks = [] then Some v else None)))"

fun wf_map :: "yaml gomap \<Rightarrow> bool" where
  \<comment> \<open>the keys of a Go map are distinct\<close>
  "wf_map [] = True"
| "wf_map ((k, v) # m) = (k \<notin> fst ` set m \<and> (case v of YMap sub \<Rightarrow> wf_map sub | YLeaf _ \<Rightarrow> True) \<and> wf_map m)"

fun untouched :: "string list \<Rightarrow> yaml gomap \<Rightarrow> bool" where
  \<comment> \<open>the layer sets nothing at, above or below the path\<close>
  "untouched [] src = False"
| "untouched (k # ks) src =
     (case map_of src k of
        None \<Rightarrow> True
      | Some (YMap sub) \<Rightarrow> untouched ks sub
      | Some (YLeaf _) \<Rightarrow> False)"

definition overlay :: "yaml option \<Rightarrow> yaml \<Rightarrow> yaml" where
  "overlay old v = (case v of YLeaf _ \<Rightarrow> v
     | YMap sm \<Rightarrow> (case old of Some (YMap dm) \<Rightarrow> YMap (deep_merge dm sm) | _ \<Rightarrow> v))"

lemma map_of_deep_merge:
  assumes "distinct (map fst src)"
  shows "map_of (deep_merge dst src) k =
    (case map_of src k of None \<Rightarrow> map_of dst k | Some v \<Rightarrow> Some (overlay (map_of dst k) v))"
  using assms
proof (induction src arbitrary: dst)
  case (Cons kv src dst)
  obtain k' v where kv: "kv = (k', v)" by (rule prod.exhaust)
  have s: "deep_merge dst ((k', v) # src) = deep_merge (AList.update k' (overlay (map_of dst k') v) dst) src"
    by (simp add: overlay_def)
  have u: "map_of (AList.update k' x dst) k = (if k = k' then Some x else map_of dst k)" for x
    by (simp add: AList.update_conv')
  have "map_of src k' = None" using Cons.prems by (simp add: kv map_of_eq_None_iff)
  moreover have "distinct (map fst src)" using Cons.prems by simp
  ultimately show ?case
    unfolding kv s Cons.IH[OF \<open>distinct (map fst src)\<close>] u by (simp split: option.split)
qed simp

lemma wf_map_distinct: "wf_map m \<Longrightarrow> distinct (map fst m)"
  by (induction m rule: wf_map.induct) auto

lemma wf_map_sub: "wf_map m \<Longrightarrow> map_of m k = Some (YMap sub) \<Longrightarrow> wf_map sub"
  by (induction m rule: wf_map.induct) (auto split: if_splits yaml.splits)

lemma untouched_absent: "untouched ks m \<Longrightarrow> ypath ks m = None"
  by (induction ks m rule: untouched.induct) (auto split: option.splits yaml.splits)

text \<open>Layers merge as an overlay: whatever a layer sets at a key path is read back from the merged
configuration, and a path the layer does not touch keeps what the lower layers say.\<close>

theorem merged_layer_reads_back:
  assumes "wf_map src"
  shows "(ypath path src = Some (YLeaf v) \<longrightarrow> ypath path (deep_merge dst src) = Some (YLeaf v)) \<and>
    (untouched path src \<longrightarrow> ypath path (deep_merge dst src) = ypath path dst)"
  using assms
proof (induction path arbitrary: dst src)
  case (Cons k ks dst src)
  note m = map_of_deep_merge[OF wf_map_distinct[OF Cons.prems], of dst k]
  show ?case
  proof (cases "map_of src k")
    case (Some sv)
    show ?thesis
    proof (cases sv)
      case (YMap sub)
      note wf = wf_map_sub[OF Cons.prems Some[unfolded YMap]]
      have un: "untouched ks sub \<longrightarrow> ks \<noteq> [] \<and> ypath ks sub = None" using untouched_absent[of ks sub] by (cases ks) simp_all
      show ?thesis
      proof (cases "map_of dst k")
        case None
        show ?thesis using m Some YMap None un by (auto simp: overlay_def)
      next
        case (Some old)
        show ?thesis using m \<open>map_of src k = Some sv\<close> YMap Some Cons.IH[OF wf] un
          by (cases old) (auto simp: overlay_def)
      qed
    qed (use m Some in \<open>auto simp: overlay_def\<close>)
  qed (use m in simp)
qed simp

section \<open>The subagent model\<close>

definition declared_on :: "'f config \<Rightarrow> 'f target \<Rightarrow> bool" where
  "declared_on cfg t = (\<exists>m. map_of (cf_models cfg) (tg_model t) = Some m \<and> mo_provider m = tg_provider t)"

lemma build_target_sound: "build_target cfg slug = Ok t \<Longrightarrow> declared_on cfg t"
  by (auto simp: build_target_def declared_on_def split: option.splits)

lemma build_targets_sound: "build_targets cfg slugs = Ok ts \<Longrightarrow> \<forall>t \<in> set ts. declared_on cfg t"
  by (induction slugs arbitrary: ts) (auto simp: build_target_sound split: sum.splits)

lemma resolve_sound:
  assumes "resolve tz cfg tier project now req = Ok (p, fs)"
  shows "\<forall>t \<in> set (p # fs). declared_on cfg t"
proof -
  obtain b :: tier_binding and p0 fs0 where "build_target cfg (tb_model b) = Ok p0" "build_targets cfg (tb_fallback b) = Ok fs0"
    "apply_capability_gate p0 fs0 req = Ok (p, fs)"
    using assms by (auto simp: resolve_def split: option.splits sum.splits)
  moreover from this have "set (p # fs) \<subseteq> set (p0 # fs0)"
    by (auto simp: apply_capability_gate_def first_capable_Some Cons_eq_append_conv split: if_splits option.splits)
  ultimately show ?thesis using build_target_sound build_targets_sound by fastforce
qed

lemma first_allowed_member: "fst (first_allowed cs bs now) = Some (i, t) \<Longrightarrow> i < length cs \<and> cs ! i = t"
proof (induction cs arbitrary: bs i)
  case (Cons c cs)
  show ?case
  proof (cases "i = 0")
    case True
    then show ?thesis using Cons.prems by (auto simp: Let_def split: option.splits prod.splits if_splits)
  next
    case False
    then obtain bs' j where "i = Suc j" "fst (first_allowed cs bs' now) = Some (j, t)"
      using Cons.prems by (auto simp: Let_def split: option.splits prod.splits if_splits)
    with Cons.IH show ?thesis by simp
  qed
qed simp

text \<open>The model of a subagent never leaves the session's wire: whatever the breakers say, the slug is empty
(the parent's model) or declared on the session's own provider.\<close>

theorem subagent_model_on_session_provider:
  "let slug = fst (resolve_subagent_model tz (Some cfg) session_provider some_breakers bs now)
   in slug = [] \<or> (\<exists>m. map_of (cf_models cfg) slug = Some m \<and> mo_provider m = session_provider)"
proof (cases "resolve tz cfg ''light'' [] now zero_req")
  case (Inr r)
  obtain p fs where r: "r = (p, fs)" by (rule prod.exhaust)
  note d = resolve_sound[OF Inr[unfolded r]]
  show ?thesis
  proof (cases "tg_provider p = session_provider")
    case True
    let ?chain = "p # filter (\<lambda>fb. tg_provider fb = session_provider) fs"
    have m: "\<exists>m. map_of (cf_models cfg) (tg_model t) = Some m \<and> mo_provider m = session_provider" if "t \<in> set ?chain" for t
      using d that True by (auto simp: declared_on_def)
    have "\<exists>t \<in> set ?chain. fst (resolve_subagent_model tz (Some cfg) session_provider some_breakers bs now) = tg_model t"
    proof (cases "fst (first_allowed ?chain bs now)")
      case (Some pick)
      obtain i t where it: "pick = (i, t)" by (rule prod.exhaust)
      then have "t \<in> set ?chain" using first_allowed_member[OF Some[unfolded it]] nth_mem by blast
      then show ?thesis
        using Some it by (cases i) (auto simp: resolve_subagent_model_def Inr r True Let_def simp del: first_allowed.simps)
    qed (simp add: resolve_subagent_model_def Inr r True Let_def)
    with m show ?thesis by (auto simp: Let_def)
  qed (simp add: resolve_subagent_model_def Inr r)
qed (simp add: resolve_subagent_model_def)

section \<open>Examples\<close>

definition sample_caps :: capability_profile where
  "sample_caps = \<lparr>cp_context = 200000, cp_max_output = 8000, cp_tools = True, cp_streaming = True, cp_thinking = False, cp_limitations = []\<rparr>"

definition sample_model :: "int model_config" where
  "sample_model = \<lparr>mo_provider = ''zai'', mo_pricing = \<lparr>pr_input = 1, pr_output = 2\<rparr>, mo_caps = sample_caps\<rparr>"

definition sample_window :: "string \<Rightarrow> string \<Rightarrow> time_window" where
  "sample_window name model = \<lparr>tw_name = name, tw_zone = [],
     tw_schedule = \<lparr>sh_from = ''22:00'', sh_to = ''06:00'', sh_days = []\<rparr>,
     tw_tiers = [(''heavy'', \<lparr>tb_model = model, tb_fallback = [''glm-4.6'']\<rparr>)]\<rparr>"

definition sample_config :: "time_window list \<Rightarrow> int config" where
  "sample_config ws = \<lparr>cf_timezone = ''UTC'', cf_session_tier = ''heavy'',
     cf_providers = [(''zai'', \<lparr>pv_base_url = ''u'', pv_shape = ''anthropic'', pv_api_key = [], pv_api_key_env = ''ZAI'', pv_usage = []\<rparr>)],
     cf_models = [(''glm-5.2'', sample_model), (''glm-4.6'', sample_model)],
     cf_tiers = [(''heavy'', \<lparr>tb_model = ''glm-5.2'', tb_fallback = [''glm-4.6'']\<rparr>)],
     cf_windows = ws, cf_projects = [], cf_breaker = default_breaker 1,
     cf_cost = \<lparr>cc_amount = 0, cc_window = day, cc_degrade = []\<rparr>\<rparr>"

definition sample_tz :: "string \<Rightarrow> zone option" where
  "sample_tz name = Some utc"

lemma sample_valid: "violations (sample_config [sample_window ''night'' ''glm-4.6'']) = []"
  by code_simp

lemma sample_bound:
  "resolve_binding sample_tz (sample_config [sample_window ''night'' ''glm-4.6'']) ''heavy'' [] (23 * hour) =
     Some \<lparr>tb_model = ''glm-4.6'', tb_fallback = [''glm-4.6'']\<rparr>"
  by code_simp


text \<open>With two windows of one name the second one is never validated: the configuration has no violation
and the tier still does not resolve while that window is active.\<close>

lemma same_name_window_unchecked:
  "let ws = [(sample_window ''night'' ''glm-4.6'')\<lparr>tw_schedule := \<lparr>sh_from = ''01:00'', sh_to = ''02:00'', sh_days = []\<rparr>\<rparr>,
             sample_window ''night'' ''typo'']
   in violations (sample_config ws) = [] \<and>
      resolve sample_tz (sample_config ws) ''heavy'' [] (23 * hour) zero_req = Fail (ModelUnknown ''typo'')"
  by code_simp

theorem window_is_interval_witness:
  "window_contains sample_tz [] (sample_window ''night'' ''glm-4.6'') (23 * hour) \<and>
   \<not> window_contains sample_tz [] (sample_window ''night'' ''glm-4.6'') (12 * hour)"
proof -
  let ?w = "sample_window ''night'' ''glm-4.6''"
  have p: "parse_hhmm (sh_from (tw_schedule ?w)) = Some (22, 0)" "parse_hhmm (sh_to (tw_schedule ?w)) = Some (6, 0)" by code_simp+
  have z: "sample_tz (if tw_zone ?w = [] then [] else tw_zone ?w) = Some (fixed_zone 0)" by (simp add: sample_tz_def utc_def)
  have "sh_days (tw_schedule ?w) = []" by (simp add: sample_window_def)
  then show ?thesis
    using window_is_interval[where tz = sample_tz and w = ?w, OF z p, of "23 * hour"]
      window_is_interval[where tz = sample_tz and w = ?w, OF z p, of "12 * hour"]
    by (simp add: day_matches_def Let_def time_of_day_def hour_def minute_def day_def second_def)
qed

theorem merged_layer_reads_back_witness:
  "ypath [''compaction'', ''enabled''] (deep_merge [(''compaction'', YMap [(''enabled'', YLeaf ''true''), (''threshold_pct'', YLeaf ''80'')])]
      [(''compaction'', YMap [(''enabled'', YLeaf ''false'')])]) = Some (YLeaf ''false'') \<and>
   ypath [''compaction'', ''threshold_pct''] (deep_merge [(''compaction'', YMap [(''enabled'', YLeaf ''true''), (''threshold_pct'', YLeaf ''80'')])]
      [(''compaction'', YMap [(''enabled'', YLeaf ''false'')])]) = Some (YLeaf ''80'')"
proof -
  let ?src = "[(''compaction'', YMap [(''enabled'', YLeaf ''false'')])]"
  have "wf_map ?src" by simp
  note m = merged_layer_reads_back[OF this]
  have "ypath [''compaction'', ''enabled''] ?src = Some (YLeaf ''false'')" "untouched [''compaction'', ''threshold_pct''] ?src" by simp_all
  then show ?thesis using m[of "[''compaction'', ''enabled'']" "''false''"] m[of "[''compaction'', ''threshold_pct'']"] by simp
qed

end
