(* ===== verification/Dispatch.thy ===== *)
theory Dispatch
  imports RoutingProps
begin

text \<open>
  The dispatch of a request over a tier's chain, \<^verbatim>\<open>kit/modelrouting/dispatch.go\<close>, with the classification
  of provider failures of \<^verbatim>\<open>kit/provider/errors.go\<close>. The clock, the semaphore and the providers are a
  parameter: a function of how many readings, acquisitions and calls came before. A response is a
  value of a type variable.
\<close>

section \<open>Provider errors\<close>

datatype error_kind = KindTransient | KindStructural | KindExhausted

record provider_error =
  pe_kind :: error_kind
  pe_provider :: string
  pe_model :: string
  pe_status :: int
  pe_reason :: string

record go_error =
  \<comment> \<open>what errors.As and errors.Is find in the chain of an error\<close>
  ge_provider :: "provider_error option"
  ge_deadline :: bool
  ge_canceled :: bool
  ge_net_op :: bool
  ge_url :: bool

definition is_net_or_context_error :: "go_error option \<Rightarrow> bool" where
  "is_net_or_context_error err =
     (case err of None \<Rightarrow> False | Some e \<Rightarrow> ge_deadline e \<or> ge_canceled e \<or> ge_net_op e \<or> ge_url e)"

definition transient_statuses :: "int list" where
  "transient_statuses = [408, 425, 429, 500, 502, 503, 504]"

definition structural_statuses :: "int list" where
  "structural_statuses = [400, 401, 403, 404, 405, 411, 413, 422]"

definition status_reasons :: "(int \<times> string) list" where
  "status_reasons =
     [(400, ''bad request''), (401, ''unauthenticated''), (403, ''forbidden''), (404, ''not found''),
      (405, ''method not allowed''), (408, ''request timeout''), (411, ''length required''), (413, ''payload too large''),
      (422, ''unprocessable request''), (425, ''too early''), (429, ''rate limited''), (500, ''server error''),
      (502, ''bad gateway''), (503, ''service unavailable''), (504, ''gateway timeout'')]"

definition show_int :: "int \<Rightarrow> string" where
  "show_int n = (if n < 0 then CHR ''-'' # decimal (nat (- n)) else decimal (nat n))"

definition reason_for :: "(int \<Rightarrow> string) \<Rightarrow> int \<Rightarrow> go_error option \<Rightarrow> string" where
  \<comment> \<open>the first argument is \<^verbatim>\<open>http.StatusText\<close> in lower case\<close>
  "reason_for status_text status err =
     (if status \<noteq> 0 then
        (case map_of status_reasons status of
           Some r \<Rightarrow> r
         | None \<Rightarrow> if status_text status \<noteq> [] then status_text status else ''http '' @ show_int status)
      else (case err of
              Some e \<Rightarrow> if ge_deadline e then ''context deadline exceeded''
                        else if ge_canceled e then ''context canceled'' else ''transport error''
            | None \<Rightarrow> ''unknown''))"

definition classify_http :: "(int \<Rightarrow> string) \<Rightarrow> string \<Rightarrow> string \<Rightarrow> int \<Rightarrow> go_error option \<Rightarrow> provider_error" where
  "classify_http status_text prov model status err =
     (let perr = \<lparr>pe_kind = KindTransient, pe_provider = prov, pe_model = model, pe_status = status,
                  pe_reason = reason_for status_text status err\<rparr>
      in if is_net_or_context_error err then perr\<lparr>pe_kind := KindTransient\<rparr>
         else if status \<in> set transient_statuses then perr\<lparr>pe_kind := KindTransient\<rparr>
         else if status \<in> set structural_statuses then perr\<lparr>pe_kind := KindStructural\<rparr>
         else perr\<lparr>pe_kind := KindTransient\<rparr>)"

definition as_provider_error :: "(int \<Rightarrow> string) \<Rightarrow> 'f target \<Rightarrow> go_error \<Rightarrow> provider_error" where
  "as_provider_error status_text cand err =
     (case ge_provider err of
        Some perr \<Rightarrow>
          perr\<lparr>pe_provider := (if pe_provider perr = [] then tg_provider cand else pe_provider perr),
               pe_model := (if pe_model perr = [] then tg_model cand else pe_model perr)\<rparr>
      | None \<Rightarrow> classify_http status_text (tg_provider cand) (tg_model cand) 0 (Some err))"

section \<open>The scheduler\<close>

record dispatch_event =
  fe_turn :: string
  fe_from :: model_key
  fe_to :: model_key
  fe_kind :: error_kind
  fe_status :: int
  fe_reason :: string
  fe_attempt :: nat

datatype 'f cost_gate = NoCost | Ceiling "'f cost_tracker"

fun gate_check :: "instant \<Rightarrow> 'f::{zero,ord} cost_gate \<Rightarrow> cost_action \<times> 'f cost_gate" where
  "gate_check now NoCost = (CostAllow, NoCost)"
| "gate_check now (Ceiling c) = map_prod id Ceiling (check now c)"

fun gate_account :: "(int \<Rightarrow> 'f) \<Rightarrow> string \<Rightarrow> int \<Rightarrow> int \<Rightarrow> 'f::{plus,times,divide} cost_gate \<Rightarrow> 'f cost_gate" where
  "gate_account flt model i out NoCost = NoCost"
| "gate_account flt model i out (Ceiling c) = Ceiling (account flt model i out c)"

record ('f, 'r) dispatch_env =
  de_flt :: "int \<Rightarrow> 'f"
  de_status_text :: "int \<Rightarrow> string"
  de_tz :: "string \<Rightarrow> zone option"
  de_now :: "nat \<Rightarrow> instant"
  de_acquire :: "nat \<Rightarrow> string option"
  de_providers :: "string list"
  de_send :: "nat \<Rightarrow> model_key \<Rightarrow> (go_error, 'r) result"

record 'f scheduler =
  sd_breakers :: "model_key \<rightharpoonup> 'f breaker"
  sd_cost :: "'f cost_gate"
  sd_bus :: "dispatch_event list"
  sd_sends :: "model_key list"
  sd_ticks :: nat
  sd_acquired :: nat
  sd_profile_model :: string
  sd_last :: "provider_error option"
  sd_considered :: bool

datatype dispatch_err =
    RouteFailed route_err
  | SemaphoreFailed string
  | NilProvider string  \<comment> \<open>the call of a method on a nil interface panics\<close>
  | ProviderFailed provider_error
  | NoneSatisfies
  | AllSkipped

datatype 'r walk = WalkNext | WalkSwitch | WalkReturn "(dispatch_err, 'r) result"

definition key_of :: "'f target \<Rightarrow> model_key" where
  "key_of c = (tg_provider c, tg_model c)"

definition breaker_for :: "'f scheduler \<Rightarrow> 'f target \<Rightarrow> 'f breaker" where
  "breaker_for s c = (case sd_breakers s (key_of c) of Some b \<Rightarrow> b | None \<Rightarrow> NoopBreaker)"

definition put_breaker :: "'f target \<Rightarrow> 'f breaker \<Rightarrow> 'f scheduler \<Rightarrow> 'f scheduler" where
  \<comment> \<open>the map holds pointers: a change is seen where the key is registered\<close>
  "put_breaker c b s =
     (if sd_breakers s (key_of c) = None then s else s\<lparr>sd_breakers := (sd_breakers s)(key_of c \<mapsto> b)\<rparr>)"

definition call_provider ::
    "('f::{zero,plus,times,divide,ord}, 'r) dispatch_env \<Rightarrow> string \<Rightarrow> nat \<Rightarrow> 'f target option \<Rightarrow> 'f target \<Rightarrow> 'f scheduler \<Rightarrow>
     'r walk \<times> 'f scheduler" where
  \<comment> \<open>from the semaphore on; the option is the next candidate\<close>
  "call_provider env turn i next cand s =
     (case de_acquire env (sd_acquired s) of
        Some e \<Rightarrow> (WalkReturn (Fail (SemaphoreFailed e)), s)
      | None \<Rightarrow>
          (let s1 = s\<lparr>sd_acquired := sd_acquired s + 1, sd_profile_model := tg_model cand\<rparr>
           in if tg_provider cand \<notin> set (de_providers env) then (WalkReturn (Fail (NilProvider (tg_provider cand))), s1)
              else
                (let reply = de_send env (length (sd_sends s1)) (key_of cand);
                     s2 = s1\<lparr>sd_sends := sd_sends s1 @ [key_of cand]\<rparr>
                 in case reply of
                      Ok resp \<Rightarrow>
                        (WalkReturn (Ok resp),
                         (put_breaker cand (if_success (breaker_for s2 cand)) s2)
                           \<lparr>sd_cost := gate_account (de_flt env) (tg_model cand) 0 0 (sd_cost s2)\<rparr>)
                    | Fail err \<Rightarrow>
                        (let perr = as_provider_error (de_status_text env) cand err
                         in if pe_kind perr = KindStructural \<or> pe_kind perr = KindExhausted then
                              (WalkReturn (Fail (ProviderFailed perr)), s2)
                            else
                              (let s3 = (put_breaker cand (if_transient (de_flt env \<circ> int) (de_now env (sd_ticks s2)) (breaker_for s2 cand)) s2)
                                     \<lparr>sd_ticks := sd_ticks s2 + 1,
                                      sd_cost := gate_account (de_flt env) (tg_model cand) 0 0 (sd_cost s2),
                                      sd_last := Some perr\<rparr>
                               in (WalkNext,
                                   case next of
                                     None \<Rightarrow> s3
                                   | Some n \<Rightarrow> s3\<lparr>sd_bus := sd_bus s3 @ [\<lparr>fe_turn = turn, fe_from = key_of cand, fe_to = key_of n,
                                       fe_kind = pe_kind perr, fe_status = pe_status perr, fe_reason = pe_reason perr, fe_attempt = i + 1\<rparr>]\<rparr>))))))"

definition try_candidate ::
    "('f::{zero,plus,times,divide,ord}, 'r) dispatch_env \<Rightarrow> string \<Rightarrow> string \<Rightarrow> capability_req \<Rightarrow> string \<Rightarrow> bool \<Rightarrow> nat \<Rightarrow>
     'f target option \<Rightarrow> 'f target \<Rightarrow> 'f scheduler \<Rightarrow> 'r walk \<times> 'f scheduler" where
  "try_candidate env turn degrade_to req tier degraded i next cand s =
     (if req \<noteq> zero_req \<and> \<not> satisfies (tg_caps cand) req then (WalkNext, s)
      else
        (let s = s\<lparr>sd_considered := True\<rparr>;
             (ok, b) = if_allow (de_now env (sd_ticks s)) (breaker_for s cand);
             s = (put_breaker cand b s)\<lparr>sd_ticks := sd_ticks s + 1\<rparr>
         in if \<not> ok then (WalkNext, s)
            else
              (let (action, cost) = gate_check (de_now env (sd_ticks s)) (sd_cost s);
                   s = s\<lparr>sd_cost := cost, sd_ticks := sd_ticks s + 1\<rparr>
               in if action = CostHardStop then
                    (WalkReturn (Fail (ProviderFailed \<lparr>pe_kind = KindExhausted, pe_provider = tg_provider cand,
                       pe_model = tg_model cand, pe_status = 0, pe_reason = ''cost ceiling exhausted''\<rparr>)), s)
                  else if action = CostDegrade \<and> \<not> degraded \<and> degrade_to \<noteq> [] \<and> degrade_to \<noteq> tier then (WalkSwitch, s)
                  else call_provider env turn i next cand s)))"

fun walk_candidates ::
    "('f::{zero,plus,times,divide,ord}, 'r) dispatch_env \<Rightarrow> string \<Rightarrow> string \<Rightarrow> capability_req \<Rightarrow> string \<Rightarrow> bool \<Rightarrow> nat \<Rightarrow>
     'f target list \<Rightarrow> 'f scheduler \<Rightarrow> 'r walk \<times> 'f scheduler" where
  "walk_candidates env turn degrade_to req tier degraded i [] s = (WalkNext, s)"
| "walk_candidates env turn degrade_to req tier degraded i (c # cs) s =
     (case try_candidate env turn degrade_to req tier degraded i (case cs of [] \<Rightarrow> None | n # _ \<Rightarrow> Some n) c s of
        (WalkNext, s') \<Rightarrow> walk_candidates env turn degrade_to req tier degraded (i + 1) cs s'
      | r \<Rightarrow> r)"

definition dispatch_round ::
    "'f::{zero,plus,times,divide,ord} config \<Rightarrow> ('f, 'r) dispatch_env \<Rightarrow> string \<Rightarrow> string \<Rightarrow> capability_req \<Rightarrow> string \<Rightarrow> bool \<Rightarrow>
     'f scheduler \<Rightarrow> 'r walk \<times> 'f scheduler" where
  "dispatch_round cfg env turn project req tier degraded s =
     (case resolve (de_tz env) cfg tier project (de_now env (sd_ticks s)) req of
        Fail e \<Rightarrow> (WalkReturn (Fail (RouteFailed e)), s\<lparr>sd_ticks := sd_ticks s + 1\<rparr>)
      | Ok (primary, fallbacks) \<Rightarrow>
          walk_candidates env turn (cc_degrade (cf_cost cfg)) req tier degraded 0 (primary # fallbacks)
            (s\<lparr>sd_ticks := sd_ticks s + 1\<rparr>))"

definition dispatch_end :: "'f scheduler \<Rightarrow> (dispatch_err, 'r) result" where
  "dispatch_end s =
     (case sd_last s of
        Some perr \<Rightarrow> Fail (ProviderFailed perr)
      | None \<Rightarrow> if \<not> sd_considered s then Fail NoneSatisfies else Fail AllSkipped)"

partial_function (option) dispatch_loop ::
    "'f::{zero,plus,times,divide,ord} config \<Rightarrow> ('f, 'r) dispatch_env \<Rightarrow> string \<Rightarrow> string \<Rightarrow> capability_req \<Rightarrow> string \<Rightarrow> bool \<Rightarrow>
     'f scheduler \<Rightarrow> ((dispatch_err, 'r) result \<times> 'f scheduler) option" where
  "dispatch_loop cfg env turn project req tier degraded s =
     (let r = dispatch_round cfg env turn project req tier degraded s
      in if fst r = WalkSwitch then
           dispatch_loop cfg env turn project req (cc_degrade (cf_cost cfg)) True (snd r)
         else Some (case fst r of WalkReturn x \<Rightarrow> x | _ \<Rightarrow> dispatch_end (snd r), snd r))"

declare dispatch_loop.simps [code]

definition dispatch ::
    "'f::{zero,plus,times,divide,ord} config \<Rightarrow> ('f, 'r) dispatch_env \<Rightarrow> string \<Rightarrow> string \<Rightarrow> string \<Rightarrow> capability_req \<Rightarrow>
     'f scheduler \<Rightarrow> ((dispatch_err, 'r) result \<times> 'f scheduler) option" where
  "dispatch cfg env turn tier project req s =
     dispatch_loop cfg env turn project req tier False (s\<lparr>sd_last := None, sd_considered := False\<rparr>)"

end
