(* ===== verification/Outcomes.thy ===== *)
theory Outcomes
  imports Dispatch
begin

text \<open>
  The recorded dispatch outcomes, \<^verbatim>\<open>kit/modelrouting/outcomes_agg.go\<close> and the reading side of
  \<^verbatim>\<open>outcomes.go\<close>: tolerant reading, aggregation over a window of records, and the replay of the
  evidence through the breakers and the cost tracker after a restart. JSON decoding of a line is a parameter.
\<close>

section \<open>Records\<close>

record 'f dispatch_outcome =
  oc_at :: instant
  oc_provider :: string
  oc_model :: string
  oc_tier :: string
  oc_outcome :: string
  oc_fallback_used :: bool
  oc_latency :: int
  oc_in :: int
  oc_out :: int
  oc_cost :: 'f
  oc_origin :: string

definition outcome_ok :: string where "outcome_ok = ''ok''"
definition outcome_transient :: string where "outcome_transient = ''transient''"
definition outcome_structural :: string where "outcome_structural = ''structural''"
definition outcome_exhausted :: string where "outcome_exhausted = ''exhausted''"

definition has_known_shape :: "'f dispatch_outcome \<Rightarrow> bool" where
  "has_known_shape r =
     (if oc_at r = 0 \<or> oc_provider r = [] \<or> oc_model r = [] then False
      else oc_outcome r \<in> {outcome_ok, outcome_transient, outcome_structural, outcome_exhausted})"

fun read_lines :: "(string \<Rightarrow> 'f dispatch_outcome option) \<Rightarrow> string list \<Rightarrow> 'f dispatch_outcome list \<times> nat" where
  "read_lines decode [] = ([], 0)"
| "read_lines decode (line # rest) =
     (let (records, skipped) = read_lines decode rest
      in if line = [] then (records, skipped)
         else (case decode line of
                 None \<Rightarrow> (records, skipped + 1)
               | Some rec \<Rightarrow> if has_known_shape rec then (rec # records, skipped) else (records, skipped + 1)))"

definition read_outcomes :: "(string \<Rightarrow> 'f dispatch_outcome option) \<Rightarrow> string option \<Rightarrow> 'f dispatch_outcome list \<times> nat" where
  \<comment> \<open>\<open>None\<close> is a missing file; other failures of the read are errors of the caller\<close>
  "read_outcomes decode raw =
     (case raw of None \<Rightarrow> ([], 0) | Some bytes \<Rightarrow> read_lines decode (split_char (CHR 0x0A) bytes))"

definition append_outcome :: "('f dispatch_outcome \<Rightarrow> string) \<Rightarrow> 'f dispatch_outcome \<Rightarrow> string option \<Rightarrow> string option" where
  \<comment> \<open>one complete write\<close>
  "append_outcome encode rec file = Some ((case file of None \<Rightarrow> [] | Some b \<Rightarrow> b) @ encode rec @ [CHR 0x0A])"

section \<open>Aggregation and replay\<close>

record 'f aggregate_stats =
  ag_ok :: nat
  ag_transient :: nat
  ag_structural :: nat
  ag_exhausted :: nat
  ag_in :: int
  ag_out :: int
  ag_cost :: 'f

definition outcome_key :: "'f dispatch_outcome \<Rightarrow> model_key" where
  "outcome_key r = (oc_provider r, oc_model r)"

definition chronological :: "'f dispatch_outcome list \<Rightarrow> 'f dispatch_outcome list" where
  "chronological records = sort_key oc_at records"

definition tally_step :: "'f::plus aggregate_stats \<Rightarrow> 'f dispatch_outcome \<Rightarrow> 'f aggregate_stats" where
  "tally_step a r =
     (let a = (if oc_outcome r = outcome_ok then a\<lparr>ag_ok := ag_ok a + 1\<rparr>
               else if oc_outcome r = outcome_transient then a\<lparr>ag_transient := ag_transient a + 1\<rparr>
               else if oc_outcome r = outcome_structural then a\<lparr>ag_structural := ag_structural a + 1\<rparr>
               else if oc_outcome r = outcome_exhausted then a\<lparr>ag_exhausted := ag_exhausted a + 1\<rparr> else a)
      in a\<lparr>ag_in := ag_in a + oc_in r, ag_out := ag_out a + oc_out r, ag_cost := ag_cost a + oc_cost r\<rparr>)"

definition tally :: "'f::{zero,plus} dispatch_outcome list \<Rightarrow> 'f aggregate_stats" where
  "tally records =
     foldl tally_step \<lparr>ag_ok = 0, ag_transient = 0, ag_structural = 0, ag_exhausted = 0, ag_in = 0, ag_out = 0, ag_cost = 0\<rparr> records"

definition slide :: "int \<Rightarrow> (model_key \<rightharpoonup> 'f dispatch_outcome list) \<Rightarrow> 'f dispatch_outcome \<Rightarrow> (model_key \<rightharpoonup> 'f dispatch_outcome list)" where
  "slide window m r =
     (let key = outcome_key r; recs = (case m key of Some rs \<Rightarrow> rs | None \<Rightarrow> []);
          recs = (if 0 < window \<and> window \<le> int (length recs) then tl recs else recs)
      in m(key \<mapsto> recs @ [r]))"

definition aggregate :: "'f::{zero,plus} dispatch_outcome list \<Rightarrow> int \<Rightarrow> (model_key \<rightharpoonup> 'f aggregate_stats)" where
  "aggregate records window = (\<lambda>k. map_option tally (foldl (slide window) Map.empty (chronological records) k))"

definition replay_step ::
    "(nat \<Rightarrow> 'f) \<Rightarrow> 'f \<Rightarrow> 'f::{zero,divide,ord} breaker_cfg \<Rightarrow> (model_key \<rightharpoonup> 'f circuit_breaker) \<Rightarrow> 'f dispatch_outcome \<Rightarrow>
     (model_key \<rightharpoonup> 'f circuit_breaker)" where
  "replay_step flt half cfg m r =
     (if oc_outcome r \<noteq> outcome_ok \<and> oc_outcome r \<noteq> outcome_transient then m
      else
        (let b = (case m (outcome_key r) of Some b \<Rightarrow> b | None \<Rightarrow> new_circuit_breaker half cfg);
             b = (if oc_outcome r = outcome_ok then record_success b else record_transient flt (oc_at r) b)
         in m(outcome_key r \<mapsto> b)))"

definition replay_breakers ::
    "(nat \<Rightarrow> 'f) \<Rightarrow> 'f \<Rightarrow> 'f::{zero,divide,ord} dispatch_outcome list \<Rightarrow> 'f breaker_cfg \<Rightarrow> (model_key \<rightharpoonup> 'f circuit_breaker)" where
  "replay_breakers flt half records cfg = foldl (replay_step flt half cfg) Map.empty (chronological records)"

definition replay_cost_tracker ::
    "(int \<Rightarrow> 'f) \<Rightarrow> 'f::{zero,plus,times,divide} dispatch_outcome list \<Rightarrow> 'f cost_cfg \<Rightarrow> (string \<rightharpoonup> 'f pricing) \<Rightarrow>
     'f cost_warn list option \<Rightarrow> 'f cost_tracker" where
  "replay_cost_tracker flt records cfg pricing bus =
     foldl (\<lambda>c r. if oc_in r = 0 \<and> oc_out r = 0 then c else account flt (oc_model r) (oc_in r) (oc_out r) c)
       (new_cost_tracker cfg pricing bus) (chronological records)"

definition classify_stream_outcome :: "go_error option \<Rightarrow> string" where
  "classify_stream_outcome err =
     (case err of
        None \<Rightarrow> outcome_ok
      | Some e \<Rightarrow>
          (case ge_provider e of
             Some p \<Rightarrow> (case pe_kind p of KindTransient \<Rightarrow> outcome_transient | KindStructural \<Rightarrow> outcome_structural
                        | KindExhausted \<Rightarrow> outcome_exhausted)
           | None \<Rightarrow> outcome_transient))"

section \<open>Reading\<close>

lemma split_char_nonempty: "split_char c s \<noteq> []"
  by (induction s) (auto split: list.split)

lemma split_char_single: "c \<notin> set b \<Longrightarrow> split_char c b = [b]"
  by (induction b) auto

lemma split_char_append: "split_char c (a @ c # b) = split_char c a @ split_char c b"
  by (induction a) (auto simp: split_char_nonempty split: list.split)

lemma read_lines_append:
  "fst (read_lines decode (xs @ ys)) = fst (read_lines decode xs) @ fst (read_lines decode ys)"
  by (induction xs) (auto simp: Let_def split_beta split: option.split)

lemma blank_line: "fst (read_lines decode [[]]) = []"
  by simp

text \<open>A record appended to a store whose last line is complete is read back after all earlier records,
which are read as before; and whatever the file holds, reading never fails.\<close>

theorem appended_outcome_reads_back:
  assumes "decode (encode rec) = Some rec" "encode rec \<noteq> []" "CHR 0x0A \<notin> set (encode rec)" "has_known_shape rec"
    and "file = None \<or> (\<exists>b. file = Some (b @ [CHR 0x0A]))"
  shows "fst (read_outcomes decode (append_outcome encode rec file)) = fst (read_outcomes decode file) @ [rec]"
proof -
  have one: "fst (read_lines decode (split_char (CHR 0x0A) (encode rec @ [CHR 0x0A]))) = [rec]"
    using assms(1,2,4) by (simp add: split_char_append split_char_single[OF assms(3)])
  show ?thesis using assms(5)
  proof
    assume "file = None"
    then show ?thesis using one by (simp add: append_outcome_def read_outcomes_def)
  next
    assume "\<exists>b. file = Some (b @ [CHR 0x0A])"
    then obtain b where b: "file = Some (b @ [CHR 0x0A])" by blast
    have "split_char (CHR 0x0A) (b @ [CHR 0x0A]) = split_char (CHR 0x0A) b @ [[]]" by (simp add: split_char_append)
    moreover have "split_char (CHR 0x0A) (b @ CHR 0x0A # encode rec @ [CHR 0x0A]) =
        split_char (CHR 0x0A) b @ split_char (CHR 0x0A) (encode rec @ [CHR 0x0A])" by (rule split_char_append)
    ultimately show ?thesis using one by (simp add: b append_outcome_def read_outcomes_def read_lines_append)
  qed
qed

section \<open>Aggregation\<close>

definition records_of :: "model_key \<Rightarrow> 'f dispatch_outcome list \<Rightarrow> 'f dispatch_outcome list" where
  "records_of k rs = filter (\<lambda>r. outcome_key r = k) rs"

definition trailing_window :: "int \<Rightarrow> 'a list \<Rightarrow> 'a list" where
  "trailing_window w rs = (if 0 < w then last_n (nat w) rs else rs)"

lemma slide_window:
  "foldl (slide w) Map.empty rs k = (if records_of k rs = [] then None else Some (trailing_window w (records_of k rs)))"
proof (induction rs rule: rev_induct)
  case (snoc r rs)
  show ?case
  proof (cases "outcome_key r = k")
    case True
    have "(let recs = (if records_of k rs = [] then [] else trailing_window w (records_of k rs))
           in (if 0 < w \<and> w \<le> int (length recs) then tl recs else recs) @ [r]) = trailing_window w (records_of k rs @ [r])"
      by (auto simp: trailing_window_def last_n_snoc Let_def) (auto simp: last_n_def)
    moreover have "slide w m r k =
        Some (let recs = (case m k of Some rs \<Rightarrow> rs | None \<Rightarrow> []) in (if 0 < w \<and> w \<le> int (length recs) then tl recs else recs) @ [r])" for m
      using True by (simp add: slide_def Let_def)
    moreover have "(case (if records_of k rs = [] then None else Some (trailing_window w (records_of k rs))) of Some rs \<Rightarrow> rs | None \<Rightarrow> []) =
        (if records_of k rs = [] then [] else trailing_window w (records_of k rs))" by simp
    moreover have "records_of k (rs @ [r]) = records_of k rs @ [r]" using True by (simp add: records_of_def)
    ultimately show ?thesis by (simp only: foldl_append foldl_Cons foldl_Nil snoc.IH) simp
  next
    case False
    then show ?thesis using snoc by (auto simp: slide_def Let_def records_of_def)
  qed
qed (simp add: records_of_def)

text \<open>The aggregate of a model is the tally of its last records in chronological order, as many as the
window admits, whatever the order of the store; a model without a record has none.\<close>

theorem aggregate_last_window:
  "aggregate records w k =
     (if records_of k (chronological records) = [] then None
      else Some (tally (trailing_window w (records_of k (chronological records)))))"
  by (simp add: aggregate_def slide_window)

section \<open>Replay\<close>

definition replay_call :: "'f dispatch_outcome \<Rightarrow> breaker_call" where
  "replay_call r = (if oc_outcome r = outcome_ok then CallSuccess else CallTransient (oc_at r))"

definition breaker_evidence :: "model_key \<Rightarrow> 'f dispatch_outcome list \<Rightarrow> 'f dispatch_outcome list" where
  "breaker_evidence k rs = filter (\<lambda>r. oc_outcome r \<in> {outcome_ok, outcome_transient}) (records_of k (chronological rs))"

lemma replay_fold:
  "foldl (replay_step flt half cfg) Map.empty rs k =
     (let ev = filter (\<lambda>r. oc_outcome r \<in> {outcome_ok, outcome_transient}) (records_of k rs)
      in if ev = [] then None else Some (run_breaker flt (map replay_call ev) (new_circuit_breaker half cfg)))"
proof (induction rs rule: rev_induct)
  case (snoc r rs)
  then show ?case
    by (auto simp: replay_step_def Let_def records_of_def run_breaker_def replay_call_def outcome_ok_def outcome_transient_def)
qed (simp add: records_of_def)

text \<open>After a restart the breaker of a model is the one a fresh breaker becomes on the model's own
evidence in chronological order, so by the history specification it is open exactly when that
evidence trips it: records of other models, structural and exhausted records do not matter.\<close>

theorem replay_is_own_evidence:
  "case replay_breakers flt half records cfg k of
     None \<Rightarrow> breaker_evidence k records = []
   | Some b \<Rightarrow>
       breaker_evidence k records \<noteq> [] \<and>
       b = run_breaker flt (map replay_call (breaker_evidence k records)) (new_circuit_breaker half cfg) \<and>
       (cb_state b = BreakerOpen \<longleftrightarrow>
          sp_state (run_spec flt (fill_breaker_cfg half cfg) (map replay_call (breaker_evidence k records))) = BreakerOpen)"
proof -
  have r: "replay_breakers flt half records cfg k =
     (if breaker_evidence k records = [] then None
      else Some (run_breaker flt (map replay_call (breaker_evidence k records)) (new_circuit_breaker half cfg)))"
    by (simp add: replay_breakers_def replay_fold breaker_evidence_def Let_def)
  have "cb_state (run_breaker flt calls (new_circuit_breaker half cfg)) = sp_state (run_spec flt (fill_breaker_cfg half cfg) calls)" for calls
    using run_breaker_refines[OF new_breaker_refines, of half cfg flt calls] by (simp add: breaker_refines_def run_spec_def)
  then show ?thesis by (simp add: r)
qed

definition sample_outcome :: "instant \<Rightarrow> string \<Rightarrow> int \<Rightarrow> int dispatch_outcome" where
  "sample_outcome t res n = \<lparr>oc_at = t, oc_provider = ''zai'', oc_model = ''m'', oc_tier = [], oc_outcome = res, oc_fallback_used = False,
     oc_latency = 0, oc_in = n, oc_out = 0, oc_cost = 0, oc_origin = ''turn''\<rparr>"

text \<open>The replay does not ask the breaker before each record, so a breaker that opened once in the past never
leaves that phase: a success after the cooldown does not close it, and a second outage does not move
its opening instant. One second after five fresh failures the replayed breaker admits the call, while
the breaker that lived through the same history, asked before each call, refuses it.\<close>

lemma replay_loses_second_outage:
  "let old = replicate 5 (sample_outcome second outcome_transient 0);
       up = [sample_outcome (hour + second) outcome_ok 0];
       new = replicate 5 (sample_outcome (2 * hour) outcome_transient 0);
       b = the (replay_breakers int 1 (old @ up @ new) (default_breaker 1) (''zai'', ''m''));
       live = run_breaker int (concat (map (\<lambda>r. [CallAllow (oc_at r), replay_call r]) (old @ up @ new))) (new_circuit_breaker 1 (default_breaker 1))
   in fst (breaker_allow (2 * hour + second) b) \<and> \<not> fst (breaker_allow (2 * hour + second) live)"
  by code_simp

text \<open>The replay of the spending asks the tracker for no window either: records of any age count against the
window of the first check, so the ceiling degrades on spending of long ago.\<close>

lemma replay_counts_old_spending:
  "let c = replay_cost_tracker id [sample_outcome second outcome_ok 7] \<lparr>cc_amount = 5, cc_window = day, cc_degrade = ''light''\<rparr>
             [''m'' \<mapsto> \<lparr>pr_input = 1000000, pr_output = 0\<rparr>] None
   in fst (check (400 * day) c) = CostDegrade"
  by code_simp

theorem appended_outcome_reads_back_witness:
  "let rec = sample_outcome 5 outcome_ok 3; encode = (\<lambda>_. ''x''); decode = (\<lambda>l. if l = ''x'' then Some rec else None)
   in fst (read_outcomes decode (append_outcome encode rec (Some ''y\<newline>''))) = [rec]"
proof -
  define r where "r = sample_outcome 5 outcome_ok 3"
  let ?decode = "\<lambda>l. if l = ''x'' then Some r else None"
  have "has_known_shape r" by (simp add: r_def sample_outcome_def has_known_shape_def)
  then have "fst (read_outcomes ?decode (append_outcome (\<lambda>_. ''x'') r (Some (''y'' @ [CHR 0x0A])))) =
      fst (read_outcomes ?decode (Some (''y'' @ [CHR 0x0A]))) @ [r]"
    by (intro appended_outcome_reads_back) auto
  moreover have "fst (read_outcomes ?decode (Some (''y'' @ [CHR 0x0A]))) = []" by (simp add: read_outcomes_def)
  ultimately show ?thesis unfolding Let_def r_def[symmetric] by simp
qed

end
