(* ===== verification/DispatchProps.thy ===== *)
theory DispatchProps
  imports Dispatch "HOL-Library.Sublist"
begin

text \<open>
  What a dispatch guarantees: it ends after at most one change of tier, it calls the candidates of the
  chain in order and goes on only after a transient failure, and it never calls a model whose breaker
  is open.
\<close>

section \<open>The kind of a failure\<close>

definition error_kind_of :: "go_error \<Rightarrow> error_kind" where
  "error_kind_of err = (case ge_provider err of Some p \<Rightarrow> pe_kind p | None \<Rightarrow> KindTransient)"

lemma as_provider_error_kind: "pe_kind (as_provider_error st cand err) = error_kind_of err"
  by (simp add: as_provider_error_def error_kind_of_def classify_http_def Let_def transient_statuses_def
      structural_statuses_def split: option.split)

text \<open>The classification of an HTTP failure is never the budget's kind, and is structural exactly for the
eight structural statuses without a transport or context error.\<close>

theorem classification_kinds:
  "pe_kind (classify_http st prov model status err) \<noteq> KindExhausted \<and>
   (pe_kind (classify_http st prov model status err) = KindStructural \<longleftrightarrow>
      status \<in> {400, 401, 403, 404, 405, 411, 413, 422} \<and> \<not> is_net_or_context_error err)"
  by (auto simp: classify_http_def Let_def transient_statuses_def structural_statuses_def)

section \<open>One candidate\<close>

definition transient_reply :: "('f, 'r) dispatch_env \<Rightarrow> nat \<Rightarrow> model_key \<Rightarrow> bool" where
  "transient_reply env n k = (\<exists>err. de_send env n k = Fail err \<and> error_kind_of err = KindTransient)"

definition final_reply :: "('f, 'r) dispatch_env \<Rightarrow> nat \<Rightarrow> model_key \<Rightarrow> (dispatch_err, 'r) result \<Rightarrow> bool" where
  \<comment> \<open>the reply that the dispatch returns: an answer, or a failure that is not transient\<close>
  "final_reply env n k r =
     (case de_send env n k of
        Ok resp \<Rightarrow> r = Ok resp
      | Fail err \<Rightarrow> error_kind_of err \<noteq> KindTransient \<and> (\<exists>p. r = Fail (ProviderFailed p) \<and> pe_kind p = error_kind_of err))"

definition sent :: "('f, 'r) dispatch_env \<Rightarrow> 'f scheduler \<Rightarrow> model_key list \<Rightarrow> 'r walk \<Rightarrow> 'f scheduler \<Rightarrow> bool" where
  \<comment> \<open>the calls made between two states, each transient but for a last one that decides the result\<close>
  "sent env s new w s' =
     (sd_sends s' = sd_sends s @ new \<and>
      (\<forall>j < length new. transient_reply env (length (sd_sends s) + j) (new ! j) \<or>
         (Suc j = length new \<and> (\<exists>r. w = WalkReturn r \<and> final_reply env (length (sd_sends s) + j) (new ! j) r))) \<and>
      (\<forall>resp. w = WalkReturn (Ok resp) \<longrightarrow>
         new \<noteq> [] \<and> de_send env (length (sd_sends s) + length new - 1) (last new) = Ok resp))"

lemma sent_none: "sd_sends s' = sd_sends s \<Longrightarrow> (\<And>resp. w \<noteq> WalkReturn (Ok resp)) \<Longrightarrow> sent env s [] w s'"
  by (simp add: sent_def)

lemma put_breaker_frame [simp]:
  "sd_sends (put_breaker c b s) = sd_sends s" "sd_cost (put_breaker c b s) = sd_cost s" "sd_ticks (put_breaker c b s) = sd_ticks s"
  "sd_bus (put_breaker c b s) = sd_bus s" "sd_acquired (put_breaker c b s) = sd_acquired s"
  by (simp_all add: put_breaker_def)

lemma call_provider_sent:
  "\<exists>new. (new = [] \<or> new = [key_of cand]) \<and>
     sent env s new (fst (call_provider env turn i next cand s)) (snd (call_provider env turn i next cand s))"
proof (cases "de_acquire env (sd_acquired s) = None \<and> tg_provider cand \<in> set (de_providers env)")
  case False
  then have "sent env s [] (fst (call_provider env turn i next cand s)) (snd (call_provider env turn i next cand s))"
    by (intro sent_none) (auto simp: call_provider_def Let_def split: option.split)
  then show ?thesis by blast
next
  case True
  show ?thesis
  proof (cases "de_send env (length (sd_sends s)) (key_of cand)")
    case (Inr resp)
    with True have "sent env s [key_of cand] (fst (call_provider env turn i next cand s)) (snd (call_provider env turn i next cand s))"
      by (simp add: call_provider_def Let_def sent_def final_reply_def)
    then show ?thesis by blast
  next
    case (Inl err)
    with True have "sent env s [key_of cand] (fst (call_provider env turn i next cand s)) (snd (call_provider env turn i next cand s))"
      by (cases "error_kind_of err")
         (auto simp: call_provider_def Let_def sent_def final_reply_def transient_reply_def as_provider_error_kind
           split: option.split)
    then show ?thesis by blast
  qed
qed

lemma call_provider_no_switch: "fst (call_provider env turn i next cand s) \<noteq> WalkSwitch"
  by (simp add: call_provider_def Let_def split: option.split sum.split)

lemma try_candidate_cases:
  fixes env :: "('f::{zero,plus,times,divide,ord}, 'r) dispatch_env"
  obtains (inert) w s' where "try_candidate env turn dt req tier degraded i next cand s = (w, s')" "sd_sends s' = sd_sends s"
      "\<And>resp. w \<noteq> WalkReturn (Ok resp)" "w = WalkSwitch \<Longrightarrow> \<not> degraded"
  | (called) s1 where "try_candidate env turn dt req tier degraded i next cand s = call_provider env turn i next cand s1"
      "sd_sends s1 = sd_sends s"
proof -
  obtain ok b where a: "if_allow (de_now env (sd_ticks s)) (breaker_for (s\<lparr>sd_considered := True\<rparr>) cand) = (ok, b)" by (rule prod.exhaust)
  let ?s = "(put_breaker cand b (s\<lparr>sd_considered := True\<rparr>))\<lparr>sd_ticks := sd_ticks s + 1\<rparr>"
  obtain act cost where g: "gate_check (de_now env (Suc (sd_ticks s))) (sd_cost s) = (act, cost)" by (rule prod.exhaust)
  have t: "try_candidate env turn dt req tier degraded i next cand s =
    (if req \<noteq> zero_req \<and> \<not> satisfies (tg_caps cand) req then (WalkNext, s)
     else if \<not> ok then (WalkNext, ?s)
     else let s = ?s\<lparr>sd_cost := cost, sd_ticks := Suc (Suc (sd_ticks s))\<rparr>
          in if act = CostHardStop then
               (WalkReturn (Fail (ProviderFailed \<lparr>pe_kind = KindExhausted, pe_provider = tg_provider cand,
                       pe_model = tg_model cand, pe_status = 0, pe_reason = ''cost ceiling exhausted''\<rparr>)), s)
             else if act = CostDegrade \<and> \<not> degraded \<and> dt \<noteq> [] \<and> dt \<noteq> tier then (WalkSwitch, s)
             else call_provider env turn i next cand s)"
    by (simp add: try_candidate_def Let_def a g)
  show thesis
  proof (cases "(req \<noteq> zero_req \<and> \<not> satisfies (tg_caps cand) req) \<or> \<not> ok \<or> act = CostHardStop \<or>
      (act = CostDegrade \<and> \<not> degraded \<and> dt \<noteq> [] \<and> dt \<noteq> tier)")
    case True
    obtain w s' where ws: "try_candidate env turn dt req tier degraded i next cand s = (w, s')" by (rule prod.exhaust)
    show thesis by (rule inert[OF ws]) (use ws True in \<open>auto simp: t Let_def split: if_splits\<close>)
  next
    case False
    let ?s1 = "?s\<lparr>sd_cost := cost, sd_ticks := Suc (Suc (sd_ticks s))\<rparr>"
    show thesis by (rule called[of ?s1]) (use False in \<open>auto simp: t Let_def\<close>)
  qed
qed

lemma try_candidate_sent:
  "\<exists>new. (new = [] \<or> new = [key_of cand]) \<and>
     sent env s new (fst (try_candidate env turn dt req tier degraded i next cand s))
       (snd (try_candidate env turn dt req tier degraded i next cand s)) \<and>
     (fst (try_candidate env turn dt req tier degraded i next cand s) = WalkSwitch \<longrightarrow> \<not> degraded)"
proof (cases rule: try_candidate_cases[of env turn dt req tier degraded i "next" cand s])
  case (inert w s')
  then have "sent env s [] w s'" by (intro sent_none)
  with inert show ?thesis by auto
next
  case (called s1)
  have "sent env s = sent env s1" by (intro ext) (simp add: sent_def called(2))
  then show ?thesis using call_provider_sent[of cand env s1 turn i "next"] call_provider_no_switch[of env turn i "next" cand s1] called(1)
    by auto
qed

section \<open>The walk\<close>

lemma sent_append:
  assumes "sent env s new1 WalkNext s1" "sent env s1 new2 w s2"
  shows "sent env s (new1 @ new2) w s2"
proof -
  let ?n = "length (sd_sends s)"
  have l: "sd_sends s1 = sd_sends s @ new1" "\<forall>j < length new1. transient_reply env (?n + j) (new1 ! j)"
    using assms(1) by (auto simp: sent_def)
  have n: "length (sd_sends s1) = ?n + length new1" using l(1) by simp
  have "transient_reply env (?n + j) ((new1 @ new2) ! j) \<or>
      (Suc j = length (new1 @ new2) \<and> (\<exists>r. w = WalkReturn r \<and> final_reply env (?n + j) ((new1 @ new2) ! j) r))"
    if "j < length (new1 @ new2)" for j
  proof (cases "j < length new1")
    case True
    with l(2) show ?thesis by (simp add: nth_append)
  next
    case False
    define k where "k = j - length new1"
    then have k: "j = length new1 + k" "k < length new2" using that False by simp_all
    have "transient_reply env (length (sd_sends s1) + k) (new2 ! k) \<or>
      (Suc k = length new2 \<and> (\<exists>r. w = WalkReturn r \<and> final_reply env (length (sd_sends s1) + k) (new2 ! k) r))"
      using assms(2) k(2) by (simp add: sent_def)
    with k n show ?thesis by (simp add: nth_append add.assoc)
  qed
  moreover have "new1 @ new2 \<noteq> [] \<and> de_send env (?n + length (new1 @ new2) - 1) (last (new1 @ new2)) = Ok resp"
    if "w = WalkReturn (Ok resp)" for resp
  proof -
    have "new2 \<noteq> []" "de_send env (length (sd_sends s1) + length new2 - 1) (last new2) = Ok resp"
      using assms(2) that by (auto simp: sent_def)
    then show ?thesis by (simp add: n add.assoc)
  qed
  moreover have "sd_sends s2 = sd_sends s @ new1 @ new2" using assms(2) l(1) by (simp add: sent_def)
  ultimately show ?thesis unfolding sent_def by blast
qed

lemma sent_reword:
  "sent env s new w s' \<Longrightarrow> w = WalkNext \<or> w = WalkSwitch \<Longrightarrow> w' = WalkNext \<or> w' = WalkSwitch \<Longrightarrow> sent env s new w' s'"
  by (auto simp: sent_def)

lemma walk_sent:
  "\<exists>new. subseq new (map key_of cs) \<and>
     sent env s new (fst (walk_candidates env turn dt req tier degraded i cs s)) (snd (walk_candidates env turn dt req tier degraded i cs s)) \<and>
     (fst (walk_candidates env turn dt req tier degraded i cs s) = WalkSwitch \<longrightarrow> \<not> degraded)"
proof (induction cs arbitrary: i s)
  case Nil
  show ?case by (rule exI[of _ "[]"]) (simp add: sent_none)
next
  case (Cons c cs i s)
  let ?next = "case cs of [] \<Rightarrow> None | n # _ \<Rightarrow> Some n"
  obtain w s1 where t: "try_candidate env turn dt req tier degraded i ?next c s = (w, s1)" by (rule prod.exhaust)
  from try_candidate_sent[of c env s turn dt req tier degraded i ?next] obtain new1
    where n1: "new1 = [] \<or> new1 = [key_of c]" "sent env s new1 w s1" "w = WalkSwitch \<longrightarrow> \<not> degraded" by (auto simp: t)
  show ?case
  proof (cases "w = WalkNext")
    case True
    obtain new2 where n2: "subseq new2 (map key_of cs)"
      "sent env s1 new2 (fst (walk_candidates env turn dt req tier degraded (i + 1) cs s1)) (snd (walk_candidates env turn dt req tier degraded (i + 1) cs s1))"
      "fst (walk_candidates env turn dt req tier degraded (i + 1) cs s1) = WalkSwitch \<longrightarrow> \<not> degraded" using Cons.IH by blast
    have s: "subseq (new1 @ new2) (map key_of (c # cs))" using n1(1) n2(1) by auto
    have e: "walk_candidates env turn dt req tier degraded i (c # cs) s = walk_candidates env turn dt req tier degraded (i + 1) cs s1"
      by (simp add: t True)
    show ?thesis unfolding e by (rule exI[of _ "new1 @ new2"]) (use s n2 sent_append[OF n1(2)[unfolded True] n2(2)] in blast)
  next
    case False
    then have e: "walk_candidates env turn dt req tier degraded i (c # cs) s = (w, s1)" using t by (cases w) simp_all
    have s: "subseq new1 (map key_of (c # cs))" using n1(1) by auto
    show ?thesis unfolding e using s n1 by auto
  qed
qed

section \<open>The dispatch\<close>

definition tier_chain :: "'f config \<Rightarrow> ('f, 'r) dispatch_env \<Rightarrow> string \<Rightarrow> string \<Rightarrow> capability_req \<Rightarrow> nat \<Rightarrow> model_key list" where
  \<comment> \<open>the chain a tier resolves to at the n-th reading of the clock\<close>
  "tier_chain cfg env tier project req n =
     (case resolve (de_tz env) cfg tier project (de_now env n) req of
        Ok (primary, fallbacks) \<Rightarrow> map key_of (primary # fallbacks)
      | Fail _ \<Rightarrow> [])"

lemma round_sent:
  "\<exists>new. subseq new (tier_chain cfg env tier project req (sd_ticks s)) \<and>
     sent env s new (fst (dispatch_round cfg env turn project req tier degraded s)) (snd (dispatch_round cfg env turn project req tier degraded s)) \<and>
     (fst (dispatch_round cfg env turn project req tier degraded s) = WalkSwitch \<longrightarrow> \<not> degraded)"
proof (cases "resolve (de_tz env) cfg tier project (de_now env (sd_ticks s)) req")
  case (Inl e)
  then show ?thesis by (intro exI[of _ "[]"]) (simp add: dispatch_round_def sent_none)
next
  case (Inr r)
  obtain p fs where r: "r = (p, fs)" by (rule prod.exhaust)
  let ?s = "s\<lparr>sd_ticks := sd_ticks s + 1\<rparr>"
  have e: "dispatch_round cfg env turn project req tier degraded s =
      walk_candidates env turn (cc_degrade (cf_cost cfg)) req tier degraded 0 (p # fs) ?s"
    by (simp add: dispatch_round_def Inr r del: walk_candidates.simps)
  have c: "tier_chain cfg env tier project req (sd_ticks s) = map key_of (p # fs)" by (simp add: tier_chain_def Inr r)
  have s: "sent env ?s = sent env s" by (intro ext) (simp add: sent_def)
  show ?thesis
    using walk_sent[where env = env and turn = turn and dt = "cc_degrade (cf_cost cfg)" and req = req and tier = tier
        and degraded = degraded and i = 0 and cs = "p # fs" and s = ?s]
    unfolding e c s .
qed

definition called_in_order :: "('f, 'r) dispatch_env \<Rightarrow> 'f scheduler \<Rightarrow> model_key list \<Rightarrow> (dispatch_err, 'r) result \<Rightarrow> bool" where
  \<comment> \<open>every call but a deciding last one failed transiently, and an answer is the reply to the last call\<close>
  "called_in_order env s new r =
     ((\<forall>j < length new. transient_reply env (length (sd_sends s) + j) (new ! j) \<or>
         (Suc j = length new \<and> final_reply env (length (sd_sends s) + j) (new ! j) r)) \<and>
      (\<forall>resp. r = Ok resp \<longrightarrow> new \<noteq> [] \<and> de_send env (length (sd_sends s) + length new - 1) (last new) = Ok resp))"

lemma sent_in_order:
  "sent env s new w s' \<Longrightarrow> \<forall>x. w = WalkReturn x \<longrightarrow> r = x \<Longrightarrow> \<forall>resp. r = Ok resp \<longrightarrow> w = WalkReturn (Ok resp) \<Longrightarrow>
     called_in_order env s new r \<and> sd_sends s' = sd_sends s @ new"
  unfolding sent_def called_in_order_def by blast

lemma loop_ends:
  assumes "fst (dispatch_round cfg env turn project req tier degraded s) \<noteq> WalkSwitch"
  shows "\<exists>r. dispatch_loop cfg env turn project req tier degraded s = Some (r, snd (dispatch_round cfg env turn project req tier degraded s)) \<and>
      (\<forall>x. fst (dispatch_round cfg env turn project req tier degraded s) = WalkReturn x \<longrightarrow> r = x) \<and>
      (\<forall>resp. r = Ok resp \<longrightarrow> fst (dispatch_round cfg env turn project req tier degraded s) = WalkReturn (Ok resp))"
  using assms by (subst dispatch_loop.simps) (auto simp: Let_def dispatch_end_def split: walk.split option.split)

lemma loop_switches:
  assumes "fst (dispatch_round cfg env turn project req tier degraded s) = WalkSwitch"
  shows "dispatch_loop cfg env turn project req tier degraded s =
    dispatch_loop cfg env turn project req (cc_degrade (cf_cost cfg)) True (snd (dispatch_round cfg env turn project req tier degraded s))"
  using assms by (subst dispatch_loop.simps) (simp add: Let_def)

lemma loop_degraded:
  assumes "sent env s new1 WalkNext s1"
  shows "\<exists>r s' new2 n. dispatch_loop cfg env turn project req tier True s1 = Some (r, s') \<and> sd_sends s' = sd_sends s @ new1 @ new2 \<and>
    subseq new2 (tier_chain cfg env tier project req n) \<and> called_in_order env s (new1 @ new2) r"
proof -
  let ?r = "dispatch_round cfg env turn project req tier True s1"
  obtain new2 where n2: "subseq new2 (tier_chain cfg env tier project req (sd_ticks s1))" "sent env s1 new2 (fst ?r) (snd ?r)"
    "fst ?r \<noteq> WalkSwitch" using round_sent[of cfg env tier project req s1 turn True] by blast
  obtain r where r: "dispatch_loop cfg env turn project req tier True s1 = Some (r, snd ?r)"
    "\<forall>x. fst ?r = WalkReturn x \<longrightarrow> r = x" "\<forall>resp. r = Ok resp \<longrightarrow> fst ?r = WalkReturn (Ok resp)"
    using loop_ends[OF n2(3)] by blast
  show ?thesis using r(1) n2(1) sent_in_order[OF sent_append[OF assms n2(2)] r(2,3)] by blast
qed

text \<open>C4. A dispatch always returns, after at most one change of tier. The calls it makes are candidates of
the tier's chain, then of the degraded tier's chain, in order and each at most once per place; it goes
on to the next one only after a transient failure; an answer is the reply to its last call; and a
structural failure is never retried.\<close>

theorem dispatch_walks_chain:
  "\<exists>r s' n1 n2 new. dispatch cfg env turn tier project req s = Some (r, s') \<and> sd_sends s' = sd_sends s @ new \<and>
     subseq new (tier_chain cfg env tier project req n1 @ tier_chain cfg env (cc_degrade (cf_cost cfg)) project req n2) \<and>
     called_in_order env s new r"
proof -
  let ?s0 = "s\<lparr>sd_last := None, sd_considered := False\<rparr>" and ?dt = "cc_degrade (cf_cost cfg)"
  let ?r = "dispatch_round cfg env turn project req tier False ?s0"
  have s0: "sent env ?s0 = sent env s" by (intro ext) (simp add: sent_def)
  obtain new1 where n1: "subseq new1 (tier_chain cfg env tier project req (sd_ticks ?s0))" "sent env s new1 (fst ?r) (snd ?r)"
    using round_sent[of cfg env tier project req ?s0 turn False] unfolding s0 by blast
  show ?thesis
  proof (cases "fst ?r = WalkSwitch")
    case False
    obtain r where r: "dispatch_loop cfg env turn project req tier False ?s0 = Some (r, snd ?r)"
      "\<forall>x. fst ?r = WalkReturn x \<longrightarrow> r = x" "\<forall>resp. r = Ok resp \<longrightarrow> fst ?r = WalkReturn (Ok resp)"
      using loop_ends[OF False] by blast
    have "subseq new1 (tier_chain cfg env tier project req (sd_ticks ?s0) @ tier_chain cfg env ?dt project req 0)"
      using list_emb_append_mono[OF n1(1) list_emb_Nil] by simp
    then show ?thesis using r(1) sent_in_order[OF n1(2) r(2,3)] unfolding dispatch_def by blast
  next
    case True
    have "sent env s new1 WalkNext (snd ?r)" by (rule sent_reword[OF n1(2)]) (simp_all add: True)
    from loop_degraded[OF this] obtain r s' new2 n where r: "dispatch_loop cfg env turn project req ?dt True (snd ?r) = Some (r, s')"
      "sd_sends s' = sd_sends s @ new1 @ new2" "subseq new2 (tier_chain cfg env ?dt project req n)"
      "called_in_order env s (new1 @ new2) r" by blast
    have "subseq (new1 @ new2) (tier_chain cfg env tier project req (sd_ticks ?s0) @ tier_chain cfg env ?dt project req n)"
      using n1(1) r(3) by (rule list_emb_append_mono)
    then show ?thesis using r(1,2,4) loop_switches[OF True] unfolding dispatch_def by auto
  qed
qed

section \<open>Open breakers\<close>

definition refused_throughout :: "('f, 'r) dispatch_env \<Rightarrow> 'f breaker \<Rightarrow> bool" where
  "refused_throughout env b = (\<forall>n. \<not> fst (if_allow (de_now env n) b))"

definition shut :: "'f scheduler \<Rightarrow> model_key \<Rightarrow> 'f breaker \<Rightarrow> 'f scheduler \<Rightarrow> bool" where
  \<comment> \<open>no call of the model in between, and its breaker as it was\<close>
  "shut s k b s' = (sd_breakers s' k = Some b \<and> (\<exists>new. sd_sends s' = sd_sends s @ new \<and> k \<notin> set new))"

lemma shut_trans: "shut s k b s1 \<Longrightarrow> shut s1 k b s2 \<Longrightarrow> shut s k b s2"
  by (auto simp: shut_def)

lemma put_other: "key_of c \<noteq> k \<Longrightarrow> sd_breakers (put_breaker c b s) k = sd_breakers s k"
  by (simp add: put_breaker_def)

lemma call_provider_shut:
  assumes "sd_breakers s k = Some b" "key_of cand \<noteq> k"
  shows "shut s k b (snd (call_provider env turn i next cand s))"
  using assms put_other[OF assms(2)]
  by (auto simp: call_provider_def Let_def shut_def split: option.split sum.split)

lemma try_candidate_shut:
  assumes "sd_breakers s k = Some b" "refused_throughout env b"
  shows "shut s k b (snd (try_candidate env turn dt req tier degraded i next cand s))"
proof (cases "key_of cand = k")
  case True
  have f: "breaker_for (s\<lparr>sd_considered := True\<rparr>) cand = b" by (simp add: breaker_for_def True assms(1))
  have no: "\<not> fst (if_allow (de_now env (sd_ticks s)) b)" using assms(2) by (simp add: refused_throughout_def)
  have same: "if_allow (de_now env (sd_ticks s)) b = (False, b)"
    using no br.refusal_inert[OF no] by (cases "if_allow (de_now env (sd_ticks s)) b") simp
  have "sd_breakers (put_breaker cand b (s\<lparr>sd_considered := True\<rparr>)) k = Some b" by (simp add: put_breaker_def True assms(1))
  with f same show ?thesis using assms(1) by (simp add: try_candidate_def Let_def shut_def)
next
  case False
  show ?thesis
  proof -
    have c: "shut s k b (snd (call_provider env turn i next cand s1))" if "sd_breakers s1 k = Some b" "sd_sends s1 = sd_sends s" for s1
      using call_provider_shut[OF that(1) False, of env turn i "next"] that(2) by (simp add: shut_def)
    show ?thesis
      using assms(1) put_other[OF False] c
      by (auto simp: try_candidate_def Let_def shut_def split: prod.split if_splits)
  qed
qed

lemma walk_shut:
  "sd_breakers s k = Some b \<Longrightarrow> refused_throughout env b \<Longrightarrow>
     shut s k b (snd (walk_candidates env turn dt req tier degraded i cs s))"
proof (induction cs arbitrary: i s)
  case (Cons c cs i s)
  let ?next = "case cs of [] \<Rightarrow> None | n # _ \<Rightarrow> Some n"
  obtain w s1 where t: "try_candidate env turn dt req tier degraded i ?next c s = (w, s1)" by (rule prod.exhaust)
  have 1: "shut s k b s1" using try_candidate_shut[OF Cons.prems, of turn dt req tier degraded i ?next c] t by simp
  then have "sd_breakers s1 k = Some b" by (simp add: shut_def)
  from shut_trans[OF 1 Cons.IH[OF this Cons.prems(2), of "i + 1"]] 1 show ?case by (cases w) (simp_all add: t)
qed (simp add: shut_def)

lemma round_shut:
  assumes "sd_breakers s k = Some b" "refused_throughout env b"
  shows "shut s k b (snd (dispatch_round cfg env turn project req tier degraded s))"
proof (cases "resolve (de_tz env) cfg tier project (de_now env (sd_ticks s)) req")
  case (Inr r)
  let ?s = "s\<lparr>sd_ticks := sd_ticks s + 1\<rparr>"
  have "shut ?s k b u = shut s k b u" for u by (simp add: shut_def)
  with walk_shut[of ?s k b env] assms show ?thesis
    by (cases r) (simp add: dispatch_round_def Inr del: walk_candidates.simps)
qed (use assms in \<open>simp add: dispatch_round_def shut_def\<close>)

lemma loop_end_shut:
  assumes "fst (dispatch_round cfg env turn project req tier degraded s) \<noteq> WalkSwitch"
    and "sd_breakers s k = Some b" "refused_throughout env b"
  shows "\<exists>r s'. dispatch_loop cfg env turn project req tier degraded s = Some (r, s') \<and> shut s k b s'"
  using loop_ends[OF assms(1)] round_shut[OF assms(2,3), of cfg turn project req tier degraded] by blast

text \<open>C12. A model whose breaker refuses throughout a dispatch is never called by it, and its breaker is left
as it was, whatever tier, fallback chain and degradation lead to the model.\<close>

theorem open_breaker_never_called:
  assumes "sd_breakers s k = Some b" "refused_throughout env b"
  shows "\<exists>r s' new. dispatch cfg env turn tier project req s = Some (r, s') \<and> sd_sends s' = sd_sends s @ new \<and>
    k \<notin> set new \<and> sd_breakers s' k = Some b"
proof -
  let ?s0 = "s\<lparr>sd_last := None, sd_considered := False\<rparr>" and ?dt = "cc_degrade (cf_cost cfg)"
  let ?r = "dispatch_round cfg env turn project req tier False ?s0"
  have b0: "sd_breakers ?s0 k = Some b" using assms(1) by simp
  have "\<exists>r s'. dispatch_loop cfg env turn project req tier False ?s0 = Some (r, s') \<and> shut ?s0 k b s'"
  proof (cases "fst ?r = WalkSwitch")
    case False
    show ?thesis by (rule loop_end_shut[OF False b0 assms(2)])
  next
    case True
    have 1: "shut ?s0 k b (snd ?r)" by (rule round_shut[OF b0 assms(2)])
    then have b1: "sd_breakers (snd ?r) k = Some b" by (simp add: shut_def)
    have "fst (dispatch_round cfg env turn project req ?dt True (snd ?r)) \<noteq> WalkSwitch"
      using round_sent[of cfg env ?dt project req "snd ?r" turn True] by blast
    from loop_end_shut[OF this b1 assms(2)] show ?thesis using loop_switches[OF True] shut_trans[OF 1] by auto
  qed
  then show ?thesis by (auto simp: dispatch_def shut_def)
qed

section \<open>Examples\<close>

definition sample_failure :: "error_kind \<Rightarrow> go_error" where
  "sample_failure k = \<lparr>ge_provider = Some \<lparr>pe_kind = k, pe_provider = [], pe_model = [], pe_status = 429, pe_reason = ''rate limited''\<rparr>,
     ge_deadline = False, ge_canceled = False, ge_net_op = False, ge_url = False\<rparr>"

definition sample_dispatch_env :: "(int, string) dispatch_env" where
  \<comment> \<open>the first call of any model fails, the later ones answer\<close>
  "sample_dispatch_env = \<lparr>de_flt = id, de_status_text = (\<lambda>_. []), de_tz = sample_tz, de_now = (\<lambda>_. 20),
     de_acquire = (\<lambda>_. None), de_providers = [''zai''],
     de_send = (\<lambda>n k. if n = 0 then Fail (sample_failure KindTransient) else Ok ''answer'')\<rparr>"

definition sample_scheduler :: "int scheduler" where
  "sample_scheduler = \<lparr>sd_breakers = Map.empty, sd_cost = NoCost, sd_bus = [], sd_sends = [], sd_ticks = 0, sd_acquired = 0,
     sd_profile_model = [], sd_last = None, sd_considered = False\<rparr>"

theorem open_breaker_never_called_witness:
  "\<exists>r s' new. dispatch (sample_config []) sample_dispatch_env [] ''heavy'' [] zero_req
       (sample_scheduler\<lparr>sd_breakers := [(''zai'', ''glm-5.2'') \<mapsto> Circuit sample_breaker]\<rparr>) = Some (r, s') \<and>
     sd_sends s' = new \<and> (''zai'', ''glm-5.2'') \<notin> set new"
proof -
  let ?s = "sample_scheduler\<lparr>sd_breakers := [(''zai'', ''glm-5.2'') \<mapsto> Circuit sample_breaker]\<rparr>"
  have "refused_throughout sample_dispatch_env (Circuit sample_breaker)"
    by (simp add: refused_throughout_def sample_dispatch_env_def breaker_allow_def sample_breaker_open time_sub_def
        min_duration_def max_duration_def)
  moreover have "sd_breakers ?s (''zai'', ''glm-5.2'') = Some (Circuit sample_breaker)" by simp
  moreover have "sd_sends ?s = []" by (simp add: sample_scheduler_def)
  ultimately show ?thesis
    using open_breaker_never_called[of ?s "(''zai'', ''glm-5.2'')" "Circuit sample_breaker" sample_dispatch_env "sample_config []" "[]" "''heavy''" "[]" zero_req]
    by auto
qed

lemma sample_dispatch_falls_back:
  "map_option (\<lambda>(r, s). (r, sd_sends s, map fe_to (sd_bus s), sd_profile_model s))
     (dispatch (sample_config []) sample_dispatch_env [] ''heavy'' [] zero_req sample_scheduler) =
   Some (Ok ''answer'', [(''zai'', ''glm-5.2''), (''zai'', ''glm-4.6'')], [(''zai'', ''glm-4.6'')], ''glm-4.6'')"
  by code_simp

end
