(* ===== verification/Tasks.thy ===== *)
theory Tasks
  imports Utf8
begin

text \<open>
  Background tasks, \<^verbatim>\<open>internal/tasks\<close>: the pending notifications, the slots and the waiting queue
  of background subagents, and the progressive output file of \<^verbatim>\<open>subagent.go\<close>. An operation of the tracker
  that releases its mutex in the middle is split there: what remains to do is an action of the goroutine
  that runs it, and any pending action may come next.
\<close>

section \<open>Notifications\<close>

datatype task_kind = KindBash | KindSubagent

record notification =
  nt_id :: string
  nt_kind :: task_kind
  nt_exit :: string
  nt_duration :: int
  nt_tail :: string
  nt_file :: string

record pending_item =
  pi_note :: notification
  pi_at :: int
  pi_seq :: nat

record pending_queue =
  pq_items :: "string \<rightharpoonup> pending_item"
  pq_order :: "string list"
  pq_seq :: nat

definition empty_queue :: pending_queue where
  "empty_queue = \<lparr>pq_items = Map.empty, pq_order = [], pq_seq = 0\<rparr>"

definition pq_add :: "notification \<Rightarrow> int \<Rightarrow> pending_queue \<Rightarrow> pending_queue" where
  "pq_add n at' q =
     (if pq_items q (nt_id n) \<noteq> None then q
      else \<lparr>pq_items = (pq_items q)(nt_id n \<mapsto> \<lparr>pi_note = n, pi_at = at', pi_seq = pq_seq q + 1\<rparr>),
            pq_order = pq_order q @ [nt_id n], pq_seq = pq_seq q + 1\<rparr>)"

definition snapshot_ordered :: "pending_queue \<Rightarrow> notification list" where
  \<comment> \<open>by completion time, then by arrival\<close>
  "snapshot_ordered q =
     (let live = List.map_filter (pq_items q) (pq_order q)
      in map pi_note (sort_key pi_at (sort_key pi_seq live)))"

definition pq_peek :: "pending_queue \<Rightarrow> notification list" where
  "pq_peek q = (if pq_order q = [] then [] else snapshot_ordered q)"

definition snapshot_and_clear :: "pending_queue \<Rightarrow> notification list \<times> pending_queue" where
  "snapshot_and_clear q =
     (if pq_order q = [] then ([], q) else (snapshot_ordered q, q\<lparr>pq_items := Map.empty, pq_order := []\<rparr>))"

fun first_rune_start :: "nat \<Rightarrow> string \<Rightarrow> string option" where
  "first_rune_start 0 s = None"
| "first_rune_start (Suc k) s =
     (case s of [] \<Rightarrow> None | c # r \<Rightarrow> if rune_start c then Some s else first_rune_start k r)"

definition truncate_tail :: "string \<Rightarrow> int \<Rightarrow> string" where
  "truncate_tail s limit =
     (if limit \<le> 0 \<or> int (length s) \<le> limit then s
      else (let w = drop (length s - nat limit) s
            in case first_rune_start 4 w of Some r \<Rightarrow> r | None \<Rightarrow> w))"

section \<open>The tracker\<close>

record task_tracker =
  tk_cap :: nat
  tk_tail :: int
  tk_pend :: pending_queue
  tk_running :: nat
  tk_cancels :: "string list"  \<comment> \<open>the ids with a registered cancel function\<close>
  tk_waiters :: "string list"

definition new_tracker :: "int \<Rightarrow> int \<Rightarrow> task_tracker" where
  "new_tracker cap tail =
     \<lparr>tk_cap = nat (if cap \<le> 0 then 8 else cap), tk_tail = (if tail \<le> 0 then 8192 else tail), tk_pend = empty_queue,
      tk_running = 0, tk_cancels = [], tk_waiters = []\<rparr>"

definition subagent_queue_bound :: nat where
  "subagent_queue_bound = 64"

definition release_subagent_slot :: "string \<Rightarrow> task_tracker \<Rightarrow> task_tracker" where
  "release_subagent_slot id' t =
     t\<lparr>tk_running := tk_running t - 1, tk_cancels := removeAll id' (tk_cancels t)\<rparr>"

definition complete_locked :: "notification \<Rightarrow> int \<Rightarrow> task_tracker \<Rightarrow> task_tracker" where
  \<comment> \<open>\<^verbatim>\<open>Complete\<close> up to its unlock\<close>
  "complete_locked n now t =
     (let t = t\<lparr>tk_pend := pq_add (n\<lparr>nt_tail := truncate_tail (nt_tail n) (tk_tail t)\<rparr>) now (tk_pend t)\<rparr>
      in if nt_kind n = KindSubagent then release_subagent_slot (nt_id n) t else t)"

definition tracker_drain :: "task_tracker \<Rightarrow> notification list \<times> task_tracker" where
  "tracker_drain t = (let (ns, q) = snapshot_and_clear (tk_pend t) in (ns, t\<lparr>tk_pend := q\<rparr>))"

datatype registration = StartNow | Queued | Rejected

definition register_locked :: "string \<Rightarrow> task_tracker \<Rightarrow> registration \<times> task_tracker" where
  \<comment> \<open>\<^verbatim>\<open>RegisterSubagent\<close> up to its first unlock\<close>
  "register_locked id' t =
     (if tk_running t < tk_cap t then (StartNow, t\<lparr>tk_running := tk_running t + 1\<rparr>)
      else if subagent_queue_bound \<le> length (tk_waiters t) then (Rejected, t)
      else (Queued, t\<lparr>tk_waiters := tk_waiters t @ [id']\<rparr>))"

definition wire_cancel :: "string \<Rightarrow> task_tracker \<Rightarrow> task_tracker" where
  "wire_cancel id' t = t\<lparr>tk_cancels := List.insert id' (tk_cancels t)\<rparr>"

definition admit_locked :: "task_tracker \<Rightarrow> string option \<times> task_tracker" where
  \<comment> \<open>\<^verbatim>\<open>startNextWaiter\<close> up to its unlock\<close>
  "admit_locked t =
     (case tk_waiters t of
        [] \<Rightarrow> (None, t)
      | w # ws \<Rightarrow> (Some w, t\<lparr>tk_waiters := ws, tk_running := tk_running t + 1\<rparr>))"

definition cancel_task :: "string \<Rightarrow> task_tracker \<Rightarrow> bool" where
  "cancel_task id' t = (id' \<in> set (tk_cancels t))"

definition cancel_queued :: "task_tracker \<Rightarrow> nat \<times> task_tracker" where
  "cancel_queued t = (length (tk_waiters t), t\<lparr>tk_waiters := []\<rparr>)"

definition cancel_running :: "task_tracker \<Rightarrow> nat \<times> task_tracker" where
  "cancel_running t = (length (tk_cancels t), t\<lparr>tk_cancels := []\<rparr>)"

definition subagent_state :: "string \<Rightarrow> task_tracker \<Rightarrow> bool \<times> bool" where
  "subagent_state id' t = (if id' \<in> set (tk_waiters t) then (True, False) else (False, id' \<in> set (tk_cancels t)))"

fun waiter_position :: "string \<Rightarrow> nat \<Rightarrow> int \<Rightarrow> string list \<Rightarrow> int" where
  \<comment> \<open>the last match wins, \<open>-1\<close> for none\<close>
  "waiter_position id' i pos [] = pos"
| "waiter_position id' i pos (w # ws) = waiter_position id' (i + 1) (if w = id' then int (i + 1) else pos) ws"

definition queued_note :: "string \<Rightarrow> task_tracker \<Rightarrow> string" where
  "queued_note id' t =
     (let pos = waiter_position id' 0 (-1) (tk_waiters t)
      in if pos \<le> 0
         then ''Task '' @ id' @ '' is queued ('' @ decimal (tk_cap t) @
              '' concurrent background subagents running); it starts when a slot frees.''
         else ''Task '' @ id' @ '' is queued at position '' @ decimal (nat pos) @ '' behind '' @ decimal (tk_cap t) @
              '' concurrent background subagents; it starts when a slot frees.'')"

section \<open>Goroutines\<close>

datatype task_action =
    Launch string  \<comment> \<open>a slot is taken, \<^verbatim>\<open>start\<close> is to be called\<close>
  | Wire string  \<comment> \<open>\<^verbatim>\<open>start\<close> returned, its cancel function is to be stored\<close>
  | Live string  \<comment> \<open>the task runs and will complete\<close>
  | Admit  \<comment> \<open>a slot was released, the next waiter is to be started\<close>

record task_world =
  tw_tracker :: task_tracker
  tw_todo :: "task_action list"  \<comment> \<open>in no order\<close>
  tw_submitted :: "string list"
  tw_started :: "string list"
  tw_finished :: "string list"
  tw_delivered :: "string list"

definition new_world :: "int \<Rightarrow> task_world" where
  "new_world cap =
     \<lparr>tw_tracker = new_tracker cap 0, tw_todo = [], tw_submitted = [], tw_started = [], tw_finished = [], tw_delivered = []\<rparr>"

datatype task_event =
    Register string
  | Act task_action string int  \<comment> \<open>a pending action; exit status and time of a completion\<close>
  | Drain
  | CancelQueuedEv
  | CancelRunningEv

definition do_action :: "task_action \<Rightarrow> string \<Rightarrow> int \<Rightarrow> task_world \<Rightarrow> task_world" where
  "do_action a exit now w =
     (let w = w\<lparr>tw_todo := remove1 a (tw_todo w)\<rparr>
      in case a of
           Launch i \<Rightarrow> w\<lparr>tw_todo := tw_todo w @ [Wire i, Live i], tw_started := tw_started w @ [i]\<rparr>
         | Wire i \<Rightarrow> w\<lparr>tw_tracker := wire_cancel i (tw_tracker w)\<rparr>
         | Live i \<Rightarrow>
             w\<lparr>tw_tracker := complete_locked \<lparr>nt_id = i, nt_kind = KindSubagent, nt_exit = exit, nt_duration = 0,
                               nt_tail = [], nt_file = i\<rparr> now (tw_tracker w),
               tw_todo := tw_todo w @ [Admit], tw_finished := tw_finished w @ [i]\<rparr>
         | Admit \<Rightarrow>
             (case admit_locked (tw_tracker w) of
                (None, t) \<Rightarrow> w\<lparr>tw_tracker := t\<rparr>
              | (Some i, t) \<Rightarrow> w\<lparr>tw_tracker := t, tw_todo := tw_todo w @ [Launch i]\<rparr>))"

fun task_step :: "task_event \<Rightarrow> task_world \<Rightarrow> task_world option" where
  "task_step (Register i) w =
     (if i \<in> set (tw_submitted w) then None
      else
        (let (r, t) = register_locked i (tw_tracker w);
             w = w\<lparr>tw_tracker := t, tw_submitted := tw_submitted w @ [i]\<rparr>
         in Some (if r = StartNow then w\<lparr>tw_todo := tw_todo w @ [Launch i]\<rparr> else w)))"
| "task_step (Act a exit now) w = (if a \<in> set (tw_todo w) then Some (do_action a exit now w) else None)"
| "task_step Drain w =
     (let (ns, t) = tracker_drain (tw_tracker w)
      in Some (w\<lparr>tw_tracker := t, tw_delivered := tw_delivered w @ map nt_id ns\<rparr>))"
| "task_step CancelQueuedEv w = Some (w\<lparr>tw_tracker := snd (cancel_queued (tw_tracker w))\<rparr>)"
| "task_step CancelRunningEv w = Some (w\<lparr>tw_tracker := snd (cancel_running (tw_tracker w))\<rparr>)"

inductive task_reach :: "int \<Rightarrow> task_event list \<Rightarrow> task_world \<Rightarrow> bool" for cap :: int where
  start: "task_reach cap [] (new_world cap)"
| step: "task_reach cap es w \<Longrightarrow> task_step e w = Some w' \<Longrightarrow> task_reach cap (es @ [e]) w'"

section \<open>The output file\<close>

record subagent_writer =
  sw_file :: string
  sw_pending :: string
  sw_tail :: string

definition subagent_tail_window :: nat where
  "subagent_tail_window = 16 * 1024"

definition write_locked :: "bool \<Rightarrow> string \<Rightarrow> subagent_writer \<Rightarrow> subagent_writer" where
  \<comment> \<open>the boolean: the write succeeds\<close>
  "write_locked ok p w =
     (let b = sw_tail w @ p
      in w\<lparr>sw_file := (if ok then sw_file w @ p else sw_file w),
           sw_tail := (if subagent_tail_window < length b then drop (length b - subagent_tail_window) b else b)\<rparr>)"

fun find_cut :: "nat \<Rightarrow> nat \<Rightarrow> string \<Rightarrow> nat" where
  \<comment> \<open>the byte \<open>i\<close> from the end, for at most \<open>k\<close> of them: where the text of whole runes ends\<close>
  "find_cut 0 i buf = length buf"
| "find_cut (Suc k) i buf =
     (if length buf < i then length buf
      else if \<not> rune_start (buf ! (length buf - i)) then find_cut k (i + 1) buf
      else if rune_len (drop (length buf - i) buf) = None then length buf - i else length buf)"

definition write_rune_buffered :: "bool \<Rightarrow> string \<Rightarrow> subagent_writer \<Rightarrow> subagent_writer" where
  "write_rune_buffered ok p w =
     (let buf = sw_pending w @ p; n = find_cut 3 1 buf;
          w = w\<lparr>sw_pending := drop n buf\<rparr>
      in if 0 < n then write_locked ok (take n buf) w else w)"

definition writer_finish :: "bool \<Rightarrow> string \<Rightarrow> string \<Rightarrow> subagent_writer \<Rightarrow> subagent_writer" where
  "writer_finish ok marker res w =
     (let w = (if sw_pending w \<noteq> [] then w\<lparr>sw_tail := sw_tail w @ sw_pending w, sw_pending := []\<rparr> else w);
          line = [CHR 10] @ ''---'' @ [CHR 10] @ ''['' @ marker @ '']'' @ [CHR 10] @ (if res = [] then [] else res @ [CHR 10])
      in write_locked ok line w)"

definition writer_header :: "string \<Rightarrow> string \<Rightarrow> string" where
  "writer_header id' started =
     ''task_id: '' @ id' @ [CHR 10] @ ''kind: subagent'' @ [CHR 10] @ ''started: '' @ started @ [CHR 10] @ ''---'' @ [CHR 10]"

definition new_subagent_writer :: "bool \<Rightarrow> string \<Rightarrow> string \<Rightarrow> subagent_writer" where
  "new_subagent_writer ok id' started =
     write_locked ok (writer_header id' started) \<lparr>sw_file = [], sw_pending = [], sw_tail = []\<rparr>"

datatype run_end =
    Returned string "string option"  \<comment> \<open>the result and the error text of \<^verbatim>\<open>dep.Run\<close>\<close>
  | Panicked string  \<comment> \<open>the panic value and stack\<close>

definition end_status :: "bool \<Rightarrow> run_end \<Rightarrow> string \<times> string \<times> string" where
  \<comment> \<open>exit status, marker and result text; the boolean: cancelled\<close>
  "end_status cancelled e =
     (case e of
        Panicked p \<Rightarrow> (''error'', ''error'', ''subagent panic: '' @ p)
      | Returned res err \<Rightarrow>
          if cancelled then (''killed'', ''killed'', res)
          else (case err of Some m \<Rightarrow> (''error'', ''error: '' @ m, res) | None \<Rightarrow> (''0'', ''completed'', res)))"

definition run_output :: "bool \<Rightarrow> string \<Rightarrow> string \<Rightarrow> string list \<Rightarrow> bool \<Rightarrow> run_end \<Rightarrow> string \<times> subagent_writer" where
  \<comment> \<open>one background run: the header, the progress texts, the marker; with the exit status\<close>
  "run_output ok id' started texts cancelled e =
     (let w = fold (write_rune_buffered ok) texts (new_subagent_writer ok id' started);
          (status, marker, res) = end_status cancelled e
      in (status, writer_finish ok marker res w))"

end
