(* ===== verification/TaskProps.thy ===== *)
theory TaskProps
  imports Tasks "HOL-Library.Multiset"
begin

text \<open>
  Background tasks under every interleaving: slots are counted exactly, no queued task is stranded, a
  finished task is notified exactly once; and where the two critical sections of a completion leave a gap.
\<close>

section \<open>What is pending\<close>

definition launching :: "task_world \<Rightarrow> string multiset" where
  "launching w = mset (List.map_filter (\<lambda>a. case a of Launch i \<Rightarrow> Some i | _ \<Rightarrow> None) (tw_todo w))"

definition living :: "task_world \<Rightarrow> string multiset" where
  "living w = mset (List.map_filter (\<lambda>a. case a of Live i \<Rightarrow> Some i | _ \<Rightarrow> None) (tw_todo w))"

definition admissions :: "task_world \<Rightarrow> nat" where
  "admissions w = length (filter (\<lambda>a. a = Admit) (tw_todo w))"

lemma todo_filter_append [simp]: "List.map_filter f (xs @ ys) = List.map_filter f xs @ List.map_filter f ys"
  by (induction xs) (auto split: option.split)

lemma mset_map_filter_remove1:
  "a \<in> set xs \<Longrightarrow> mset (List.map_filter f xs) = mset (List.map_filter f (remove1 a xs)) + (case f a of Some y \<Rightarrow> {#y#} | None \<Rightarrow> {#})"
  by (induction xs) (auto split: option.split)

lemma filter_remove1_length:
  "a \<in> set xs \<Longrightarrow> length (filter P xs) = length (filter P (remove1 a xs)) + (if P a then 1 else 0)"
  by (induction xs) auto

definition slots_exact :: "task_world \<Rightarrow> bool" where
  \<comment> \<open>the counter is the number of tasks that launch or run\<close>
  "slots_exact w = (tk_running (tw_tracker w) = size (launching w) + size (living w))"

definition none_stranded :: "task_world \<Rightarrow> bool" where
  "none_stranded w =
     (tk_waiters (tw_tracker w) \<noteq> [] \<longrightarrow> tk_cap (tw_tracker w) \<le> tk_running (tw_tracker w) + admissions w)"

definition task_ids :: "task_world \<Rightarrow> string multiset" where
  "task_ids w = mset (tk_waiters (tw_tracker w)) + launching w + living w + mset (tw_finished w)"

definition ids_single :: "task_world \<Rightarrow> bool" where
  "ids_single w = (distinct (tw_submitted w) \<and> task_ids w \<subseteq># mset (tw_submitted w))"

definition queue_wf :: "pending_queue \<Rightarrow> bool" where
  "queue_wf q =
     (distinct (pq_order q) \<and> dom (pq_items q) = set (pq_order q) \<and>
      (\<forall>i x. pq_items q i = Some x \<longrightarrow> nt_id (pi_note x) = i))"

definition notified :: "task_world \<Rightarrow> bool" where
  "notified w =
     (queue_wf (tk_pend (tw_tracker w)) \<and>
      mset (tw_delivered w) + mset (pq_order (tk_pend (tw_tracker w))) = mset (tw_finished w))"

definition tasks_ok :: "task_world \<Rightarrow> bool" where
  "tasks_ok w = (slots_exact w \<and> none_stranded w \<and> ids_single w \<and> notified w \<and> 1 \<le> tk_cap (tw_tracker w))"

lemmas task_defs = slots_exact_def none_stranded_def task_ids_def ids_single_def notified_def launching_def living_def admissions_def

lemma new_world_ok: "tasks_ok (new_world cap)"
  by (auto simp: tasks_ok_def task_defs new_world_def new_tracker_def empty_queue_def queue_wf_def)

section \<open>The queue of notifications\<close>

lemma snapshot_ids:
  assumes "queue_wf q"
  shows "mset (map nt_id (snapshot_ordered q)) = mset (pq_order q)"
proof -
  have "map (nt_id \<circ> pi_note) (List.map_filter (pq_items q) is) = is" if "set is \<subseteq> dom (pq_items q)" for "is"
    using that
  proof (induction "is")
    case (Cons a "is")
    then obtain x where "pq_items q a = Some x" by auto
    with Cons assms show ?case by (simp add: queue_wf_def)
  qed simp
  then have "map (nt_id \<circ> pi_note) (List.map_filter (pq_items q) (pq_order q)) = pq_order q"
    using assms by (simp add: queue_wf_def)
  moreover have "mset (map nt_id (snapshot_ordered q)) =
      mset (map (nt_id \<circ> pi_note) (List.map_filter (pq_items q) (pq_order q)))"
    by (simp add: snapshot_ordered_def Let_def image_mset.compositionality comp_def)
  ultimately show ?thesis by simp
qed

lemma pq_add_wf:
  assumes "queue_wf q" "nt_id n \<notin> set (pq_order q)"
  shows "queue_wf (pq_add n now q)" "pq_order (pq_add n now q) = pq_order q @ [nt_id n]"
proof -
  have "pq_items q (nt_id n) = None" using assms by (auto simp: queue_wf_def)
  then show "queue_wf (pq_add n now q)" "pq_order (pq_add n now q) = pq_order q @ [nt_id n]"
    using assms by (auto simp: queue_wf_def pq_add_def)
qed

section \<open>Steps\<close>

lemma distinct_subset:
  assumes "mset xs \<subseteq># mset ys" "distinct ys"
  shows "distinct xs"
proof -
  obtain C where "mset ys = mset xs + C" using assms(1) by (auto simp: mset_subset_eq_exists_conv)
  moreover obtain zs where "mset zs = C" using ex_mset by blast
  ultimately have "mset ys = mset (xs @ zs)" by simp
  then have "distinct (xs @ zs)" using assms(2) mset_eq_imp_distinct_iff by blast
  then show ?thesis by simp
qed

definition without :: "task_action \<Rightarrow> task_world \<Rightarrow> task_world" where
  "without a w = w\<lparr>tw_todo := remove1 a (tw_todo w)\<rparr>"

lemma without_counts:
  assumes "a \<in> set (tw_todo w)"
  shows "launching w = launching (without a w) + (case a of Launch i \<Rightarrow> {#i#} | _ \<Rightarrow> {#})"
    and "living w = living (without a w) + (case a of Live i \<Rightarrow> {#i#} | _ \<Rightarrow> {#})"
    and "admissions w = admissions (without a w) + (if a = Admit then 1 else 0)"
  using mset_map_filter_remove1[OF assms, of "\<lambda>a. case a of Launch i \<Rightarrow> Some i | _ \<Rightarrow> None"]
    mset_map_filter_remove1[OF assms, of "\<lambda>a. case a of Live i \<Rightarrow> Some i | _ \<Rightarrow> None"]
    filter_remove1_length[OF assms, of "\<lambda>a. a = Admit"]
  by (simp_all add: without_def launching_def living_def admissions_def split: task_action.splits)

lemma todo_append:
  "launching (w\<lparr>tw_todo := tw_todo w @ as\<rparr>) = launching w + launching (w\<lparr>tw_todo := as\<rparr>)"
  "living (w\<lparr>tw_todo := tw_todo w @ as\<rparr>) = living w + living (w\<lparr>tw_todo := as\<rparr>)"
  "admissions (w\<lparr>tw_todo := tw_todo w @ as\<rparr>) = admissions w + admissions (w\<lparr>tw_todo := as\<rparr>)"
  by (simp_all add: launching_def living_def admissions_def)

lemma counts_frame [simp]:
  "launching (w\<lparr>tw_tracker := t\<rparr>) = launching w" "living (w\<lparr>tw_tracker := t\<rparr>) = living w" "admissions (w\<lparr>tw_tracker := t\<rparr>) = admissions w"
  "launching (w\<lparr>tw_submitted := xs\<rparr>) = launching w" "living (w\<lparr>tw_submitted := xs\<rparr>) = living w" "admissions (w\<lparr>tw_submitted := xs\<rparr>) = admissions w"
  "launching (w\<lparr>tw_started := xs\<rparr>) = launching w" "living (w\<lparr>tw_started := xs\<rparr>) = living w" "admissions (w\<lparr>tw_started := xs\<rparr>) = admissions w"
  "launching (w\<lparr>tw_finished := xs\<rparr>) = launching w" "living (w\<lparr>tw_finished := xs\<rparr>) = living w" "admissions (w\<lparr>tw_finished := xs\<rparr>) = admissions w"
  "launching (w\<lparr>tw_delivered := xs\<rparr>) = launching w" "living (w\<lparr>tw_delivered := xs\<rparr>) = living w" "admissions (w\<lparr>tw_delivered := xs\<rparr>) = admissions w"
  by (simp_all add: launching_def living_def admissions_def)

lemma counts_list:
  "launching (w\<lparr>tw_todo := [Launch i]\<rparr>) = {#i#}" "living (w\<lparr>tw_todo := [Launch i]\<rparr>) = {#}" "admissions (w\<lparr>tw_todo := [Launch i]\<rparr>) = 0"
  "launching (w\<lparr>tw_todo := [Wire i, Live i]\<rparr>) = {#}" "living (w\<lparr>tw_todo := [Wire i, Live i]\<rparr>) = {#i#}"
  "admissions (w\<lparr>tw_todo := [Wire i, Live i]\<rparr>) = 0"
  "launching (w\<lparr>tw_todo := [Admit]\<rparr>) = {#}" "living (w\<lparr>tw_todo := [Admit]\<rparr>) = {#}" "admissions (w\<lparr>tw_todo := [Admit]\<rparr>) = 1"
  by (simp_all add: launching_def living_def admissions_def)

lemma launch_ok:
  assumes "tasks_ok w" "Launch i \<in> set (tw_todo w)"
  shows "tasks_ok (do_action (Launch i) exit now w)"
proof -
  let ?u = "without (Launch i) w"
  let ?v = "?u\<lparr>tw_todo := tw_todo ?u @ [Wire i, Live i]\<rparr>"
  let ?w = "?v\<lparr>tw_started := tw_started w @ [i]\<rparr>"
  have d: "do_action (Launch i) exit now w = ?w" by (simp add: do_action_def without_def)
  have f: "tw_tracker ?u = tw_tracker w" "tw_submitted ?u = tw_submitted w" "tw_finished ?u = tw_finished w" "tw_delivered ?u = tw_delivered w"
    by (simp_all add: without_def)
  show ?thesis unfolding d using assms(1) without_counts[OF assms(2)]
    by (auto simp: tasks_ok_def slots_exact_def none_stranded_def ids_single_def task_ids_def notified_def f todo_append counts_list)
qed

lemma wire_ok:
  assumes "tasks_ok w" "Wire i \<in> set (tw_todo w)"
  shows "tasks_ok (do_action (Wire i) exit now w)"
proof -
  let ?u = "without (Wire i) w"
  let ?w = "?u\<lparr>tw_tracker := wire_cancel i (tw_tracker w)\<rparr>"
  have d: "do_action (Wire i) exit now w = ?w" by (simp add: do_action_def without_def)
  have f: "tw_submitted ?u = tw_submitted w" "tw_finished ?u = tw_finished w" "tw_delivered ?u = tw_delivered w"
    by (simp_all add: without_def)
  show ?thesis unfolding d using assms(1) without_counts[OF assms(2)]
    by (auto simp: tasks_ok_def slots_exact_def none_stranded_def ids_single_def task_ids_def notified_def f wire_cancel_def)
qed

lemma admit_ok:
  assumes "tasks_ok w" "Admit \<in> set (tw_todo w)"
  shows "tasks_ok (do_action Admit exit now w)"
proof (cases "tk_waiters (tw_tracker w)")
  case Nil
  let ?u = "without Admit w"
  have d: "do_action Admit exit now w = ?u" using Nil by (simp add: do_action_def without_def admit_locked_def)
  have f: "tw_tracker ?u = tw_tracker w" "tw_submitted ?u = tw_submitted w" "tw_finished ?u = tw_finished w" "tw_delivered ?u = tw_delivered w"
    by (simp_all add: without_def)
  show ?thesis unfolding d using assms(1) without_counts[OF assms(2)] Nil
    by (auto simp: tasks_ok_def slots_exact_def none_stranded_def ids_single_def task_ids_def notified_def f)
next
  case (Cons i ws)
  let ?u = "without Admit w"
  let ?v = "?u\<lparr>tw_todo := tw_todo ?u @ [Launch i]\<rparr>"
  let ?w = "?v\<lparr>tw_tracker := (tw_tracker w)\<lparr>tk_waiters := ws, tk_running := tk_running (tw_tracker w) + 1\<rparr>\<rparr>"
  have d: "do_action Admit exit now w = ?w" using Cons by (simp add: do_action_def without_def admit_locked_def)
  have f: "tw_submitted ?u = tw_submitted w" "tw_finished ?u = tw_finished w" "tw_delivered ?u = tw_delivered w"
    by (simp_all add: without_def)
  show ?thesis unfolding d using assms(1) without_counts[OF assms(2)] Cons
    by (auto simp: tasks_ok_def slots_exact_def none_stranded_def ids_single_def task_ids_def notified_def f todo_append counts_list ac_simps)
qed

lemma live_fresh:
  assumes "tasks_ok w" "Live i \<in> set (tw_todo w)"
  shows "i \<notin> set (tw_finished w)" "i \<notin> set (pq_order (tk_pend (tw_tracker w)))" "0 < tk_running (tw_tracker w)"
proof -
  have l: "i \<in># living w" using without_counts(2)[OF assms(2)] by simp
  have "count (task_ids w) i \<le> count (mset (tw_submitted w)) i"
    using assms(1) by (simp add: tasks_ok_def ids_single_def mset_subset_eq_count)
  also have "\<dots> \<le> 1" using assms(1) distinct_count_atmost_1[of "tw_submitted w"] by (simp add: tasks_ok_def ids_single_def)
  finally have "count (living w) i + count (mset (tw_finished w)) i \<le> 1" by (simp add: task_ids_def)
  moreover have "1 \<le> count (living w) i" using l by (simp add: Suc_leI)
  ultimately have "count (mset (tw_finished w)) i = 0" by linarith
  then show nf: "i \<notin> set (tw_finished w)" by (simp add: count_eq_zero_iff)
  have "set (pq_order (tk_pend (tw_tracker w))) \<subseteq> set (tw_finished w)"
    using assms(1) by (metis mset_subset_eq_add_right notified_def set_mset_mono set_mset_mset tasks_ok_def)
  with nf show "i \<notin> set (pq_order (tk_pend (tw_tracker w)))" by blast
  show "0 < tk_running (tw_tracker w)" using assms(1) l by (auto simp: tasks_ok_def slots_exact_def dest: multi_member_split)
qed

lemma live_ok:
  assumes "tasks_ok w" "Live i \<in> set (tw_todo w)"
  shows "tasks_ok (do_action (Live i) exit now w)"
proof -
  note fresh = live_fresh[OF assms]
  let ?n = "\<lparr>nt_id = i, nt_kind = KindSubagent, nt_exit = exit, nt_duration = 0, nt_tail = [], nt_file = i\<rparr>"
  let ?t = "complete_locked ?n now (tw_tracker w)"
  let ?u = "without (Live i) w"
  let ?v = "?u\<lparr>tw_todo := tw_todo ?u @ [Admit]\<rparr>"
  let ?w = "?v\<lparr>tw_tracker := ?t, tw_finished := tw_finished w @ [i]\<rparr>"
  have d: "do_action (Live i) exit now w = ?w" by (simp add: do_action_def without_def)
  have f: "tw_submitted ?u = tw_submitted w" "tw_delivered ?u = tw_delivered w" by (simp_all add: without_def)
  have q: "queue_wf (tk_pend ?t)" "pq_order (tk_pend ?t) = pq_order (tk_pend (tw_tracker w)) @ [i]"
    using pq_add_wf[of "tk_pend (tw_tracker w)" "?n\<lparr>nt_tail := truncate_tail [] (tk_tail (tw_tracker w))\<rparr>"] fresh(2) assms(1)
    by (simp_all add: complete_locked_def release_subagent_slot_def Let_def tasks_ok_def notified_def)
  have t: "tk_running ?t = tk_running (tw_tracker w) - 1" "tk_waiters ?t = tk_waiters (tw_tracker w)" "tk_cap ?t = tk_cap (tw_tracker w)"
    by (simp_all add: complete_locked_def release_subagent_slot_def)
  show ?thesis unfolding d using assms(1) without_counts[OF assms(2)] fresh(3)
    by (auto simp: tasks_ok_def slots_exact_def none_stranded_def ids_single_def task_ids_def notified_def f todo_append counts_list q t)
qed

lemma register_ok:
  assumes "tasks_ok w" "task_step (Register i) w = Some w'"
  shows "tasks_ok w'"
proof -
  have new: "i \<notin> set (tw_submitted w)" using assms(2) by (auto split: if_splits)
  let ?s = "tw_submitted w @ [i]" and ?t = "tw_tracker w"
  have sub: "M \<subseteq># mset (tw_submitted w) \<Longrightarrow> M \<subseteq># add_mset i (mset (tw_submitted w))" for M
    by (metis add_mset_add_single subset_mset.add_increasing2 subset_mset.zero_le)
  consider (start) "tk_running ?t < tk_cap ?t" | (full) "\<not> tk_running ?t < tk_cap ?t" "subagent_queue_bound \<le> length (tk_waiters ?t)"
    | (queue) "\<not> tk_running ?t < tk_cap ?t" "\<not> subagent_queue_bound \<le> length (tk_waiters ?t)" by blast
  then show ?thesis
  proof cases
    case start
    define v where "v = w\<lparr>tw_tracker := ?t\<lparr>tk_running := tk_running ?t + 1\<rparr>, tw_submitted := ?s\<rparr>"
    have v: "tw_tracker v = ?t\<lparr>tk_running := tk_running ?t + 1\<rparr>" "tw_submitted v = ?s" "tw_finished v = tw_finished w"
      "tw_delivered v = tw_delivered w" "launching v = launching w" "living v = living w" "admissions v = admissions w"
      by (simp_all add: v_def)
    have w': "w' = v\<lparr>tw_todo := tw_todo v @ [Launch i]\<rparr>" using assms(2) new start by (auto simp: register_locked_def v_def)
    show ?thesis unfolding w' using assms(1) new
      by (auto simp: tasks_ok_def slots_exact_def none_stranded_def ids_single_def task_ids_def notified_def v todo_append counts_list add.assoc)
  next
    case full
    let ?w = "w\<lparr>tw_tracker := ?t, tw_submitted := ?s\<rparr>"
    have w': "w' = ?w" using assms(2) new full by (auto simp: register_locked_def)
    show ?thesis unfolding w' using assms(1) new sub
      by (auto simp: tasks_ok_def slots_exact_def none_stranded_def ids_single_def task_ids_def notified_def add.assoc)
  next
    case queue
    let ?w = "w\<lparr>tw_tracker := ?t\<lparr>tk_waiters := tk_waiters ?t @ [i]\<rparr>, tw_submitted := ?s\<rparr>"
    have w': "w' = ?w" using assms(2) new queue by (auto simp: register_locked_def)
    show ?thesis unfolding w' using assms(1) new queue(1)
      by (auto simp: tasks_ok_def slots_exact_def none_stranded_def ids_single_def task_ids_def notified_def add.assoc)
  qed
qed

lemma drain_wf: "queue_wf q \<Longrightarrow> queue_wf (snd (snapshot_and_clear q))"
  by (auto simp: snapshot_and_clear_def queue_wf_def)

lemma drain_ok:
  assumes "tasks_ok w" "task_step Drain w = Some w'"
  shows "tasks_ok w'"
proof -
  let ?q = "tk_pend (tw_tracker w)"
  obtain ns q where nq: "snapshot_and_clear ?q = (ns, q)" by (rule prod.exhaust)
  have wf: "queue_wf ?q" using assms(1) by (simp add: tasks_ok_def notified_def)
  have "mset (map nt_id ns) + mset (pq_order q) = mset (pq_order ?q)"
    using nq snapshot_ids[OF wf] by (auto simp: snapshot_and_clear_def split: if_splits)
  moreover have "queue_wf q" using drain_wf[OF wf] nq by simp
  moreover have "w' = w\<lparr>tw_tracker := (tw_tracker w)\<lparr>tk_pend := q\<rparr>, tw_delivered := tw_delivered w @ map nt_id ns\<rparr>"
    using assms(2) nq by (auto simp: tracker_drain_def)
  ultimately show ?thesis using assms(1)
    by (auto simp: tasks_ok_def slots_exact_def none_stranded_def ids_single_def task_ids_def notified_def add.assoc)
qed

lemma cancel_ok:
  assumes "tasks_ok w" "task_step e w = Some w'" "e = CancelQueuedEv \<or> e = CancelRunningEv"
  shows "tasks_ok w'"
proof -
  have fewer: "tasks_ok (w\<lparr>tw_tracker := (tw_tracker w)\<lparr>tk_waiters := []\<rparr>\<rparr>)"
  proof -
    have "launching w + living w + mset (tw_finished w) \<subseteq># task_ids w"
      by (simp add: task_ids_def add.assoc)
    moreover have "task_ids w \<subseteq># mset (tw_submitted w)" using assms(1) by (simp add: tasks_ok_def ids_single_def)
    ultimately have "launching w + living w + mset (tw_finished w) \<subseteq># mset (tw_submitted w)" by (rule subset_mset.order_trans)
    then show ?thesis using assms(1)
      by (simp add: tasks_ok_def slots_exact_def none_stranded_def ids_single_def task_ids_def notified_def)
  qed
  have same: "tasks_ok (w\<lparr>tw_tracker := (tw_tracker w)\<lparr>tk_cancels := []\<rparr>\<rparr>)"
    using assms(1) unfolding tasks_ok_def slots_exact_def none_stranded_def ids_single_def task_ids_def notified_def counts_frame
    by auto
  show ?thesis using assms(2,3) fewer same by (elim disjE) (simp_all add: cancel_queued_def cancel_running_def)
qed

lemma act_ok: "tasks_ok w \<Longrightarrow> a \<in> set (tw_todo w) \<Longrightarrow> tasks_ok (do_action a exit now w)"
  by (cases a) (simp_all only: launch_ok wire_ok live_ok admit_ok)

lemma task_step_ok:
  assumes "tasks_ok w" "task_step e w = Some w'"
  shows "tasks_ok w'"
proof (cases e)
  case (Register i)
  then show ?thesis using register_ok[OF assms(1)] assms(2) by blast
next
  case (Act a exit now)
  then show ?thesis using act_ok[OF assms(1)] assms(2) by (auto split: if_splits)
next
  case Drain
  then show ?thesis using drain_ok[OF assms(1)] assms(2) by blast
qed (use cancel_ok[OF assms] in blast)+

lemma task_reach_ok: "task_reach cap es w \<Longrightarrow> tasks_ok w"
  by (induction rule: task_reach.induct) (auto intro: new_world_ok task_step_ok)

section \<open>Properties\<close>


lemma only_wires:
  "(\<And>a. a \<in> set xs \<Longrightarrow> \<exists>i. a = Wire i) \<Longrightarrow>
     List.map_filter (\<lambda>a. case a of Launch i \<Rightarrow> Some i | _ \<Rightarrow> None) xs = [] \<and>
     List.map_filter (\<lambda>a. case a of Live i \<Rightarrow> Some i | _ \<Rightarrow> None) xs = [] \<and> filter (\<lambda>a. a = Admit) xs = []"
proof (induction xs)
  case (Cons a xs)
  moreover obtain i where "a = Wire i" using Cons.prems by auto
  ultimately show ?case by simp
qed simp

text \<open>C22. No queued task is stranded: in every reachable state with a waiting task, the slots are all taken or
being handed over, so a task is about to launch, runs, or an admission is pending.\<close>

theorem queued_task_not_stranded:
  assumes "task_reach cap es w" "tk_waiters (tw_tracker w) \<noteq> []"
  shows "tk_cap (tw_tracker w) \<le> size (launching w) + size (living w) + admissions w \<and>
    (\<exists>a \<in> set (tw_todo w). a = Admit \<or> (\<exists>i. a = Launch i \<or> a = Live i))"
proof -
  have ok: "tasks_ok w" by (rule task_reach_ok[OF assms(1)])
  then have c: "tk_cap (tw_tracker w) \<le> size (launching w) + size (living w) + admissions w" "1 \<le> tk_cap (tw_tracker w)"
    using assms(2) by (auto simp: tasks_ok_def none_stranded_def slots_exact_def)
  have "\<not> (\<forall>a \<in> set (tw_todo w). \<exists>i. a = Wire i)"
  proof
    assume "\<forall>a \<in> set (tw_todo w). \<exists>i. a = Wire i"
    then have "launching w = {#} \<and> living w = {#} \<and> admissions w = 0"
      using only_wires[of "tw_todo w"] by (simp add: launching_def living_def admissions_def)
    with c show False by simp
  qed
  then obtain a where a: "a \<in> set (tw_todo w)" "\<forall>i. a \<noteq> Wire i" by blast
  from a(2) have "a = Admit \<or> (\<exists>i. a = Launch i \<or> a = Live i)" by (cases a) simp_all
  with a(1) c(1) show ?thesis by blast
qed

section \<open>The cap\<close>

inductive serial_reach :: "int \<Rightarrow> task_event list \<Rightarrow> task_world \<Rightarrow> bool" for cap :: int where
  start: "serial_reach cap [] (new_world cap)"
| step: "serial_reach cap es w \<Longrightarrow> task_step e w = Some w' \<Longrightarrow> (\<And>i. e = Register i \<Longrightarrow> admissions w = 0) \<Longrightarrow>
    serial_reach cap (es @ [e]) w'"

lemma serial_is_reach: "serial_reach cap es w \<Longrightarrow> task_reach cap es w"
  by (induction rule: serial_reach.induct) (auto intro: task_reach.intros)

definition within_cap :: "task_world \<Rightarrow> bool" where
  "within_cap w = (tk_running (tw_tracker w) + admissions w \<le> tk_cap (tw_tracker w))"

lemma act_within_cap:
  assumes "tasks_ok w" "within_cap w" "a \<in> set (tw_todo w)"
  shows "within_cap (do_action a exit now w)"
proof -
  note c = without_counts(3)[OF assms(3)]
  have l: "0 < tk_running (tw_tracker w)" if "a = Live i" for i using live_fresh(3)[OF assms(1)] assms(3) that by blast
  have r: "tk_running (tw_tracker (do_action a exit now w)) + admissions (do_action a exit now w) \<le>
      tk_running (tw_tracker w) + admissions w"
  proof (cases a)
    case (Live i)
    then show ?thesis using c l[OF Live]
      by (simp add: do_action_def Let_def without_def admissions_def complete_locked_def release_subagent_slot_def)
  next
    case Admit
    then show ?thesis using c
      by (simp add: do_action_def Let_def without_def admissions_def admit_locked_def split: list.split)
  qed (use c in \<open>simp_all add: do_action_def Let_def without_def admissions_def wire_cancel_def\<close>)
  have "tk_cap (tw_tracker (do_action a exit now w)) = tk_cap (tw_tracker w)"
    by (cases a) (simp_all add: do_action_def Let_def wire_cancel_def complete_locked_def release_subagent_slot_def
        admit_locked_def split: list.split)
  with r show ?thesis using assms(2) by (simp add: within_cap_def)
qed

lemma step_within_cap:
  assumes "tasks_ok w" "within_cap w" "task_step e w = Some w'" "\<And>i. e = Register i \<Longrightarrow> admissions w = 0"
  shows "within_cap w'"
proof (cases e)
  case (Register i)
  then show ?thesis using assms by (auto simp: within_cap_def register_locked_def admissions_def split: if_splits)
next
  case (Act a exit now)
  then show ?thesis using assms(3) act_within_cap[OF assms(1,2)] by (auto split: if_splits)
next
  case Drain
  then show ?thesis using assms(2,3)
    by (auto simp: within_cap_def tracker_drain_def admissions_def snapshot_and_clear_def split: if_splits prod.splits)
qed (use assms(2,3) in \<open>auto simp: within_cap_def cancel_queued_def cancel_running_def admissions_def\<close>)

text \<open>C34. When no registration comes between the release of a slot and the admission into it, the cap holds:
never more subagents launch or run than there are slots.\<close>

theorem serial_cap_respected:
  assumes "serial_reach cap es w"
  shows "size (launching w) + size (living w) \<le> tk_cap (tw_tracker w)"
proof -
  have "within_cap w" using assms
  proof (induction rule: serial_reach.induct)
    case start
    show ?case by (simp add: within_cap_def new_world_def new_tracker_def admissions_def)
  next
    case (step es w e w')
    then show ?case using step_within_cap task_reach_ok serial_is_reach by blast
  qed
  then show ?thesis using task_reach_ok[OF serial_is_reach[OF assms]]
    by (simp add: within_cap_def tasks_ok_def slots_exact_def)
qed

fun run_tasks :: "task_event list \<Rightarrow> task_world \<Rightarrow> task_world option" where
  "run_tasks [] w = Some w"
| "run_tasks (e # es) w = (case task_step e w of None \<Rightarrow> None | Some w' \<Rightarrow> run_tasks es w')"

lemma run_tasks_reach: "task_reach cap es0 w \<Longrightarrow> run_tasks es w = Some w' \<Longrightarrow> task_reach cap (es0 @ es) w'"
proof (induction es arbitrary: es0 w)
  case (Cons e es)
  then obtain u where u: "task_step e w = Some u" "run_tasks es u = Some w'" by (auto split: option.splits)
  from Cons.IH[OF task_reach.step[OF Cons.prems(1) u(1)] u(2)] show ?case by simp
qed simp

definition overtaken :: "task_event list" where
  \<comment> \<open>one slot: \<open>b\<close> waits, \<open>a\<close> completes, and \<open>c\<close> registers before \<open>b\<close> is admitted\<close>
  "overtaken = [Register ''a'', Register ''b'', Act (Launch ''a'') [] 0, Act (Wire ''a'') [] 0, Act (Live ''a'') ''0'' 1,
     Register ''c'', Act Admit [] 0, Register ''d'']"

lemma overtaken_runs:
  "map_option (\<lambda>w. (tk_cap (tw_tracker w), tk_running (tw_tracker w), tk_waiters (tw_tracker w), pq_order (tk_pend (tw_tracker w)), tw_finished w))
     (run_tasks overtaken (new_world 1)) = Some (1, 2, [''d''], [''a''], [''a''])"
  by code_simp

lemma overtaken_reach: "task_reach 1 overtaken (the (run_tasks overtaken (new_world 1)))"
  using run_tasks_reach[OF task_reach.start, of overtaken 1 "the (run_tasks overtaken (new_world 1))"] overtaken_runs
  by (cases "run_tasks overtaken (new_world 1)") auto


theorem queued_task_not_stranded_witness:
  "tk_cap (tw_tracker (the (run_tasks overtaken (new_world 1)))) \<le>
     size (launching (the (run_tasks overtaken (new_world 1)))) + size (living (the (run_tasks overtaken (new_world 1)))) +
     admissions (the (run_tasks overtaken (new_world 1)))"
proof -
  have "tk_waiters (tw_tracker (the (run_tasks overtaken (new_world 1)))) \<noteq> []"
    using overtaken_runs by (cases "run_tasks overtaken (new_world 1)") auto
  from queued_task_not_stranded[OF overtaken_reach this] show ?thesis by blast
qed

text \<open>The runs in which the restriction holds, executably.\<close>

fun run_serial :: "task_event list \<Rightarrow> task_world \<Rightarrow> task_world option" where
  "run_serial [] w = Some w"
| "run_serial (e # es) w =
     (if (case e of Register _ \<Rightarrow> admissions w = 0 | _ \<Rightarrow> True)
      then (case task_step e w of None \<Rightarrow> None | Some w' \<Rightarrow> run_serial es w') else None)"

lemma run_serial_reach: "serial_reach cap es0 w \<Longrightarrow> run_serial es w = Some w' \<Longrightarrow> serial_reach cap (es0 @ es) w'"
proof (induction es arbitrary: es0 w)
  case (Cons e es)
  then obtain u where u: "case e of Register _ \<Rightarrow> admissions w = 0 | _ \<Rightarrow> True" "task_step e w = Some u" "run_serial es u = Some w'"
    by (auto split: option.splits if_splits)
  have "serial_reach cap (es0 @ [e]) u" using u(1) by (intro serial_reach.step[OF Cons.prems(1) u(2)]) simp
  from Cons.IH[OF this u(3)] show ?case by simp
qed simp

definition orderly :: "task_event list" where
  "orderly = [Register ''a'', Register ''b'', Act (Launch ''a'') [] 0, Act (Wire ''a'') [] 0, Act (Live ''a'') ''0'' 1,
     Act Admit [] 0, Register ''c'', Act (Launch ''b'') [] 0, Drain]"

lemma orderly_runs:
  "map_option (\<lambda>w. (tk_cap (tw_tracker w), tk_running (tw_tracker w), tw_delivered w, tk_waiters (tw_tracker w)))
     (run_serial orderly (new_world 1)) = Some (1, 1, [''a''], [''c''])"
  by code_simp

theorem serial_cap_respected_witness:
  "size (launching (the (run_serial orderly (new_world 1)))) + size (living (the (run_serial orderly (new_world 1))))
     \<le> tk_cap (tw_tracker (the (run_serial orderly (new_world 1))))"
proof -
  have "serial_reach 1 orderly (the (run_serial orderly (new_world 1)))"
    using run_serial_reach[OF serial_reach.start, of orderly 1 "the (run_serial orderly (new_world 1))"] orderly_runs
    by (cases "run_serial orderly (new_world 1)") auto
  then show ?thesis by (rule serial_cap_respected)
qed

text \<open>Without that restriction the cap is exceeded: the registration takes the released slot, and the admission
counts itself in without looking at the cap.\<close>

lemma cap_exceeded:
  "map_option (\<lambda>w. (tk_cap (tw_tracker w), tk_running (tw_tracker w))) (run_tasks overtaken (new_world 1)) = Some (1, 2)"
  by code_simp

text \<open>A task that completes before its launcher stored the cancel function looks running for good: the entry
is written after the release removed it.\<close>

lemma finished_looks_running:
  "map_option (\<lambda>w. (tw_todo w, subagent_state ''a'' (tw_tracker w), cancel_task ''a'' (tw_tracker w)))
     (run_tasks [Register ''a'', Act (Launch ''a'') [] 0, Act (Live ''a'') ''0'' 1, Act (Wire ''a'') [] 0, Act Admit [] 0] (new_world 1)) =
   Some ([], (False, True), True)"
  by code_simp

section \<open>The output file\<close>

lemma find_cut_bounds: "find_cut k i buf \<le> length buf \<and> length buf < find_cut k i buf + i + k \<or> i = 0"
  by (induction k i buf rule: find_cut.induct) auto

lemma write_locked_file:
  "sw_file (write_locked ok p w) = (if ok then sw_file w @ p else sw_file w)" "sw_pending (write_locked ok p w) = sw_pending w"
  by (simp_all add: write_locked_def Let_def)

lemma write_locked_tail: "length (sw_tail (write_locked ok p w)) \<le> subagent_tail_window"
proof -
  let ?b = "sw_tail w @ p"
  have "sw_tail (write_locked ok p w) =
      (if subagent_tail_window < length ?b then drop (length ?b - subagent_tail_window) ?b else ?b)"
    by (simp add: write_locked_def Let_def)
  also have "length \<dots> \<le> subagent_tail_window"
    by (cases "subagent_tail_window < length ?b") (simp_all only: if_True if_False length_drop)
  finally show ?thesis .
qed

lemma write_rune_buffered_splits:
  obtains shown where "sw_file (write_rune_buffered True p w) = sw_file w @ shown"
    "sw_pending w @ p = shown @ sw_pending (write_rune_buffered True p w)"
    "length (sw_pending (write_rune_buffered True p w)) \<le> 3"
proof
  let ?buf = "sw_pending w @ p"
  have n: "find_cut 3 1 ?buf \<le> length ?buf" "length ?buf < find_cut 3 1 ?buf + 4"
    using find_cut_bounds[of 3 1 ?buf] by auto
  show "sw_file (write_rune_buffered True p w) = sw_file w @ take (find_cut 3 1 ?buf) ?buf"
    by (simp add: write_rune_buffered_def Let_def write_locked_file)
  have q: "sw_pending (write_rune_buffered True p w) = drop (find_cut 3 1 ?buf) ?buf"
    by (simp add: write_rune_buffered_def Let_def write_locked_file)
  show "?buf = take (find_cut 3 1 ?buf) ?buf @ sw_pending (write_rune_buffered True p w)"
    unfolding q by (rule append_take_drop_id[symmetric])
  show "length (sw_pending (write_rune_buffered True p w)) \<le> 3" unfolding q using n by simp
qed

lemma progress_file:
  assumes "length (sw_pending w) \<le> 3"
  shows "\<exists>shown. sw_file (fold (write_rune_buffered True) texts w) = sw_file w @ shown \<and>
      sw_pending w @ concat texts = shown @ sw_pending (fold (write_rune_buffered True) texts w) \<and>
      length (sw_pending (fold (write_rune_buffered True) texts w)) \<le> 3"
proof (induction texts rule: rev_induct)
  case (snoc p texts)
  let ?u = "fold (write_rune_buffered True) texts w"
  obtain s where s: "sw_file ?u = sw_file w @ s" "sw_pending w @ concat texts = s @ sw_pending ?u" using snoc by blast
  obtain t where t: "sw_file (write_rune_buffered True p ?u) = sw_file ?u @ t"
    "sw_pending ?u @ p = t @ sw_pending (write_rune_buffered True p ?u)"
    "length (sw_pending (write_rune_buffered True p ?u)) \<le> 3" by (rule write_rune_buffered_splits)
  have "sw_pending w @ concat (texts @ [p]) = (s @ t) @ sw_pending (write_rune_buffered True p ?u)"
    using s(2) t(2) by (metis append.assoc concat.simps concat_append append_Nil2)
  with s(1) t(1,3) show ?case by (intro exI[of _ "s @ t"]) simp
qed (use assms in simp)

lemma writer_finish_file:
  "sw_file (writer_finish True marker res w) = sw_file w @ [CHR 10] @ ''---'' @ [CHR 10] @ ''['' @ marker @ '']'' @ [CHR 10] @
     (if res = [] then [] else res @ [CHR 10])"
  "length (sw_tail (writer_finish True marker res w)) \<le> subagent_tail_window"
  by (simp_all add: writer_finish_def Let_def write_locked_file write_locked_tail)

text \<open>The output file of a background subagent, when its writes succeed, is the header, then every progress
text in order except at most three bytes of an unfinished rune at the very end, then one marker; and the tail the
notification carries never exceeds the window.\<close>

theorem output_file_is_progress:
  "let (status, w) = run_output True id' started texts cancelled e; (st, marker, res) = end_status cancelled e
   in \<exists>shown held. concat texts = shown @ held \<and> length held \<le> 3 \<and> status = st \<and>
        sw_file w = writer_header id' started @ shown @ [CHR 10] @ ''---'' @ [CHR 10] @ ''['' @ marker @ '']'' @ [CHR 10] @
          (if res = [] then [] else res @ [CHR 10]) \<and>
        length (sw_tail w) \<le> subagent_tail_window"
proof -
  obtain st marker res where e: "end_status cancelled e = (st, marker, res)" by (cases "end_status cancelled e") auto
  define w0 where "w0 = new_subagent_writer True id' started"
  define w where "w = fold (write_rune_buffered True) texts w0"
  have w0: "sw_file w0 = writer_header id' started" "sw_pending w0 = []"
    by (simp_all add: w0_def new_subagent_writer_def write_locked_file)
  then obtain shown where "sw_file w = writer_header id' started @ shown" "concat texts = shown @ sw_pending w"
    "length (sw_pending w) \<le> 3" using progress_file[of w0 texts] by (auto simp: w_def)
  moreover have "run_output True id' started texts cancelled e = (st, writer_finish True marker res w)"
    by (simp add: run_output_def w_def w0_def e)
  ultimately show ?thesis using e by (auto simp: writer_finish_file)
qed

end
