(* ===== verification/Emitter.thy ===== *)
theory Emitter
  imports Utf8
begin

text \<open>
  The client's side of the wire, \<^verbatim>\<open>internal/acp\<close>: the JSON-RPC messages and their frames
  (\<^verbatim>\<open>framer.go\<close>), the notifications of a turn and the ordered emitter that owns them
  (\<^verbatim>\<open>emitter.go\<close>): two bounded lanes, one drain goroutine, the barrier before a response. Every
  send, receive and critical section is a step of its own.
\<close>

section \<open>Messages and frames\<close>

record rpc_error =
  re_code :: int
  re_message :: string
  re_data :: raw_message

record rpc_message =
  rm_jsonrpc :: string
  rm_id :: raw_message
  rm_method :: string
  rm_params :: raw_message
  rm_result :: raw_message
  rm_error :: "rpc_error option"

definition error_json :: "rpc_error \<Rightarrow> json" where
  "error_json e = JObj (emit [(''code'', Some (JNum (re_code e))), (''message'', Some (JStr (re_message e))), (''data'', re_data e)])"

definition message_json :: "rpc_message \<Rightarrow> json" where
  "message_json m = JObj (emit
     [(''jsonrpc'', Some (JStr (rm_jsonrpc m))), (''id'', rm_id m), (''method'', opt_str (rm_method m)), (''params'', rm_params m),
      (''result'', rm_result m), (''error'', map_option error_json (rm_error m))])"

datatype frame_error = ErrFrameNewline | ErrEmptyLine | ErrFrameEOF | ErrFrameJson

definition newline :: char where
  "newline = CHR 10"

definition write_frame :: "json \<Rightarrow> frame_error + string" where
  "write_frame v = (let raw = json_text v in if newline \<in> set raw then Fail ErrFrameNewline else Ok (raw @ [newline]))"

text \<open>\<^verbatim>\<open>ReadBytes\<close>: the line with its newline, and the rest; \<open>None\<close> at the end of the input.\<close>

fun read_bytes :: "string \<Rightarrow> (string \<times> string) option" where
  "read_bytes [] = None"
| "read_bytes (c # s) =
     (if c = newline then Some ([c], s) else map_option (\<lambda>(l, r). (c # l, r)) (read_bytes s))"

definition trim_newlines :: "string \<Rightarrow> string" where
  "trim_newlines s = rev (dropWhile (\<lambda>c. c = newline) (rev s))"

definition read_frame :: "(string \<Rightarrow> 'm option) \<Rightarrow> string \<Rightarrow> (frame_error + 'm) \<times> string" where
  \<comment> \<open>\<open>decode\<close> is \<^verbatim>\<open>json.Unmarshal\<close> into the message\<close>
  "read_frame decode s =
     (case read_bytes s of
        None \<Rightarrow> (Fail ErrFrameEOF, [])
      | Some (line, rest) \<Rightarrow>
          (let line = trim_newlines line
           in (if line = [] then Fail ErrEmptyLine
               else case decode line of None \<Rightarrow> Fail ErrFrameJson | Some m \<Rightarrow> Ok m, rest)))"

fun read_frames :: "nat \<Rightarrow> (string \<Rightarrow> 'm option) \<Rightarrow> string \<Rightarrow> (frame_error + 'm) list" where
  \<comment> \<open>the reader goroutine keeps reading after a malformed line; the fuel is the number of reads\<close>
  "read_frames 0 decode s = []"
| "read_frames (Suc n) decode s =
     (let (r, rest) = read_frame decode s
      in if r = Fail ErrFrameEOF then [] else r # read_frames n decode rest)"

section \<open>Notifications\<close>

record content_block =
  cb_type :: string
  cb_text :: string
  cb_data :: string
  cb_mime :: string
  cb_uri :: string

definition content_json :: "content_block \<Rightarrow> json" where
  "content_json b = JObj (emit
     [(''type'', Some (JStr (cb_type b))), (''text'', opt_str (cb_text b)), (''data'', opt_str (cb_data b)),
      (''mimeType'', opt_str (cb_mime b)), (''uri'', opt_str (cb_uri b))])"

definition text_block :: "string \<Rightarrow> content_block" where
  "text_block t = \<lparr>cb_type = ''text'', cb_text = t, cb_data = [], cb_mime = [], cb_uri = []\<rparr>"

record card_content =
  cc_type :: string
  cc_content :: "content_block option"
  cc_path :: string
  cc_old :: string
  cc_new :: string

definition card_content_json :: "card_content \<Rightarrow> json" where
  "card_content_json c = JObj (emit
     [(''type'', Some (JStr (cc_type c))), (''content'', map_option content_json (cc_content c)), (''path'', opt_str (cc_path c)),
      (''oldText'', opt_str (cc_old c)), (''newText'', opt_str (cc_new c))])"

record card_location =
  cl_path :: string
  cl_line :: "int option"

definition location_json :: "card_location \<Rightarrow> json" where
  "location_json l = JObj (emit [(''path'', Some (JStr (cl_path l))), (''line'', map_option JNum (cl_line l))])"

record plan_entry =
  pe_content :: string
  pe_priority :: string
  pe_status :: string

definition plan_entry_json :: "plan_entry \<Rightarrow> json" where
  "plan_entry_json e =
     JObj [(''content'', JStr (pe_content e)), (''priority'', JStr (pe_priority e)), (''status'', JStr (pe_status e))]"

record card =
  cd_id :: string
  cd_title :: string
  cd_kind :: string
  cd_status :: string
  cd_content :: "card_content list"
  cd_locations :: "card_location list"
  cd_input :: raw_message

definition session_update :: "string \<Rightarrow> (string \<times> json) list \<Rightarrow> rpc_message" where
  \<comment> \<open>both maps are marshaled with their keys sorted\<close>
  "session_update sid update =
     \<lparr>rm_jsonrpc = ''2.0'', rm_id = None, rm_method = ''session/update'',
      rm_params = Some (JObj (map_fields [(''sessionId'', JStr sid), (''update'', JObj (map_fields update))])),
      rm_result = None, rm_error = None\<rparr>"

definition chunk_update :: "string \<Rightarrow> string \<Rightarrow> content_block \<Rightarrow> (string \<times> json) list" where
  "chunk_update kind mid b = [(''sessionUpdate'', JStr kind), (''messageId'', JStr mid), (''content'', content_json b)]"

definition agent_message_chunk :: "string \<Rightarrow> string \<Rightarrow> string \<Rightarrow> rpc_message" where
  "agent_message_chunk sid mid t = session_update sid (chunk_update ''agent_message_chunk'' mid (text_block t))"

definition user_message_chunk :: "string \<Rightarrow> string \<Rightarrow> string \<Rightarrow> rpc_message" where
  "user_message_chunk sid mid t = session_update sid (chunk_update ''user_message_chunk'' mid (text_block t))"

definition thought_chunk :: "string \<Rightarrow> string \<Rightarrow> content_block \<Rightarrow> rpc_message" where
  "thought_chunk sid mid b = session_update sid (chunk_update ''agent_thought_chunk'' mid b)"

definition plan_update :: "string \<Rightarrow> plan_entry list \<Rightarrow> rpc_message" where
  "plan_update sid es =
     session_update sid [(''sessionUpdate'', JStr ''plan''), (''entries'', JArr (map plan_entry_json es))]"

definition card_fields :: "card \<Rightarrow> (string \<times> json) list" where
  \<comment> \<open>\<^verbatim>\<open>applyOptionalCardFields\<close>\<close>
  "card_fields c = emit
     [(''title'', opt_str (cd_title c)), (''kind'', opt_str (cd_kind c)), (''status'', opt_str (cd_status c)),
      (''content'', if cd_content c = [] then None else Some (JArr (map card_content_json (cd_content c)))),
      (''locations'', if cd_locations c = [] then None else Some (JArr (map location_json (cd_locations c))))]"

definition as_plan_entry :: "json \<Rightarrow> plan_entry option" where
  "as_plan_entry v =
     (case v of
        JNull \<Rightarrow> Some \<lparr>pe_content = [], pe_priority = [], pe_status = []\<rparr>
      | JObj fs \<Rightarrow>
          (case (get_field as_str ''content'' [] fs, get_field as_str ''priority'' [] fs, get_field as_str ''status'' [] fs) of
             (Some c, Some p, Some s) \<Rightarrow> Some \<lparr>pe_content = c, pe_priority = p, pe_status = s\<rparr>
           | _ \<Rightarrow> None)
      | _ \<Rightarrow> None)"

definition as_plan_entries :: "json \<Rightarrow> plan_entry list option" where
  "as_plan_entries v = (case v of JArr vs \<Rightarrow> those (map as_plan_entry vs) | _ \<Rightarrow> None)"

definition plan_entries_from_todo :: "raw_message \<Rightarrow> plan_entry list option" where
  "plan_entries_from_todo raw =
     (case raw of
        None \<Rightarrow> None
      | Some JNull \<Rightarrow> Some []
      | Some (JObj fs) \<Rightarrow> get_field as_plan_entries ''todos'' [] fs
      | Some _ \<Rightarrow> None)"

definition tool_call :: "string \<Rightarrow> card \<Rightarrow> rpc_message" where
  "tool_call sid c =
     (case (if cd_title c = ''TodoWrite'' then plan_entries_from_todo (cd_input c) else None) of
        Some es \<Rightarrow> plan_update sid es
      | None \<Rightarrow>
          session_update sid ([(''sessionUpdate'', JStr ''tool_call''), (''toolCallId'', JStr (cd_id c))] @ card_fields c))"

definition tool_call_update :: "string \<Rightarrow> card \<Rightarrow> rpc_message" where
  "tool_call_update sid c =
     session_update sid ([(''sessionUpdate'', JStr ''tool_call_update''), (''toolCallId'', JStr (cd_id c))] @ card_fields c)"

section \<open>The emitter\<close>

datatype frame_class = Foreground | Background

type_synonym class_frame = "frame_class \<times> rpc_message"

datatype drain_pc =
    AtTop  \<comment> \<open>before the first \<^verbatim>\<open>select\<close>\<close>
  | AtBoth  \<comment> \<open>the foreground lane was seen empty\<close>
  | Writing class_frame  \<comment> \<open>received, \<^verbatim>\<open>sink.Write\<close> has not returned\<close>
  | Booking  \<comment> \<open>written, the counter is to be bumped\<close>
  | Exited

record emitter =
  em_fg :: "rpc_message list"
  em_bg :: "rpc_message list"
  em_fg_cap :: nat
  em_bg_cap :: nat
  em_enqueued :: int
  em_written :: int
  em_producers :: "class_frame list"  \<comment> \<open>counted in, blocked at their lane\<close>
  em_drain :: drain_pc
  em_stopped :: bool
  em_accepted :: "class_frame list"  \<comment> \<open>every completed send, in order\<close>
  em_wire :: "class_frame list"  \<comment> \<open>every frame handed to the sink, in order\<close>

definition new_emitter :: "int \<Rightarrow> int \<Rightarrow> emitter" where
  "new_emitter fg bg =
     \<lparr>em_fg = [], em_bg = [], em_fg_cap = nat (if fg \<le> 0 then 128 else fg), em_bg_cap = nat (if bg \<le> 0 then 256 else bg),
      em_enqueued = 0, em_written = 0, em_producers = [], em_drain = AtTop, em_stopped = False,
      em_accepted = [], em_wire = []\<rparr>"

definition lane :: "frame_class \<Rightarrow> emitter \<Rightarrow> rpc_message list" where
  "lane c w = (case c of Foreground \<Rightarrow> em_fg w | Background \<Rightarrow> em_bg w)"

definition lane_cap :: "frame_class \<Rightarrow> emitter \<Rightarrow> nat" where
  "lane_cap c w = (case c of Foreground \<Rightarrow> em_fg_cap w | Background \<Rightarrow> em_bg_cap w)"

definition set_lane :: "frame_class \<Rightarrow> rpc_message list \<Rightarrow> emitter \<Rightarrow> emitter" where
  "set_lane c ms w = (case c of Foreground \<Rightarrow> w\<lparr>em_fg := ms\<rparr> | Background \<Rightarrow> w\<lparr>em_bg := ms\<rparr>)"

datatype em_event =
    Publish frame_class rpc_message  \<comment> \<open>the counter is bumped\<close>
  | Send nat  \<comment> \<open>a blocked producer sends\<close>
  | GiveUp nat  \<comment> \<open>a blocked producer sees the emitter stopped\<close>
  | TakeFg  \<comment> \<open>the first \<^verbatim>\<open>select\<close>\<close>
  | Take frame_class  \<comment> \<open>the second\<close>
  | ExitDrain
  | SinkReturns
  | BookWritten
  | StopEmitter

definition drop_producer :: "nat \<Rightarrow> emitter \<Rightarrow> emitter" where
  "drop_producer k w = w\<lparr>em_producers := take k (em_producers w) @ drop (Suc k) (em_producers w)\<rparr>"

fun em_step :: "em_event \<Rightarrow> emitter \<Rightarrow> emitter option" where
  "em_step (Publish c m) w =
     Some (w\<lparr>em_enqueued := em_enqueued w + 1, em_producers := em_producers w @ [(c, m)]\<rparr>)"
| "em_step (Send k) w =
     (if k < length (em_producers w) then
        (let (c, m) = em_producers w ! k
         in if length (lane c w) < lane_cap c w
            then Some (set_lane c (lane c w @ [m]) (drop_producer k w)\<lparr>em_accepted := em_accepted w @ [(c, m)]\<rparr>)
            else None)
      else None)"
| "em_step (GiveUp k) w =
     (if em_stopped w \<and> k < length (em_producers w)
      then Some ((drop_producer k w)\<lparr>em_enqueued := em_enqueued w - 1\<rparr>) else None)"
| "em_step TakeFg w =
     (if em_drain w = AtTop then
        (case em_fg w of
           m # ms \<Rightarrow> Some (w\<lparr>em_fg := ms, em_drain := Writing (Foreground, m)\<rparr>)
         | [] \<Rightarrow> Some (w\<lparr>em_drain := AtBoth\<rparr>))
      else None)"
| "em_step (Take c) w =
     (if em_drain w = AtBoth then
        (case lane c w of
           m # ms \<Rightarrow> Some ((set_lane c ms w)\<lparr>em_drain := Writing (c, m)\<rparr>)
         | [] \<Rightarrow> None)
      else None)"
| "em_step ExitDrain w = (if em_drain w = AtBoth \<and> em_stopped w then Some (w\<lparr>em_drain := Exited\<rparr>) else None)"
| "em_step SinkReturns w =
     (case em_drain w of Writing cm \<Rightarrow> Some (w\<lparr>em_wire := em_wire w @ [cm], em_drain := Booking\<rparr>) | _ \<Rightarrow> None)"
| "em_step BookWritten w =
     (if em_drain w = Booking then Some (w\<lparr>em_written := em_written w + 1, em_drain := AtTop\<rparr>) else None)"
| "em_step StopEmitter w = Some (w\<lparr>em_stopped := True\<rparr>)"

fun em_run :: "em_event list \<Rightarrow> emitter \<Rightarrow> emitter option" where
  "em_run [] w = Some w"
| "em_run (e # es) w = (case em_step e w of None \<Rightarrow> None | Some w' \<Rightarrow> em_run es w')"

definition barrier_target :: "emitter \<Rightarrow> int" where
  "barrier_target w = em_enqueued w"

definition barrier_done :: "int \<Rightarrow> emitter \<Rightarrow> bool" where
  "barrier_done target w = (target \<le> em_written w)"

section \<open>The stall watermark\<close>

record stall_watermark =
  wm_since :: "int option"  \<comment> \<open>\<open>None\<close> is the zero time\<close>
  wm_logged :: bool

definition no_watermark :: stall_watermark where
  "no_watermark = \<lparr>wm_since = None, wm_logged = False\<rparr>"

definition sample_stall :: "int \<Rightarrow> bool \<Rightarrow> int \<Rightarrow> stall_watermark \<Rightarrow> stall_watermark \<times> bool" where
  \<comment> \<open>the boolean: one stall is reported\<close>
  "sample_stall threshold full now wm =
     (if \<not> full then (no_watermark, False)
      else case wm_since wm of
             None \<Rightarrow> (\<lparr>wm_since = Some now, wm_logged = False\<rparr>, False)
           | Some since \<Rightarrow>
               if wm_logged wm \<or> now - since < threshold then (wm, False) else (wm\<lparr>wm_logged := True\<rparr>, True))"

fun sample_run :: "int \<Rightarrow> (bool \<times> int) list \<Rightarrow> stall_watermark \<Rightarrow> bool list" where
  "sample_run threshold [] wm = []"
| "sample_run threshold ((full, now) # ss) wm =
     (let (wm, reported) = sample_stall threshold full now wm in reported # sample_run threshold ss wm)"

end
