(* ===== verification/EmitterProps.thy ===== *)
theory EmitterProps
  imports Emitter
begin

text \<open>
  The wire: a marshaled frame is one line, so a stream of frames reads back; the emitter loses nothing and keeps
  each lane's order; what the barrier before a response guarantees, and where a foreground frame overtakes it.
\<close>

section \<open>One frame is one line\<close>

fun plain_numbers :: "json \<Rightarrow> bool" where
  \<comment> \<open>number literals have no newline\<close>
  "plain_numbers (JFrac s) = (newline \<notin> set s)"
| "plain_numbers (JArr vs) = list_all plain_numbers vs"
| "plain_numbers (JObj fs) = list_all plain_numbers (map snd fs)"
| "plain_numbers _ = True"

lemma newline_code: "byte_in lo hi c \<Longrightarrow> 10 < lo \<Longrightarrow> c \<noteq> newline"
  by (auto simp: newline_def byte_in_def)

lemma cont_byte_plain: "cont_byte c \<Longrightarrow> c \<noteq> newline"
  using newline_code by (auto simp: cont_byte_def)

lemma rune_bytes:
  assumes "rune_len s = Some n"
  shows "n = 1 \<or> newline \<notin> set (take n s)"
proof (cases s)
  case (Cons a r)
  show ?thesis
  proof (cases "byte_in 0 0x7F a")
    case False
    have a: "byte_in 0xC2 0xDF a \<or> byte_in 0xE0 0xEF a \<or> byte_in 0xF0 0xF4 a"
      using assms Cons False by (auto split: if_splits)
    then have "a \<noteq> newline" using newline_code[of "0xC2" "0xDF" a] newline_code[of "0xE0" "0xEF" a] newline_code[of "0xF0" "0xF4" a] by auto
    then show ?thesis using assms Cons False
      by (auto dest!: cont_byte_plain split: if_splits list.splits)
  qed (use assms Cons in simp)
qed (use assms in simp)

lemma hex_digit_plain: "hex_digit n \<noteq> newline"
proof -
  have "n mod 16 < 16" by simp
  then have "hex_digit n \<in> set ''0123456789abcdef''" unfolding hex_digit_def by (intro nth_mem) simp
  then show ?thesis by (auto simp: newline_def)
qed

lemma u_escape_plain: "newline \<notin> set (u_escape n)"
  using hex_digit_plain[symmetric] by (simp add: u_escape_def) (simp add: newline_def)

lemma rune_json_plain:
  assumes "length r = 1 \<or> newline \<notin> set r"
  shows "newline \<notin> set (rune_json r)"
proof (cases "map_of short_escapes r")
  case (Some c)
  then have "c \<in> snd ` set short_escapes" using map_of_SomeD by force
  then have "c \<noteq> newline" by (auto simp: short_escapes_def newline_def)
  then show ?thesis using Some by (simp add: rune_json_def newline_def)
next
  case None
  have "newline \<notin> set r"
  proof
    assume n: "newline \<in> set r"
    with assms have "r = [newline]" by (cases r) auto
    with None show False by (simp add: short_escapes_def newline_def)
  qed
  then show ?thesis using None u_escape_plain by (simp add: rune_json_def)
qed

lemma string_json_plain: "newline \<notin> set (string_json s)"
proof (induction s rule: string_json.induct)
  case (2 a s)
  show ?case
  proof (cases "rune_len (a # s)")
    case None
    then show ?thesis using 2 u_escape_plain by simp
  next
    case (Some n)
    then have "0 < n" using rune_len_pos by blast
    then show ?thesis using Some 2 rune_json_plain[of "take n (a # s)"] rune_bytes[OF Some] by auto
  qed
qed simp

lemma digits_plain: "newline \<notin> set (decimal n)"
  using decimal_digits[of n] by (auto simp: newline_def list_all_iff is_digit_def dest!: bspec)

lemma join_plain: "newline \<notin> set sep \<Longrightarrow> (\<And>s. s \<in> set ss \<Longrightarrow> newline \<notin> set s) \<Longrightarrow> newline \<notin> set (join_with sep ss)"
  by (induction sep ss rule: join_with.induct) auto

lemma json_text_plain: "plain_numbers v \<Longrightarrow> newline \<notin> set (json_text v)"
proof (induction v rule: json_text.induct)
  case (6 vs)
  then show ?case
    using join_plain[of "'',''" "map json_text vs"] by (auto simp: newline_def list_all_iff)
next
  case (7 fs)
  then show ?case
  proof -
    have "newline \<notin> set (quoted k @ '':'' @ json_text v)" if "(k, v) \<in> set fs" for k v
    proof -
      have "newline \<notin> set (json_text v)" using 7 that by (force simp: list_all_iff)
      then show ?thesis using string_json_plain[of k] by (simp add: quoted_def) (simp add: newline_def)
    qed
    then have "newline \<notin> set s" if "s \<in> set (map (\<lambda>(k, v). quoted k @ '':'' @ json_text v) fs)" for s
      using that by fastforce
    then show ?thesis
      using join_plain[of "'',''" "map (\<lambda>(k, v). quoted k @ '':'' @ json_text v) fs"] by (simp add: newline_def)
  qed
qed (use string_json_plain digits_plain in \<open>auto simp: quoted_def newline_def\<close>)

lemma read_bytes_line: "newline \<notin> set l \<Longrightarrow> read_bytes (l @ newline # s) = Some (l @ [newline], s)"
  by (induction l) auto

lemma trim_line: "newline \<notin> set l \<Longrightarrow> trim_newlines (l @ [newline]) = l"
  by (cases l rule: rev_cases) (auto simp: trim_newlines_def)

lemma object_text_nonempty: "json_text (message_json m) \<noteq> []"
  by (simp add: message_json_def)

definition stream_of :: "rpc_message list \<Rightarrow> string" where
  "stream_of ms = concat (map (\<lambda>m. case write_frame (message_json m) of Inr bytes \<Rightarrow> bytes | Inl _ \<Rightarrow> []) ms)"

text \<open>C30. A stream of written frames, whose number literals are free of newlines, reads back as the same messages
in order, one line each, and writing never fails on a raw newline.\<close>

theorem frames_read_back:
  assumes "\<And>m. m \<in> set ms \<Longrightarrow> decode (json_text (message_json m)) = Some m"
    and "\<And>m. m \<in> set ms \<Longrightarrow> plain_numbers (message_json m)"
  shows "read_frames (length ms) decode (stream_of ms) = map Ok ms"
  using assms
proof (induction ms)
  case (Cons m ms)
  have p: "newline \<notin> set (json_text (message_json m))" using Cons.prems(2) by (intro json_text_plain) simp
  then have w: "stream_of (m # ms) = json_text (message_json m) @ newline # stream_of ms"
    by (simp add: stream_of_def write_frame_def)
  have "read_frame decode (stream_of (m # ms)) = (Ok m, stream_of ms)"
    unfolding w using Cons.prems(1) by (simp add: read_frame_def read_bytes_line[OF p] trim_line[OF p] object_text_nonempty)
  moreover have "read_frames (length ms) decode (stream_of ms) = map Ok ms" using Cons by simp
  ultimately show ?case by simp
qed (simp add: stream_of_def)

theorem frames_read_back_witness:
  "read_frames 1 (\<lambda>s. if s = json_text (message_json (agent_message_chunk ''s'' ''m'' [CHR 10])) then Some (agent_message_chunk ''s'' ''m'' [CHR 10]) else None)
     (stream_of [agent_message_chunk ''s'' ''m'' [CHR 10]]) = [Ok (agent_message_chunk ''s'' ''m'' [CHR 10])]"
proof -
  have "plain_numbers (message_json (agent_message_chunk ''s'' ''m'' [CHR 10]))" by code_simp
  then show ?thesis
    using frames_read_back[of "[agent_message_chunk ''s'' ''m'' [CHR 10]]"
        "\<lambda>s. if s = json_text (message_json (agent_message_chunk ''s'' ''m'' [CHR 10])) then Some (agent_message_chunk ''s'' ''m'' [CHR 10]) else None"]
    by simp
qed

section \<open>The emitter's invariant\<close>

definition in_flight :: "emitter \<Rightarrow> class_frame list" where
  "in_flight w = (case em_drain w of Writing cm \<Rightarrow> [cm] | _ \<Rightarrow> [])"

definition of_class :: "frame_class \<Rightarrow> class_frame list \<Rightarrow> class_frame list" where
  "of_class c = filter (\<lambda>cm. fst cm = c)"

lemma of_class_simps [simp]:
  "of_class c [] = []" "of_class c (xs @ ys) = of_class c xs @ of_class c ys"
  "of_class c ((d, m) # xs) = (if d = c then (d, m) # of_class c xs else of_class c xs)"
  by (simp_all add: of_class_def)

lemma of_class_length: "length xs = length (of_class Foreground xs) + length (of_class Background xs)"
proof (induction xs)
  case (Cons cm xs)
  then show ?case by (cases cm; cases "fst cm") auto
qed simp

definition lanes_ordered :: "emitter \<Rightarrow> bool" where
  \<comment> \<open>per lane: what was accepted is written, in flight or in the lane, in this order\<close>
  "lanes_ordered w = (\<forall>c. of_class c (em_accepted w) = of_class c (em_wire w @ in_flight w) @ map (Pair c) (lane c w))"

definition counts_right :: "emitter \<Rightarrow> bool" where
  "counts_right w =
     (em_enqueued w = int (length (em_producers w)) + int (length (em_accepted w)) \<and>
      em_written w = int (length (em_wire w)) - (if em_drain w = Booking then 1 else 0))"

definition emitter_ok :: "emitter \<Rightarrow> bool" where
  "emitter_ok w =
     (lanes_ordered w \<and> counts_right w \<and> (\<forall>c. length (lane c w) \<le> lane_cap c w \<and> 1 \<le> lane_cap c w) \<and>
      (em_drain w = Exited \<longrightarrow> em_stopped w))"

lemma lane_simps [simp]:
  "lane c (set_lane d ms w) = (if c = d then ms else lane c w)" "lane_cap c (set_lane d ms w) = lane_cap c w"
  "em_accepted (set_lane d ms w) = em_accepted w" "em_wire (set_lane d ms w) = em_wire w" "em_drain (set_lane d ms w) = em_drain w"
  "em_producers (set_lane d ms w) = em_producers w" "em_enqueued (set_lane d ms w) = em_enqueued w"
  "em_written (set_lane d ms w) = em_written w" "em_stopped (set_lane d ms w) = em_stopped w"
  by (cases d; cases c; simp add: lane_def lane_cap_def set_lane_def)+

lemma lane_frame [simp]:
  "lane c (w\<lparr>em_accepted := a\<rparr>) = lane c w" "lane c (w\<lparr>em_drain := d\<rparr>) = lane c w" "lane c (w\<lparr>em_wire := x\<rparr>) = lane c w"
  "lane c (w\<lparr>em_producers := p\<rparr>) = lane c w" "lane c (w\<lparr>em_enqueued := n\<rparr>) = lane c w" "lane c (w\<lparr>em_written := n\<rparr>) = lane c w"
  "lane c (w\<lparr>em_stopped := b\<rparr>) = lane c w"
  "lane_cap c (w\<lparr>em_accepted := a\<rparr>) = lane_cap c w" "lane_cap c (w\<lparr>em_drain := d\<rparr>) = lane_cap c w" "lane_cap c (w\<lparr>em_wire := x\<rparr>) = lane_cap c w"
  "lane_cap c (w\<lparr>em_producers := p\<rparr>) = lane_cap c w" "lane_cap c (w\<lparr>em_enqueued := n\<rparr>) = lane_cap c w" "lane_cap c (w\<lparr>em_written := n\<rparr>) = lane_cap c w"
  "lane_cap c (w\<lparr>em_stopped := b\<rparr>) = lane_cap c w"
  by (cases c; simp add: lane_def lane_cap_def)+

lemma drop_producer_simps [simp]:
  "lane c (drop_producer k w) = lane c w" "lane_cap c (drop_producer k w) = lane_cap c w" "em_accepted (drop_producer k w) = em_accepted w"
  "em_wire (drop_producer k w) = em_wire w" "em_drain (drop_producer k w) = em_drain w" "em_enqueued (drop_producer k w) = em_enqueued w"
  "em_written (drop_producer k w) = em_written w" "em_stopped (drop_producer k w) = em_stopped w"
  "k < length (em_producers w) \<Longrightarrow> length (em_producers (drop_producer k w)) + 1 = length (em_producers w)"
  by (simp_all add: drop_producer_def)

lemma em_step_ok:
  assumes "emitter_ok w" "em_step e w = Some w'"
  shows "emitter_ok w'"
proof (cases e)
  case (Publish c m)
  then show ?thesis using assms by (auto simp: emitter_ok_def lanes_ordered_def counts_right_def in_flight_def)
next
  case (Send k)
  then obtain c m where cm: "k < length (em_producers w)" "em_producers w ! k = (c, m)" "length (lane c w) < lane_cap c w"
    "w' = set_lane c (lane c w @ [m]) (drop_producer k w)\<lparr>em_accepted := em_accepted w @ [(c, m)]\<rparr>"
    using assms(2) by (auto split: if_splits prod.splits)
  have "length (em_producers w) = length (em_producers (drop_producer k w)) + 1" using drop_producer_simps(9)[OF cm(1)] by simp
  then show ?thesis using assms(1) cm(3) unfolding cm(4)
    by (auto simp: emitter_ok_def lanes_ordered_def counts_right_def in_flight_def split: drain_pc.splits)
next
  case (GiveUp k)
  then have k: "k < length (em_producers w)" "w' = (drop_producer k w)\<lparr>em_enqueued := em_enqueued w - 1\<rparr>"
    using assms(2) by (auto split: if_splits)
  have "length (em_producers w) = length (em_producers (drop_producer k w)) + 1" using drop_producer_simps(9)[OF k(1)] by simp
  then show ?thesis using assms(1) unfolding k(2)
    by (auto simp: emitter_ok_def lanes_ordered_def counts_right_def in_flight_def)
next
  case TakeFg
  show ?thesis
  proof (cases "em_fg w")
    case Nil
    then show ?thesis using assms TakeFg
      by (auto simp: emitter_ok_def lanes_ordered_def counts_right_def in_flight_def split: if_splits)
  next
    case (Cons m ms)
    then have "w' = (set_lane Foreground ms w)\<lparr>em_drain := Writing (Foreground, m)\<rparr>" "lane Foreground w = m # ms" "em_drain w = AtTop" "length (m # ms) \<le> lane_cap Foreground w"
      using assms TakeFg Cons by (auto simp: set_lane_def lane_def emitter_ok_def split: if_splits frame_class.splits)
    then show ?thesis using assms(1)
      by (auto simp: emitter_ok_def lanes_ordered_def counts_right_def in_flight_def)
  qed
next
  case (Take c)
  then obtain m ms where t: "lane c w = m # ms" "em_drain w = AtBoth" "w' = (set_lane c ms w)\<lparr>em_drain := Writing (c, m)\<rparr>"
    using assms(2) by (auto split: if_splits list.splits)
  have "length (lane c w) \<le> lane_cap c w" using assms(1) by (simp add: emitter_ok_def)
  with t show ?thesis using assms(1) by (auto simp: emitter_ok_def lanes_ordered_def counts_right_def in_flight_def)
next
  case SinkReturns
  then show ?thesis using assms
    by (auto simp: emitter_ok_def lanes_ordered_def counts_right_def in_flight_def split: drain_pc.splits)
qed (use assms in \<open>auto simp: emitter_ok_def lanes_ordered_def counts_right_def in_flight_def split: if_splits\<close>)

lemma new_emitter_ok: "emitter_ok (new_emitter fg bg)"
  by (auto simp: emitter_ok_def lanes_ordered_def counts_right_def in_flight_def new_emitter_def lane_def lane_cap_def split: frame_class.split)

lemma em_run_ok: "emitter_ok w \<Longrightarrow> em_run es w = Some w' \<Longrightarrow> emitter_ok w'"
  by (induction es arbitrary: w) (auto split: option.splits intro: em_step_ok)

section \<open>What a run keeps\<close>

lemma em_step_grows:
  "em_step e w = Some w' \<Longrightarrow> (\<exists>xs. em_accepted w' = em_accepted w @ xs) \<and> (\<exists>ys. em_wire w' = em_wire w @ ys)"
  by (cases e) (auto split: if_splits prod.splits list.splits drain_pc.splits)

lemma em_run_grows:
  "em_run es w = Some w' \<Longrightarrow> (\<exists>xs. em_accepted w' = em_accepted w @ xs) \<and> (\<exists>ys. em_wire w' = em_wire w @ ys)"
proof (induction es arbitrary: w)
  case (Cons e es)
  then obtain u where u: "em_step e w = Some u" "em_run es u = Some w'" by (auto split: option.splits)
  from em_step_grows[OF u(1)] Cons.IH[OF u(2)] show ?case by fastforce
qed simp

text \<open>The emitter loses, invents and reorders nothing within a lane: at any time the frames of a class that were
sent are those handed to the client, then the one in flight, then the lane, in this order; and no lane
exceeds its bound.\<close>

theorem emitter_conserves_lanes:
  assumes "em_run es (new_emitter fg bg) = Some w"
  shows "filter (\<lambda>cm. fst cm = c) (em_accepted w) = filter (\<lambda>cm. fst cm = c) (em_wire w @ in_flight w) @ map (Pair c) (lane c w) \<and>
    length (lane c w) \<le> lane_cap c w"
  using em_run_ok[OF new_emitter_ok assms] by (simp add: emitter_ok_def lanes_ordered_def of_class_def)

lemma single_class_wire:
  assumes "emitter_ok w" "\<And>cm. cm \<in> set (em_accepted w) \<Longrightarrow> fst cm = c"
  shows "\<exists>rest. em_accepted w = em_wire w @ rest"
proof -
  have a: "of_class c (em_accepted w) = em_accepted w" using assms(2) by (simp add: of_class_def)
  have o: "of_class d (em_accepted w) = of_class d (em_wire w @ in_flight w) @ map (Pair d) (lane d w)" for d
    using assms(1) by (simp add: emitter_ok_def lanes_ordered_def)
  have "of_class d (em_accepted w) = []" if "d \<noteq> c" for d using assms(2) that by (auto simp: of_class_def filter_empty_conv)
  then have "of_class d (em_wire w) = []" if "d \<noteq> c" for d using o[of d] that by simp
  then have "\<forall>cm \<in> set (em_wire w). fst cm = c" by (auto simp: of_class_def filter_empty_conv)
  then have "of_class c (em_wire w) = em_wire w" by (simp add: of_class_def)
  then show ?thesis using a o[of c] by (metis append.assoc of_class_simps(2))
qed


section \<open>The barrier comes to an end\<close>

definition em_work :: "emitter \<Rightarrow> nat" where
  "em_work w = 5 * length (em_producers w) + 4 * (length (em_fg w) + length (em_bg w)) +
     (case em_drain w of AtTop \<Rightarrow> 1 | AtBoth \<Rightarrow> 0 | Writing _ \<Rightarrow> 3 | Booking \<Rightarrow> 2 | Exited \<Rightarrow> 0)"

lemma lane_lengths: "em_fg w = lane Foreground w" "em_bg w = lane Background w"
  by (simp_all add: lane_def)

lemma barrier_progress:
  assumes "emitter_ok w" "\<not> em_stopped w" "em_written w < em_enqueued w"
  shows "\<exists>e w'. em_step e w = Some w' \<and> em_work w' < em_work w \<and> em_enqueued w' = em_enqueued w \<and> \<not> em_stopped w'"
proof (cases "em_drain w")
  case AtTop
  then show ?thesis using assms(2)
    by (intro exI[of _ TakeFg] exI[of _ "the (em_step TakeFg w)"]) (cases "em_fg w"; simp add: em_work_def)
next
  case AtBoth
  show ?thesis
  proof (cases "\<exists>c. lane c w \<noteq> []")
    case True
    then obtain c m ms where l: "lane c w = m # ms" by (metis list.exhaust)
    then show ?thesis using AtBoth assms(2)
      by (intro exI[of _ "Take c"] exI[of _ "(set_lane c ms w)\<lparr>em_drain := Writing (c, m)\<rparr>"])
         (cases c; simp add: em_work_def lane_def set_lane_def)
  next
    case False
    then have "of_class c (em_accepted w) = of_class c (em_wire w)" for c
      using assms(1) AtBoth by (simp add: emitter_ok_def lanes_ordered_def in_flight_def)
    then have "length (em_accepted w) = length (em_wire w)" using of_class_length by metis
    then have "em_producers w \<noteq> []" using assms(1,3) AtBoth by (auto simp: emitter_ok_def counts_right_def)
    then obtain c m ps where p: "em_producers w = (c, m) # ps" by (metis list.exhaust surj_pair)
    have "length (lane c w) < lane_cap c w" using False assms(1) by (simp add: emitter_ok_def Suc_le_eq)
    then show ?thesis using p AtBoth assms(2) False
      by (intro exI[of _ "Send 0"] exI[of _ "the (em_step (Send 0) w)"])
         (cases c; simp add: em_work_def drop_producer_def set_lane_def lane_def)
  qed
next
  case (Writing cm)
  then show ?thesis using assms(2)
    by (intro exI[of _ SinkReturns] exI[of _ "the (em_step SinkReturns w)"]) (simp add: em_work_def)
next
  case Booking
  then show ?thesis using assms(2)
    by (intro exI[of _ BookWritten] exI[of _ "the (em_step BookWritten w)"]) (simp add: em_work_def)
next
  case Exited
  then show ?thesis using assms(1,2) by (simp add: emitter_ok_def)
qed

lemma barrier_run:
  assumes "emitter_ok w" "\<not> em_stopped w"
  shows "\<exists>es w'. em_run es w = Some w' \<and> length es \<le> em_work w \<and> em_enqueued w' = em_enqueued w \<and> em_enqueued w \<le> em_written w'"
  using assms
proof (induction "em_work w" arbitrary: w rule: less_induct)
  case less
  show ?case
  proof (cases "em_written w < em_enqueued w")
    case True
    then obtain e u where e: "em_step e w = Some u" "em_work u < em_work w" "em_enqueued u = em_enqueued w" "\<not> em_stopped u"
      using barrier_progress less.prems by blast
    obtain es w' where "em_run es u = Some w'" "length es \<le> em_work u" "em_enqueued w' = em_enqueued u" "em_enqueued u \<le> em_written w'"
      using less.hyps[OF e(2) em_step_ok[OF less.prems(1) e(1)] e(4)] by blast
    then show ?thesis using e by (intro exI[of _ "e # es"] exI[of _ w']) simp
  qed (intro exI[of _ "[]"] exI[of _ w], simp)
qed

text \<open>A barrier never wedges: from every reachable state of a running emitter, the frames counted before it
are written after a bounded number of sends, receives and writes, without any further publication.\<close>

theorem barrier_comes_to_end:
  assumes "em_run es (new_emitter fg bg) = Some w" "\<not> em_stopped w"
  shows "\<exists>es' w'. em_run es' w = Some w' \<and> length es' \<le> em_work w \<and> barrier_done (barrier_target w) w'"
  using barrier_run[OF em_run_ok[OF new_emitter_ok assms(1)] assms(2)] by (auto simp: barrier_done_def barrier_target_def)

section \<open>A later frame stands in for an earlier one\<close>

definition frame_a :: rpc_message where
  "frame_a = agent_message_chunk ''s'' ''1'' ''a''"

definition frame_b :: rpc_message where
  "frame_b = agent_message_chunk ''s'' ''2'' ''b''"

definition before_barrier :: "em_event list" where
  "before_barrier = [Publish Background frame_a, Send 0]"

definition after_barrier :: "em_event list" where
  "after_barrier = [Publish Foreground frame_b, Send 0, TakeFg, SinkReturns, BookWritten]"

text \<open>A background frame is in its lane when the barrier counts it; a foreground frame sent afterwards is
written first and lifts the counter to the target: the barrier returns, the earlier frame is not on the wire.\<close>

lemma barrier_overtaken:
  "map_option (\<lambda>w. (em_accepted w, barrier_target w)) (em_run before_barrier (new_emitter 0 0)) = Some ([(Background, frame_a)], 1)"
  "map_option (\<lambda>w. (barrier_done 1 w, em_wire w, em_bg w)) (em_run (before_barrier @ after_barrier) (new_emitter 0 0)) =
     Some (True, [(Foreground, frame_b)], [frame_a])"
  by code_simp+

section \<open>Witnesses\<close>

definition sample_wire :: "em_event list" where
  "sample_wire = [Publish Foreground frame_a, Send 0, TakeFg, Publish Foreground frame_b, SinkReturns, Send 0, BookWritten, TakeFg, SinkReturns, BookWritten]"

lemma sample_wire_runs:
  "map_option (\<lambda>w. (em_accepted w, em_stopped w, barrier_target w, em_written w)) (em_run sample_wire (new_emitter 2 2)) =
     Some ([(Foreground, frame_a), (Foreground, frame_b)], False, 2, 2)"
  by code_simp

lemma sample_wire_run: "em_run sample_wire (new_emitter 2 2) = Some (the (em_run sample_wire (new_emitter 2 2)))"
  using sample_wire_runs by (cases "em_run sample_wire (new_emitter 2 2)") auto

lemma sample_wire_facts:
  "em_accepted (the (em_run sample_wire (new_emitter 2 2))) = [(Foreground, frame_a), (Foreground, frame_b)]"
  "\<not> em_stopped (the (em_run sample_wire (new_emitter 2 2)))"
  "barrier_done (barrier_target (the (em_run sample_wire (new_emitter 2 2)))) (the (em_run sample_wire (new_emitter 2 2)))"
  using sample_wire_runs by (cases "em_run sample_wire (new_emitter 2 2)"; simp add: barrier_done_def barrier_target_def)+

theorem emitter_conserves_lanes_witness:
  "length (lane Foreground (the (em_run sample_wire (new_emitter 2 2)))) \<le> lane_cap Foreground (the (em_run sample_wire (new_emitter 2 2)))"
  using emitter_conserves_lanes[OF sample_wire_run, of Foreground] by blast


theorem barrier_comes_to_end_witness:
  "\<exists>es' w'. em_run es' (the (em_run sample_wire (new_emitter 2 2))) = Some w' \<and>
     length es' \<le> em_work (the (em_run sample_wire (new_emitter 2 2))) \<and>
     barrier_done (barrier_target (the (em_run sample_wire (new_emitter 2 2)))) w'"
  by (rule barrier_comes_to_end[OF sample_wire_run sample_wire_facts(2)])

end
