(* ===== verification/Registry.thy ===== *)
theory Registry
  imports Emitter
begin

text \<open>
  Outbound requests, \<^verbatim>\<open>internal/acp/request_registry.go\<close>: the calls that wait for an answer of the
  client, the single compare-and-swap that decides who resolves a call, the retry, the cancellation cascade and
  the shutdown. Every critical section, compare-and-swap, channel operation and write is a step of its own, so
  that deliveries, cancellations and the shutdown interleave freely.
\<close>

definition max_send_attempts :: nat where
  "max_send_attempts = 2"

definition code_request_cancelled :: int where
  "code_request_cancelled = - 32800"

datatype timeout_class = FastControl | HumanAsk

record registry_config =
  rc_fast :: int
  rc_human :: int

definition registry_timeouts :: "registry_config \<Rightarrow> registry_config" where
  \<comment> \<open>the defaults, in seconds, under the configured windows\<close>
  "registry_timeouts c =
     \<lparr>rc_fast = (if 0 < rc_fast c then rc_fast c else 10), rc_human = (if 0 < rc_human c then rc_human c else 600)\<rparr>"

definition timeout_of_class :: "registry_config \<Rightarrow> timeout_class \<Rightarrow> int" where
  "timeout_of_class c k = (case k of FastControl \<Rightarrow> rc_fast c | HumanAsk \<Rightarrow> rc_human c)"

section \<open>Ids on the wire\<close>

definition trim_quotes :: "string \<Rightarrow> string" where
  "trim_quotes s = rev (dropWhile (\<lambda>c. c = CHR 0x22) (rev (dropWhile (\<lambda>c. c = CHR 0x22) s)))"

definition normalize_request_id :: "raw_message \<Rightarrow> string" where
  "normalize_request_id raw = trim_quotes (case raw of None \<Rightarrow> [] | Some v \<Rightarrow> json_text v)"

definition quoted_id :: "string \<Rightarrow> raw_message" where
  "quoted_id i = Some (JStr i)"

definition call_frame :: "string \<Rightarrow> string \<Rightarrow> raw_message \<Rightarrow> rpc_message" where
  \<comment> \<open>no parameters are the JSON null\<close>
  "call_frame i method params =
     \<lparr>rm_jsonrpc = ''2.0'', rm_id = quoted_id i, rm_method = method,
      rm_params = Some (case params of None \<Rightarrow> JNull | Some v \<Rightarrow> v), rm_result = None, rm_error = None\<rparr>"

definition cascade_frame :: "string \<Rightarrow> rpc_message" where
  "cascade_frame i =
     \<lparr>rm_jsonrpc = ''2.0'', rm_id = None, rm_method = ''$/cancel_request'',
      rm_params = Some (JObj [(''requestId'', JStr i)]), rm_result = None, rm_error = None\<rparr>"

section \<open>Calls\<close>

datatype claim =
    ByDeliver rpc_message
  | ByResolve  \<comment> \<open>\<^verbatim>\<open>ResolveCancelled\<close>\<close>
  | ByCaller  \<comment> \<open>the caller's context died\<close>
  | ByStop

datatype resolution = Response rpc_message | CancelledMark

fun resolution_of :: "claim \<Rightarrow> resolution" where
  "resolution_of (ByDeliver m) = Response m"
| "resolution_of _ = CancelledMark"

datatype call_outcome = GotResponse rpc_message | CallCancelled | CallSendFailed | CallTimedOut

datatype call_pc =
    Sending nat  \<comment> \<open>the attempt; \<^verbatim>\<open>send\<close> is about to look at the closed flag\<close>
  | WritingFrame nat  \<comment> \<open>the flag was clear, the frame is being written\<close>
  | Waiting nat  \<comment> \<open>in the \<^verbatim>\<open>select\<close>\<close>
  | Cancelling  \<comment> \<open>in \<^verbatim>\<open>cancelPending\<close>\<close>
  | Leaving call_outcome  \<comment> \<open>before the deferred \<^verbatim>\<open>unregister\<close>\<close>
  | Returned call_outcome

record call =
  cl_method :: string
  cl_claim :: "claim option"  \<comment> \<open>the flag \<^verbatim>\<open>done\<close>, with who set it\<close>
  cl_chan :: "resolution option"  \<comment> \<open>the channel of capacity one\<close>
  cl_pc :: call_pc

definition settle :: "resolution \<Rightarrow> call_outcome \<times> bool" where
  \<comment> \<open>the boolean: the cancel counter is bumped\<close>
  "settle r =
     (case r of
        CancelledMark \<Rightarrow> (CallCancelled, False)
      | Response m \<Rightarrow>
          (case rm_error m of
             Some e \<Rightarrow> if re_code e = code_request_cancelled then (CallCancelled, True) else (GotResponse m, False)
           | None \<Rightarrow> (GotResponse m, False)))"

datatype reg_action =
    Cas string claim
  | Put string claim
  | CountCancel string claim
  | CheckCascade string claim
  | EmitCascade string claim

record registry =
  rg_closed :: bool
  rg_pending :: "string list"
  rg_calls :: "string \<rightharpoonup> call"
  rg_actions :: "reg_action list"  \<comment> \<open>what goroutines other than a waiting caller do next, in no order\<close>
  rg_wire :: "(string \<times> bool) list"  \<comment> \<open>request frames written, and whether after the shutdown\<close>
  rg_cascades :: "string list"
  rg_cancels :: nat
  rg_has_cascade :: bool

definition new_registry :: "bool \<Rightarrow> registry" where
  "new_registry has_cascade =
     \<lparr>rg_closed = False, rg_pending = [], rg_calls = Map.empty, rg_actions = [], rg_wire = [], rg_cascades = [],
      rg_cancels = 0, rg_has_cascade = has_cascade\<rparr>"

definition upd_call :: "string \<Rightarrow> (call \<Rightarrow> call) \<Rightarrow> registry \<Rightarrow> registry" where
  "upd_call i f w = (case rg_calls w i of None \<Rightarrow> w | Some c \<Rightarrow> w\<lparr>rg_calls := (rg_calls w)(i \<mapsto> f c)\<rparr>)"

definition set_pc :: "string \<Rightarrow> call_pc \<Rightarrow> registry \<Rightarrow> registry" where
  "set_pc i p = upd_call i (\<lambda>c. c\<lparr>cl_pc := p\<rparr>)"

definition finish_claim :: "string \<Rightarrow> claim \<Rightarrow> registry \<Rightarrow> registry" where
  \<comment> \<open>\<^verbatim>\<open>cancelPending\<close> returns; only the caller waits for it\<close>
  "finish_claim i c w = (if c = ByCaller then set_pc i (Leaving CallCancelled) w else w)"

definition add_action :: "reg_action \<Rightarrow> registry \<Rightarrow> registry" where
  "add_action a w = w\<lparr>rg_actions := rg_actions w @ [a]\<rparr>"

fun reg_act :: "reg_action \<Rightarrow> registry \<Rightarrow> registry" where
  "reg_act (Cas i c) w =
     (case rg_calls w i of
        None \<Rightarrow> w
      | Some cl \<Rightarrow>
          if cl_claim cl \<noteq> None then finish_claim i c w
          else add_action (Put i c) (upd_call i (\<lambda>cl. cl\<lparr>cl_claim := Some c\<rparr>) w))"
| "reg_act (Put i c) w =
     (let w = upd_call i (\<lambda>cl. if cl_chan cl = None then cl\<lparr>cl_chan := Some (resolution_of c)\<rparr> else cl) w
      in case c of ByDeliver _ \<Rightarrow> w | _ \<Rightarrow> add_action (CountCancel i c) w)"
| "reg_act (CountCancel i c) w =
     (let w = w\<lparr>rg_cancels := rg_cancels w + 1\<rparr> in if c = ByStop then w else add_action (CheckCascade i c) w)"
| "reg_act (CheckCascade i c) w =
     (if rg_closed w \<or> \<not> rg_has_cascade w then finish_claim i c w else add_action (EmitCascade i c) w)"
| "reg_act (EmitCascade i c) w = finish_claim i c (w\<lparr>rg_cascades := rg_cascades w @ [i]\<rparr>)"

datatype reg_event =
    NewCall string string  \<comment> \<open>a fresh id and the method\<close>
  | CheckClosed string
  | SinkWrites string bool
  | Receive string
  | CtxDone string
  | WindowEnds string
  | Unregister string
  | DeliverMsg rpc_message
  | Resolve string
  | StopRegistry
  | Do reg_action

definition with_pc :: "string \<Rightarrow> registry \<Rightarrow> (call \<Rightarrow> registry option) \<Rightarrow> registry option" where
  "with_pc i w k = (case rg_calls w i of None \<Rightarrow> None | Some c \<Rightarrow> k c)"

fun reg_step :: "reg_event \<Rightarrow> registry \<Rightarrow> registry option" where
  "reg_step (NewCall i method) w =
     (if rg_calls w i \<noteq> None then None
      else if rg_closed w
      then Some (w\<lparr>rg_calls := (rg_calls w)(i \<mapsto> \<lparr>cl_method = method, cl_claim = None, cl_chan = None, cl_pc = Returned CallCancelled\<rparr>)\<rparr>)
      else Some (w\<lparr>rg_pending := rg_pending w @ [i],
                   rg_calls := (rg_calls w)(i \<mapsto> \<lparr>cl_method = method, cl_claim = None, cl_chan = None, cl_pc = Sending 1\<rparr>)\<rparr>))"
| "reg_step (CheckClosed i) w =
     with_pc i w (\<lambda>c. case cl_pc c of
       Sending n \<Rightarrow> Some (set_pc i (if rg_closed w then Leaving CallCancelled else WritingFrame n) w) | _ \<Rightarrow> None)"
| "reg_step (SinkWrites i ok) w =
     with_pc i w (\<lambda>c. case cl_pc c of
       WritingFrame n \<Rightarrow>
         Some (if ok then (set_pc i (Waiting n) w)\<lparr>rg_wire := rg_wire w @ [(i, rg_closed w)]\<rparr> else set_pc i (Leaving CallSendFailed) w)
     | _ \<Rightarrow> None)"
| "reg_step (Receive i) w =
     with_pc i w (\<lambda>c. case (cl_pc c, cl_chan c) of
       (Waiting n, Some r) \<Rightarrow>
         (let (out, counted) = settle r
          in Some ((upd_call i (\<lambda>c. c\<lparr>cl_chan := None, cl_pc := Leaving out\<rparr>) w)
               \<lparr>rg_cancels := rg_cancels w + (if counted then 1 else 0)\<rparr>))
     | _ \<Rightarrow> None)"
| "reg_step (CtxDone i) w =
     with_pc i w (\<lambda>c. case cl_pc c of Waiting n \<Rightarrow> Some (add_action (Cas i ByCaller) (set_pc i Cancelling w)) | _ \<Rightarrow> None)"
| "reg_step (WindowEnds i) w =
     with_pc i w (\<lambda>c. case cl_pc c of
       Waiting n \<Rightarrow> Some (set_pc i (if n < max_send_attempts then Sending (n + 1) else Leaving CallTimedOut) w) | _ \<Rightarrow> None)"
| "reg_step (Unregister i) w =
     with_pc i w (\<lambda>c. case cl_pc c of
       Leaving out \<Rightarrow> Some ((set_pc i (Returned out) w)\<lparr>rg_pending := removeAll i (rg_pending w)\<rparr>) | _ \<Rightarrow> None)"
| "reg_step (DeliverMsg m) w =
     (let i = normalize_request_id (rm_id m)
      in Some (if i \<in> set (rg_pending w) then add_action (Cas i (ByDeliver m)) w else w))"
| "reg_step (Resolve i) w = Some (if i \<in> set (rg_pending w) then add_action (Cas i ByResolve) w else w)"
| "reg_step StopRegistry w =
     Some (if rg_closed w then w
           else w\<lparr>rg_closed := True, rg_pending := [], rg_actions := rg_actions w @ map (\<lambda>i. Cas i ByStop) (rg_pending w)\<rparr>)"
| "reg_step (Do a) w =
     (if a \<in> set (rg_actions w) then Some (reg_act a (w\<lparr>rg_actions := remove1 a (rg_actions w)\<rparr>)) else None)"

fun reg_run :: "reg_event list \<Rightarrow> registry \<Rightarrow> registry option" where
  "reg_run [] w = Some w"
| "reg_run (e # es) w = (case reg_step e w of None \<Rightarrow> None | Some w' \<Rightarrow> reg_run es w')"

end
