(* ===== verification/RegistryProps.thy ===== *)
theory RegistryProps
  imports Registry
begin

text \<open>
  Outbound requests under every interleaving: one resolution per call, answers matched by id, at most two sends,
  at most one cascade and only for cancelled calls, and a shutdown that wakes every waiter. One call is looked at
  through its \<open>view\<close>: a step changes the view of one call only, the shutdown aside.
\<close>

section \<open>One call\<close>

fun action_id :: "reg_action \<Rightarrow> string" where
  "action_id (Cas i c) = i" | "action_id (Put i c) = i" | "action_id (CountCancel i c) = i"
| "action_id (CheckCascade i c) = i" | "action_id (EmitCascade i c) = i"

fun token :: "reg_action \<Rightarrow> bool" where
  \<comment> \<open>the work of the winner of the compare-and-swap\<close>
  "token (Cas i c) = False" | "token a = True"

record call_view =
  vw_closed :: bool
  vw_pending :: bool
  vw_call :: "call option"
  vw_actions :: "reg_action list"
  vw_cascades :: nat
  vw_sends :: nat

definition view :: "string \<Rightarrow> registry \<Rightarrow> call_view" where
  "view i w =
     \<lparr>vw_closed = rg_closed w, vw_pending = (i \<in> set (rg_pending w)), vw_call = rg_calls w i,
      vw_actions = filter (\<lambda>a. action_id a = i) (rg_actions w), vw_cascades = count_list (rg_cascades w) i,
      vw_sends = length (filter (\<lambda>s. fst s = i) (rg_wire w))\<rparr>"

fun action_ok :: "string \<Rightarrow> claim option \<Rightarrow> reg_action \<Rightarrow> bool" where
  "action_ok i cl (Cas j c) = (case c of ByDeliver m \<Rightarrow> normalize_request_id (rm_id m) = i | _ \<Rightarrow> True)"
| "action_ok i cl (Put j c) = (cl = Some c)"
| "action_ok i cl (CountCancel j c) = (cl = Some c \<and> c \<in> {ByResolve, ByCaller, ByStop})"
| "action_ok i cl (CheckCascade j c) = (cl = Some c \<and> c \<in> {ByResolve, ByCaller})"
| "action_ok i cl (EmitCascade j c) = (cl = Some c \<and> c \<in> {ByResolve, ByCaller})"

definition woken :: "string \<Rightarrow> call \<Rightarrow> reg_action list \<Rightarrow> bool" where
  "woken i c as = (cl_chan c \<noteq> None \<or> (\<exists>k. Put i k \<in> set as) \<or> cl_claim c = None \<and> (\<exists>k. Cas i k \<in> set as))"

definition reachable_call :: "string \<Rightarrow> call \<Rightarrow> call_view \<Rightarrow> bool" where
  "reachable_call i c v = (if vw_closed v then woken i c (vw_actions v) else vw_pending v \<and> (cl_claim c = None \<or> woken i c (vw_actions v)))"

definition pc_ok :: "string \<Rightarrow> call \<Rightarrow> call_view \<Rightarrow> bool" where
  "pc_ok i c v =
     (case cl_pc c of
        Sending n \<Rightarrow> 1 \<le> n \<and> n \<le> 2 \<and> vw_sends v = n - 1 \<and> reachable_call i c v
      | WritingFrame n \<Rightarrow> 1 \<le> n \<and> n \<le> 2 \<and> vw_sends v = n - 1 \<and> reachable_call i c v
      | Waiting n \<Rightarrow> 1 \<le> n \<and> n \<le> 2 \<and> vw_sends v = n \<and> reachable_call i c v
      | Cancelling \<Rightarrow> vw_sends v \<le> 2
      | Leaving out \<Rightarrow> vw_sends v \<le> 2 \<and> (out = CallTimedOut \<longrightarrow> vw_sends v = 2) \<and> (\<forall>m. out = GotResponse m \<longrightarrow> cl_claim c = Some (ByDeliver m))
      | Returned out \<Rightarrow> vw_sends v \<le> 2 \<and> (out = CallTimedOut \<longrightarrow> vw_sends v = 2) \<and> (\<forall>m. out = GotResponse m \<longrightarrow> cl_claim c = Some (ByDeliver m)))"

definition call_ok :: "string \<Rightarrow> call \<Rightarrow> call_view \<Rightarrow> bool" where
  "call_ok i c v =
     ((\<forall>a \<in> set (vw_actions v). action_ok i (cl_claim c) a) \<and>
      (\<forall>r. cl_chan c = Some r \<longrightarrow> (\<exists>k. cl_claim c = Some k \<and> r = resolution_of k)) \<and>
      (\<forall>m. cl_claim c = Some (ByDeliver m) \<longrightarrow> normalize_request_id (rm_id m) = i) \<and>
      length (filter token (vw_actions v)) + vw_cascades v \<le> (if cl_claim c = None then 0 else 1) \<and>
      (0 < vw_cascades v \<longrightarrow> cl_claim c \<in> {Some ByResolve, Some ByCaller}) \<and> pc_ok i c v)"

definition view_ok :: "string \<Rightarrow> call_view \<Rightarrow> bool" where
  "view_ok i v =
     ((vw_closed v \<longrightarrow> \<not> vw_pending v) \<and>
      (case vw_call v of
         None \<Rightarrow> \<not> vw_pending v \<and> vw_actions v = [] \<and> vw_cascades v = 0 \<and> vw_sends v = 0
       | Some c \<Rightarrow> call_ok i c v))"

definition reg_ok :: "registry \<Rightarrow> bool" where
  "reg_ok w = (\<forall>i. view_ok i (view i w))"

lemmas view_defs = view_ok_def call_ok_def pc_ok_def reachable_call_def woken_def

section \<open>Steps\<close>

lemma filter_remove1_other: "\<not> P a \<Longrightarrow> filter P (remove1 a xs) = filter P xs"
  by (induction xs) auto

lemma filter_remove1_same: "P a \<Longrightarrow> filter P (remove1 a xs) = remove1 a (filter P xs)"
  by (induction xs) auto

lemma view_remove_action:
  "view i (w\<lparr>rg_actions := remove1 a (rg_actions w)\<rparr>) =
     (if action_id a = i then (view i w)\<lparr>vw_actions := remove1 a (vw_actions (view i w))\<rparr> else view i w)"
  by (simp add: view_def filter_remove1_other filter_remove1_same)

lemma view_add_action [simp]:
  "view i (add_action a w) = (if action_id a = i then (view i w)\<lparr>vw_actions := vw_actions (view i w) @ [a]\<rparr> else view i w)"
  by (simp add: view_def add_action_def)

lemma view_upd_call [simp]:
  "view i (upd_call j f w) = (if i = j then (view i w)\<lparr>vw_call := map_option f (vw_call (view i w))\<rparr> else view i w)"
  by (auto simp: view_def upd_call_def split: option.split)

lemma upd_call_closed [simp]: "rg_closed (upd_call j f w) = rg_closed w" "rg_has_cascade (upd_call j f w) = rg_has_cascade w"
  by (simp_all add: upd_call_def split: option.split)

lemma view_frame [simp]:
  "view i (w\<lparr>rg_cancels := n\<rparr>) = view i w"
  "view i (w\<lparr>rg_wire := rg_wire w @ [(j, b)]\<rparr>) = (if i = j then (view i w)\<lparr>vw_sends := vw_sends (view i w) + 1\<rparr> else view i w)"
  "view i (w\<lparr>rg_cascades := rg_cascades w @ [j]\<rparr>) = (if i = j then (view i w)\<lparr>vw_cascades := vw_cascades (view i w) + 1\<rparr> else view i w)"
  "view i (w\<lparr>rg_pending := removeAll j (rg_pending w)\<rparr>) = (if i = j then (view i w)\<lparr>vw_pending := False\<rparr> else view i w)"
  by (auto simp: view_def)

lemma view_fields: "vw_call (view i w) = rg_calls w i" "vw_closed (view i w) = rg_closed w" "vw_pending (view i w) = (i \<in> set (rg_pending w))"
  by (simp_all add: view_def)

lemma view_finish [simp]:
  "view i (finish_claim j c w) =
     (if i = j \<and> c = ByCaller then (view i w)\<lparr>vw_call := map_option (\<lambda>c. c\<lparr>cl_pc := Leaving CallCancelled\<rparr>) (vw_call (view i w))\<rparr> else view i w)"
  by (simp add: finish_claim_def set_pc_def)

lemma reg_okI:
  assumes "reg_ok w" "\<And>i. i \<noteq> j \<Longrightarrow> view i w' = view i w" "view_ok j (view j w')"
  shows "reg_ok w'"
  using assms unfolding reg_ok_def by metis

lemma cancelled_ok:
  "view_ok i v \<Longrightarrow> view_ok i (v\<lparr>vw_call := map_option (\<lambda>c. c\<lparr>cl_pc := Leaving CallCancelled\<rparr>) (vw_call v)\<rparr>)"
  by (cases "vw_call v") (auto simp: view_defs split: call_pc.splits if_splits)

lemma token_remove1: "a \<in> set xs \<Longrightarrow> length (filter token xs) = length (filter token (remove1 a xs)) + (if token a then 1 else 0)"
  by (induction xs) auto

lemma no_tokens: "length (filter token xs) = 0 \<Longrightarrow> a \<in> set xs \<Longrightarrow> \<not> token a"
  by (auto simp: filter_empty_conv)

definition taken :: "reg_action \<Rightarrow> call_view \<Rightarrow> call_view" where
  "taken a v = v\<lparr>vw_actions := remove1 a (vw_actions v)\<rparr>"

lemma taken_simps [simp]:
  "vw_closed (taken a v) = vw_closed v" "vw_pending (taken a v) = vw_pending v" "vw_call (taken a v) = vw_call v"
  "vw_cascades (taken a v) = vw_cascades v" "vw_sends (taken a v) = vw_sends v" "vw_actions (taken a v) = remove1 a (vw_actions v)"
  by (simp_all add: taken_def)

lemma act_call:
  assumes "view_ok i v" "a \<in> set (vw_actions v)"
  obtains c where "vw_call v = Some c" "call_ok i c v" "action_ok i (cl_claim c) a"
  using assms by (auto simp: view_ok_def call_ok_def split: option.splits)

text \<open>Taking an action of a decided call, or a claim that lost, leaves the rest in order.\<close>

lemma taken_lost:
  assumes "view_ok i v" "Cas i k \<in> set (vw_actions v)" "vw_call v = Some c" "cl_claim c \<noteq> None"
  shows "view_ok i (taken (Cas i k) v)"
proof -
  let ?as = "remove1 (Cas i k) (vw_actions v)"
  have p: "(Put i k' \<in> set ?as) = (Put i k' \<in> set (vw_actions v))" for k' by (simp add: in_set_remove1)
  have w: "woken i c ?as = woken i c (vw_actions v)" using assms(4) by (auto simp: woken_def p)
  then have pc: "pc_ok i c (taken (Cas i k) v) = pc_ok i c v" by (simp add: pc_ok_def reachable_call_def split: call_pc.split)
  have t: "length (filter token ?as) = length (filter token (vw_actions v))" using token_remove1[OF assms(2)] by simp
  have "call_ok i c v" using assms(1,3) by (simp add: view_ok_def)
  moreover have "a \<in> set ?as \<Longrightarrow> a \<in> set (vw_actions v)" for a using set_remove1_subset by fastforce
  ultimately have "call_ok i c (taken (Cas i k) v)" by (simp add: call_ok_def pc t)
  then show ?thesis using assms(1,3) by (simp add: view_ok_def)
qed

lemma taken_won:
  assumes "view_ok i v" "Cas i k \<in> set (vw_actions v)" "vw_call v = Some c" "cl_claim c = None"
  shows "view_ok i (v\<lparr>vw_call := Some (c\<lparr>cl_claim := Some k\<rparr>), vw_actions := remove1 (Cas i k) (vw_actions v) @ [Put i k]\<rparr>)"
proof -
  have ok: "call_ok i c v" "vw_closed v \<longrightarrow> \<not> vw_pending v" using assms by (simp_all add: view_ok_def)
  then have no: "filter token (vw_actions v) = []" "vw_cascades v = 0" "cl_chan c = None" using assms(4) by (auto simp: call_ok_def)
  have cas: "a \<in> set (vw_actions v) \<Longrightarrow> \<exists>k. a = Cas i k \<or> \<not> token a" for a by (cases a) (use no(1) in \<open>auto simp: filter_empty_conv\<close>)
  have a: "action_ok i cl a" if "a \<in> set (remove1 (Cas i k) (vw_actions v))" for a cl
  proof -
    have m: "a \<in> set (vw_actions v)" using that set_remove1_subset by fastforce
    then have "\<not> token a" using no(1) by (simp add: filter_empty_conv)
    moreover have "action_ok i (cl_claim c) a" using ok(1) m by (simp add: call_ok_def)
    ultimately show ?thesis by (cases a) auto
  qed
  have t: "length (filter token (remove1 (Cas i k) (vw_actions v))) = 0" using token_remove1[OF assms(2)] no(1) by simp
  have n: "\<forall>m. k = ByDeliver m \<longrightarrow> normalize_request_id (rm_id m) = i" using ok(1) assms(2) by (auto simp: call_ok_def)
  show ?thesis using ok no a t n assms(4)
    by (auto simp: view_ok_def call_ok_def pc_ok_def reachable_call_def woken_def split: call_pc.splits)
qed

lemma put_ok:
  assumes "view_ok i v" "Put i k \<in> set (vw_actions v)" "vw_call v = Some c" "is_deliver \<longleftrightarrow> (\<exists>m. k = ByDeliver m)"
  shows "view_ok i (v\<lparr>vw_call := Some (if cl_chan c = None then c\<lparr>cl_chan := Some (resolution_of k)\<rparr> else c),
           vw_actions := remove1 (Put i k) (vw_actions v) @ (if is_deliver then [] else [CountCancel i k])\<rparr>)"
proof -
  have ok: "call_ok i c v" "vw_closed v \<longrightarrow> \<not> vw_pending v" using assms by (simp_all add: view_ok_def)
  have k: "cl_claim c = Some k" using ok(1) assms(2) by (auto simp: call_ok_def)
  have t: "length (filter token (vw_actions v)) = length (filter token (remove1 (Put i k) (vw_actions v))) + 1"
    using token_remove1[OF assms(2)] by simp
  have sub: "a \<in> set (remove1 (Put i k) (vw_actions v)) \<Longrightarrow> a \<in> set (vw_actions v)" for a using set_remove1_subset by fastforce
  show ?thesis using ok k t sub assms(4)
    by (cases k) (auto simp: view_ok_def call_ok_def pc_ok_def reachable_call_def woken_def split: call_pc.splits)
qed

fun is_tail :: "reg_action \<Rightarrow> bool" where
  "is_tail (Cas i c) = False" | "is_tail (Put i c) = False" | "is_tail a = True"

lemma tail_ok:
  assumes "view_ok i v" "a \<in> set (vw_actions v)" "vw_call v = Some c" "is_tail a"
    and "list_all is_tail bs" "length bs + d \<le> 1" "list_all (action_ok i (cl_claim c)) bs"
    and "0 < d \<longrightarrow> cl_claim c \<in> {Some ByResolve, Some ByCaller}"
  shows "view_ok i (v\<lparr>vw_actions := remove1 a (vw_actions v) @ bs, vw_cascades := vw_cascades v + d\<rparr>)"
proof -
  let ?as = "remove1 a (vw_actions v) @ bs"
  let ?v = "v\<lparr>vw_actions := ?as, vw_cascades := vw_cascades v + d\<rparr>"
  have ok: "call_ok i c v" using assms(1,3) by (simp add: view_ok_def)
  have nb: "x \<in> set bs \<Longrightarrow> is_tail x" for x using assms(5) by (simp add: list_all_iff)
  have ne: "Put i k \<noteq> a" "Cas i k \<noteq> a" for k using assms(4) by auto
  have p: "(Put i k \<in> set ?as) = (Put i k \<in> set (vw_actions v))" "(Cas i k \<in> set ?as) = (Cas i k \<in> set (vw_actions v))" for k
    using nb[of "Put i k"] nb[of "Cas i k"] ne by (auto simp: in_set_remove1)
  have w: "woken i c ?as = woken i c (vw_actions v)" by (simp only: woken_def p)
  then have pc: "pc_ok i c ?v = pc_ok i c v" by (simp add: pc_ok_def reachable_call_def split: call_pc.split)
  have "token a" "list_all token bs" using assms(4,5) by (cases a; auto simp: list_all_iff elim!: is_tail.elims dest!: bspec)+
  then have t: "length (filter token ?as) + 1 = length (filter token (vw_actions v)) + length bs"
    using token_remove1[OF assms(2)] by (simp add: list_all_iff)
  have "x \<in> set (remove1 a (vw_actions v)) \<Longrightarrow> x \<in> set (vw_actions v)" for x using set_remove1_subset by fastforce
  then have "\<forall>x \<in> set ?as. action_ok i (cl_claim c) x" using ok assms(7) by (auto simp: call_ok_def list_all_iff)
  moreover have "length (filter token ?as) + (vw_cascades v + d) \<le> (if cl_claim c = None then 0 else 1)"
    using ok assms(6) t by (auto simp: call_ok_def split: if_splits)
  ultimately have "call_ok i c ?v" using ok assms(8) by (simp add: call_ok_def pc)
  then show ?thesis using assms(1,3) by (simp add: view_ok_def)
qed

lemma reg_act_ok:
  assumes "reg_ok w" "a \<in> set (rg_actions w)"
  shows "reg_ok (reg_act a (w\<lparr>rg_actions := remove1 a (rg_actions w)\<rparr>))"
proof -
  define i where "i = action_id a"
  define u where "u = w\<lparr>rg_actions := remove1 a (rg_actions w)\<rparr>"
  define v where "v = view i w"
  have v: "view_ok i v" using assms(1) by (simp add: reg_ok_def v_def)
  have m: "a \<in> set (vw_actions v)" using assms(2) by (simp add: v_def view_def i_def)
  obtain c where c: "vw_call v = Some c" "call_ok i c v" "action_ok i (cl_claim c) a" by (rule act_call[OF v m])
  have calls: "rg_calls u i = Some c" "rg_calls w i = Some c" using c(1) by (simp_all add: v_def u_def view_def)
  have vu: "view j u = (if j = i then taken a v else view j w)" for j
    using view_remove_action[of j a w] by (auto simp: u_def v_def i_def taken_def)
  have other: "view j (reg_act a u) = view j w" if "j \<noteq> i" for j
    using that vu[of j] calls by (cases a) (auto simp: i_def Let_def split: option.split claim.split)
  have mine: "view_ok i (view i (reg_act a u))"
  proof (cases a)
    case (Cas j k)
    then have j: "j = i" by (simp add: i_def)
    show ?thesis
    proof (cases "cl_claim c")
      case None
      have "view i (reg_act a u) = v\<lparr>vw_call := Some (c\<lparr>cl_claim := Some k\<rparr>), vw_actions := remove1 (Cas i k) (vw_actions v) @ [Put i k]\<rparr>"
        using None Cas j calls vu c(1) by (simp add: taken_def)
      then show ?thesis using taken_won[OF v _ c(1) None] m Cas j by simp
    next
      case (Some k')
      have "view_ok i (taken a v)" using taken_lost[OF v _ c(1)] m Cas j Some by simp
      then show ?thesis using Some Cas j calls vu cancelled_ok[of i "taken a v"] by (cases "k = ByCaller") simp_all
    qed
  next
    case (Put j k)
    then have j: "j = i" by (simp add: i_def)
    have "view i (reg_act a u) = v\<lparr>vw_call := Some (if cl_chan c = None then c\<lparr>cl_chan := Some (resolution_of k)\<rparr> else c),
           vw_actions := remove1 (Put i k) (vw_actions v) @ (if \<exists>m. k = ByDeliver m then [] else [CountCancel i k])\<rparr>"
      using Put j vu c(1) by (cases k) (simp_all add: taken_def Let_def)
    then show ?thesis using put_ok[OF v _ c(1) refl, of k] m Put j by simp
  next
    case (CountCancel j k)
    then have j: "j = i" and k: "cl_claim c = Some k" "k \<in> {ByResolve, ByCaller, ByStop}" using c(3) by (auto simp: i_def)
    have e: "view i (reg_act a u) = v\<lparr>vw_actions := remove1 a (vw_actions v) @ (if k = ByStop then [] else [CheckCascade i k]), vw_cascades := vw_cascades v + 0\<rparr>"
      using CountCancel j vu by (simp add: taken_def Let_def)
    show ?thesis unfolding e using k CountCancel by (intro tail_ok[OF v m c(1)]) auto
  next
    case (CheckCascade j k)
    then have j: "j = i" and k: "cl_claim c = Some k" "k \<in> {ByResolve, ByCaller}" using c(3) by (auto simp: i_def)
    have t: "view_ok i (taken a v)" using tail_ok[OF v m c(1), of "[]" 0] CheckCascade by (simp add: taken_def)
    have n: "view_ok i (v\<lparr>vw_actions := remove1 a (vw_actions v) @ [EmitCascade i k], vw_cascades := vw_cascades v + 0\<rparr>)"
      using k CheckCascade by (intro tail_ok[OF v m c(1)]) auto
    show ?thesis using CheckCascade j vu t cancelled_ok[OF t] n by (cases "k = ByCaller") (simp_all add: taken_def)
  next
    case (EmitCascade j k)
    then have j: "j = i" and k: "cl_claim c = Some k" "k \<in> {ByResolve, ByCaller}" using c(3) by (auto simp: i_def)
    have n: "view_ok i (v\<lparr>vw_actions := remove1 a (vw_actions v) @ [], vw_cascades := vw_cascades v + 1\<rparr>)"
      using k EmitCascade by (intro tail_ok[OF v m c(1)]) auto
    have x: "view i (u\<lparr>rg_cascades := rg_cascades u @ [i]\<rparr>) = v\<lparr>vw_actions := remove1 a (vw_actions v), vw_cascades := vw_cascades v + 1\<rparr>"
      using vu[of i] by (simp add: taken_def)
    show ?thesis using EmitCascade j x n cancelled_ok[OF n] by (cases "k = ByCaller") simp_all
  qed
  show ?thesis unfolding u_def[symmetric] by (rule reg_okI[OF assms(1) other mine])
qed

lemma pc_step_ok:
  assumes "view_ok i v" "vw_call v = Some c" "pc_ok i (c\<lparr>cl_pc := p\<rparr>) (v\<lparr>vw_sends := s\<rparr>)"
  shows "view_ok i (v\<lparr>vw_call := Some (c\<lparr>cl_pc := p\<rparr>), vw_sends := s\<rparr>)"
proof -
  have "pc_ok i (c\<lparr>cl_pc := p\<rparr>) (v\<lparr>vw_call := Some (c\<lparr>cl_pc := p\<rparr>), vw_sends := s\<rparr>)"
    using assms(3) by (cases p) (auto simp: pc_ok_def reachable_call_def split: if_splits)
  then show ?thesis using assms(1,2) by (simp add: view_ok_def call_ok_def)
qed

lemma claim_added:
  assumes "view_ok i v" "vw_call v = Some c" "case k of ByDeliver m \<Rightarrow> normalize_request_id (rm_id m) = i | _ \<Rightarrow> True"
  shows "view_ok i (v\<lparr>vw_actions := vw_actions v @ [Cas i k]\<rparr>)"
proof -
  have "pc_ok i c v \<Longrightarrow> pc_ok i c (v\<lparr>vw_actions := vw_actions v @ [Cas i k]\<rparr>)"
    by (auto simp: pc_ok_def reachable_call_def woken_def split: call_pc.splits if_splits)
  then show ?thesis using assms by (simp add: view_ok_def call_ok_def)
qed

lemma stop_ok:
  assumes "reg_ok w" "\<not> rg_closed w"
  shows "reg_ok (w\<lparr>rg_closed := True, rg_pending := [], rg_actions := rg_actions w @ map (\<lambda>i. Cas i ByStop) (rg_pending w)\<rparr>)"
    (is "reg_ok ?w")
  unfolding reg_ok_def
proof
  fix i
  let ?new = "map (\<lambda>i. Cas i ByStop) (filter (\<lambda>j. j = i) (rg_pending w))"
  have e: "view i ?w = (view i w)\<lparr>vw_closed := True, vw_pending := False, vw_actions := vw_actions (view i w) @ ?new\<rparr>"
    by (simp add: view_def filter_map comp_def)
  have v: "view_ok i (view i w)" using assms(1) by (simp add: reg_ok_def)
  have new: "a \<in> set ?new \<Longrightarrow> a = Cas i ByStop" for a by auto
  have t: "filter token ?new = []" by (auto simp: filter_empty_conv)
  have n: "vw_pending (view i w) \<Longrightarrow> Cas i ByStop \<in> set ?new" by (auto simp: view_def image_iff)
  have o: "\<not> vw_closed (view i w)" using assms(2) by (simp add: view_def)
  show "view_ok i (view i ?w)"
  proof (cases "rg_calls w i")
    case None
    then have "i \<notin> set (rg_pending w)" using v by (simp add: view_ok_def view_fields)
    then have "?new = []" by (auto simp: filter_empty_conv)
    then show ?thesis using v None unfolding e by (simp add: view_ok_def view_fields)
  next
    case (Some c)
    then have c: "call_ok i c (view i w)" using v by (simp add: view_ok_def view_fields)
    have "pc_ok i c (view i ?w)" using c n o unfolding e
      by (auto simp: call_ok_def pc_ok_def reachable_call_def woken_def split: call_pc.splits)
    moreover have "\<forall>a \<in> set (vw_actions (view i ?w)). action_ok i (cl_claim c) a"
      using c new unfolding e by (fastforce simp: call_ok_def)
    ultimately show ?thesis using c Some t unfolding e by (simp add: view_ok_def call_ok_def view_fields)
  qed
qed

lemma own_call: "reg_ok w \<Longrightarrow> rg_calls w i = Some c \<Longrightarrow> call_ok i c (view i w)"
  unfolding reg_ok_def by (metis option.simps(5) view_fields(1) view_ok_def)

lemma pc_event_ok:
  assumes "reg_ok w" "rg_calls w i = Some c" "pc_ok i (c\<lparr>cl_pc := p\<rparr>) (view i w)"
  shows "reg_ok (set_pc i p w)"
proof (rule reg_okI[OF assms(1), of i])
  have "view_ok i (view i w)" using assms(1) by (simp add: reg_ok_def)
  from pc_step_ok[OF this, of c p "vw_sends (view i w)"] assms(2,3)
  show "view_ok i (view i (set_pc i p w))" by (simp add: set_pc_def view_fields)
qed (simp add: set_pc_def)

lemma newcall_ok:
  assumes "reg_ok w" "reg_step (NewCall i method) w = Some w'"
  shows "reg_ok w'"
proof -
  have n: "rg_calls w i = None" using assms(2) by (auto split: if_splits)
  let ?c = "\<lambda>p. \<lparr>cl_method = method, cl_claim = None, cl_chan = None, cl_pc = p\<rparr>"
  have v: "view_ok i (view i w)" using assms(1) by (simp add: reg_ok_def)
  have other: "view j w' = view j w" if "j \<noteq> i" for j
    using assms(2) that by (auto simp: view_def split: if_splits)
  have "view i w' = (view i w)\<lparr>vw_pending := vw_pending (view i w) \<or> \<not> rg_closed w,
      vw_call := Some (?c (if rg_closed w then Returned CallCancelled else Sending 1))\<rparr>"
    using assms(2) by (auto simp: view_def split: if_splits)
  then have "view_ok i (view i w')" using v n by (auto simp: view_ok_def view_fields call_ok_def pc_ok_def reachable_call_def)
  then show ?thesis using reg_okI[OF assms(1) other] by blast
qed

lemma checkclosed_ok:
  assumes "reg_ok w" "reg_step (CheckClosed i) w = Some w'"
  shows "reg_ok w'"
proof -
  obtain c n where c: "rg_calls w i = Some c" "cl_pc c = Sending n"
    "w' = set_pc i (if rg_closed w then Leaving CallCancelled else WritingFrame n) w"
    using assms(2) by (auto simp: with_pc_def split: option.splits call_pc.splits)
  have "pc_ok i c (view i w)" using own_call[OF assms(1) c(1)] by (simp add: call_ok_def)
  then have "pc_ok i (c\<lparr>cl_pc := (if rg_closed w then Leaving CallCancelled else WritingFrame n)\<rparr>) (view i w)"
    using c(2) by (auto simp: pc_ok_def reachable_call_def woken_def)
  from pc_event_ok[OF assms(1) c(1) this] show ?thesis unfolding c(3) .
qed

lemma sinkwrites_ok:
  assumes "reg_ok w" "reg_step (SinkWrites i ok) w = Some w'"
  shows "reg_ok w'"
proof -
  obtain c n where c: "rg_calls w i = Some c" "cl_pc c = WritingFrame n"
    "w' = (if ok then (set_pc i (Waiting n) w)\<lparr>rg_wire := rg_wire w @ [(i, rg_closed w)]\<rparr> else set_pc i (Leaving CallSendFailed) w)"
    using assms(2) by (auto simp: with_pc_def split: option.splits call_pc.splits)
  have p: "pc_ok i c (view i w)" using own_call[OF assms(1) c(1)] by (simp add: call_ok_def)
  show ?thesis
  proof (cases ok)
    case False
    have "pc_ok i (c\<lparr>cl_pc := Leaving CallSendFailed\<rparr>) (view i w)" using p c(2) by (auto simp: pc_ok_def)
    from pc_event_ok[OF assms(1) c(1) this] show ?thesis using False c(3) by simp
  next
    case True
    have wi: "rg_wire (set_pc i (Waiting n) w) = rg_wire w" by (simp add: set_pc_def upd_call_def split: option.split)
    have w': "w' = (set_pc i (Waiting n) w)\<lparr>rg_wire := rg_wire (set_pc i (Waiting n) w) @ [(i, rg_closed w)]\<rparr>"
      using True c(3) by (simp add: wi)
    have "pc_ok i (c\<lparr>cl_pc := Waiting n\<rparr>) ((view i w)\<lparr>vw_sends := vw_sends (view i w) + 1\<rparr>)"
      using p c(2) by (auto simp: pc_ok_def reachable_call_def woken_def)
    moreover have "view_ok i (view i w)" using assms(1) by (simp add: reg_ok_def)
    ultimately have "view_ok i (view i w')"
      unfolding w' using pc_step_ok[of i "view i w" c] c(1) by (simp add: set_pc_def view_fields)
    moreover have "view j w' = view j w" if "j \<noteq> i" for j unfolding w' using that by (simp add: set_pc_def)
    ultimately show ?thesis using reg_okI[OF assms(1)] by blast
  qed
qed

lemma receive_ok:
  assumes "reg_ok w" "reg_step (Receive i) w = Some w'"
  shows "reg_ok w'"
proof -
  obtain c n r where c: "rg_calls w i = Some c" "cl_pc c = Waiting n" "cl_chan c = Some r"
    "w' = (upd_call i (\<lambda>c. c\<lparr>cl_chan := None, cl_pc := Leaving (fst (settle r))\<rparr>) w)
               \<lparr>rg_cancels := rg_cancels w + (if snd (settle r) then 1 else 0)\<rparr>"
    using assms(2) by (auto simp: with_pc_def split: option.splits call_pc.splits prod.splits)
  have ok: "call_ok i c (view i w)" by (rule own_call[OF assms(1) c(1)])
  then obtain k where k: "cl_claim c = Some k" "r = resolution_of k" using c(3) by (auto simp: call_ok_def)
  have s: "fst (settle r) \<noteq> CallTimedOut" "fst (settle r) = GotResponse m \<Longrightarrow> k = ByDeliver m" for m
    using k(2) by (cases k; auto simp: settle_def split: option.splits if_splits)+
  have o: "vw_closed (view i w) \<longrightarrow> \<not> vw_pending (view i w)" using assms(1) by (simp add: reg_ok_def view_ok_def)
  have "call_ok i (c\<lparr>cl_chan := None, cl_pc := Leaving (fst (settle r))\<rparr>)
      ((view i w)\<lparr>vw_call := Some (c\<lparr>cl_chan := None, cl_pc := Leaving (fst (settle r))\<rparr>)\<rparr>)"
    using ok s k(1) c(2) by (auto simp: call_ok_def pc_ok_def)
  then have "view_ok i (view i w')" unfolding c(4) using c(1) o by (simp add: view_ok_def view_fields)
  moreover have "view j w' = view j w" if "j \<noteq> i" for j unfolding c(4) using that by simp
  ultimately show ?thesis using reg_okI[OF assms(1)] by blast
qed

lemma ctxdone_ok:
  assumes "reg_ok w" "reg_step (CtxDone i) w = Some w'"
  shows "reg_ok w'"
proof -
  obtain c n where c: "rg_calls w i = Some c" "cl_pc c = Waiting n" "w' = add_action (Cas i ByCaller) (set_pc i Cancelling w)"
    using assms(2) by (auto simp: with_pc_def split: option.splits call_pc.splits)
  have "pc_ok i c (view i w)" using own_call[OF assms(1) c(1)] by (simp add: call_ok_def)
  then have "pc_ok i (c\<lparr>cl_pc := Cancelling\<rparr>) (view i w)" using c(2) by (auto simp: pc_ok_def)
  then have ok: "reg_ok (set_pc i Cancelling w)" by (rule pc_event_ok[OF assms(1) c(1)])
  have calls: "rg_calls (set_pc i Cancelling w) i = Some (c\<lparr>cl_pc := Cancelling\<rparr>)" using c(1) by (simp add: set_pc_def upd_call_def)
  have "view_ok i (view i w')"
    unfolding c(3) using claim_added[of i "view i (set_pc i Cancelling w)" _ ByCaller] ok calls
    by (simp add: reg_ok_def view_fields)
  then show ?thesis using reg_okI[OF ok, of i w'] unfolding c(3) by simp
qed

lemma windowends_ok:
  assumes "reg_ok w" "reg_step (WindowEnds i) w = Some w'"
  shows "reg_ok w'"
proof -
  obtain c n where c: "rg_calls w i = Some c" "cl_pc c = Waiting n"
    "w' = set_pc i (if n < max_send_attempts then Sending (n + 1) else Leaving CallTimedOut) w"
    using assms(2) by (auto simp: with_pc_def split: option.splits call_pc.splits)
  have "pc_ok i c (view i w)" using own_call[OF assms(1) c(1)] by (simp add: call_ok_def)
  then have "pc_ok i (c\<lparr>cl_pc := (if n < max_send_attempts then Sending (n + 1) else Leaving CallTimedOut)\<rparr>) (view i w)"
    using c(2) by (auto simp: pc_ok_def reachable_call_def woken_def max_send_attempts_def)
  from pc_event_ok[OF assms(1) c(1) this] show ?thesis unfolding c(3) .
qed

lemma unregister_ok:
  assumes "reg_ok w" "reg_step (Unregister i) w = Some w'"
  shows "reg_ok w'"
proof -
  obtain c out where c: "rg_calls w i = Some c" "cl_pc c = Leaving out"
    "w' = (set_pc i (Returned out) w)\<lparr>rg_pending := removeAll i (rg_pending w)\<rparr>"
    using assms(2) by (auto simp: with_pc_def split: option.splits call_pc.splits)
  have pe: "rg_pending (set_pc i (Returned out) w) = rg_pending w" by (simp add: set_pc_def upd_call_def split: option.split)
  have "pc_ok i c (view i w)" using own_call[OF assms(1) c(1)] by (simp add: call_ok_def)
  then have "pc_ok i (c\<lparr>cl_pc := Returned out\<rparr>) (view i w)" using c(2) by (auto simp: pc_ok_def)
  then have ok: "reg_ok (set_pc i (Returned out) w)" by (rule pc_event_ok[OF assms(1) c(1)])
  have w': "w' = (set_pc i (Returned out) w)\<lparr>rg_pending := removeAll i (rg_pending (set_pc i (Returned out) w))\<rparr>"
    using c(3) by (simp add: pe)
  have calls: "rg_calls (set_pc i (Returned out) w) i = Some (c\<lparr>cl_pc := Returned out\<rparr>)" using c(1) by (simp add: set_pc_def upd_call_def)
  have "view_ok i ((view i (set_pc i (Returned out) w))\<lparr>vw_pending := False\<rparr>)"
    using ok calls own_call[OF ok calls] by (auto simp: view_ok_def view_fields call_ok_def pc_ok_def)
  then show ?thesis using reg_okI[OF ok, of i w'] unfolding w' by simp
qed

lemma delivermsg_ok:
  assumes "reg_ok w" "reg_step (DeliverMsg m) w = Some w'"
  shows "reg_ok w'"
proof -
  let ?i = "normalize_request_id (rm_id m)"
  show ?thesis
  proof (cases "?i \<in> set (rg_pending w)")
    case True
    then have w': "w' = add_action (Cas ?i (ByDeliver m)) w" using assms(2) by (simp add: Let_def)
    have v: "view_ok ?i (view ?i w)" using assms(1) by (simp add: reg_ok_def)
    with True obtain c where "vw_call (view ?i w) = Some c" by (auto simp: view_ok_def view_fields split: option.splits)
    from claim_added[OF v this, of "ByDeliver m"] have "view_ok ?i (view ?i w')" unfolding w' by simp
    then show ?thesis using reg_okI[OF assms(1), of ?i w'] unfolding w' by simp
  qed (use assms in \<open>simp add: Let_def\<close>)
qed

lemma resolve_ok:
  assumes "reg_ok w" "reg_step (Resolve i) w = Some w'"
  shows "reg_ok w'"
proof -
  show ?thesis
  proof (cases "i \<in> set (rg_pending w)")
    case True
    then have w': "w' = add_action (Cas i ByResolve) w" using assms(2) by simp
    have v: "view_ok i (view i w)" using assms(1) by (simp add: reg_ok_def)
    with True obtain c where "vw_call (view i w) = Some c" by (auto simp: view_ok_def view_fields split: option.splits)
    from claim_added[OF v this, of ByResolve] have "view_ok i (view i w')" unfolding w' by simp
    then show ?thesis using reg_okI[OF assms(1), of i w'] unfolding w' by simp
  qed (use assms in simp)
qed

lemma reg_step_ok:
  assumes "reg_ok w" "reg_step e w = Some w'"
  shows "reg_ok w'"
proof (cases e)
  case (NewCall i m)
  show ?thesis by (rule newcall_ok[OF assms(1) assms(2)[unfolded NewCall]])
next
  case (CheckClosed i)
  show ?thesis by (rule checkclosed_ok[OF assms(1) assms(2)[unfolded CheckClosed]])
next
  case (SinkWrites i ok)
  show ?thesis by (rule sinkwrites_ok[OF assms(1) assms(2)[unfolded SinkWrites]])
next
  case (Receive i)
  show ?thesis by (rule receive_ok[OF assms(1) assms(2)[unfolded Receive]])
next
  case (CtxDone i)
  show ?thesis by (rule ctxdone_ok[OF assms(1) assms(2)[unfolded CtxDone]])
next
  case (WindowEnds i)
  show ?thesis by (rule windowends_ok[OF assms(1) assms(2)[unfolded WindowEnds]])
next
  case (Unregister i)
  show ?thesis by (rule unregister_ok[OF assms(1) assms(2)[unfolded Unregister]])
next
  case (DeliverMsg m)
  show ?thesis by (rule delivermsg_ok[OF assms(1) assms(2)[unfolded DeliverMsg]])
next
  case (Resolve i)
  show ?thesis by (rule resolve_ok[OF assms(1) assms(2)[unfolded Resolve]])
next
  case StopRegistry
  then show ?thesis using assms stop_ok[OF assms(1)] by (auto split: if_splits)
next
  case (Do a)
  then show ?thesis using assms reg_act_ok by (auto split: if_splits)
qed

lemma new_registry_ok: "reg_ok (new_registry b)"
  by (simp add: reg_ok_def view_def new_registry_def view_ok_def)

lemma reg_run_ok: "reg_ok w \<Longrightarrow> reg_run es w = Some w' \<Longrightarrow> reg_ok w'"
  by (induction es arbitrary: w) (auto split: option.splits intro: reg_step_ok)

section \<open>Properties\<close>

text \<open>C7. However deliveries, retries, cancellations and the shutdown interleave, an outbound call is resolved by one
of them: it is sent at most twice, exactly twice when it times out; at most one cancel notification names it; and an answer it returns
carries its id and excludes the notification.\<close>

theorem outbound_call_resolves_once:
  assumes "reg_run es (new_registry has_cascade) = Some w" "rg_calls w i = Some c"
  shows "count_list (rg_cascades w) i \<le> 1 \<and> length (filter (\<lambda>s. fst s = i) (rg_wire w)) \<le> 2 \<and>
    (case cl_pc c of
       Returned (GotResponse m) \<Rightarrow> normalize_request_id (rm_id m) = i \<and> i \<notin> set (rg_cascades w)
     | Returned CallTimedOut \<Rightarrow> length (filter (\<lambda>s. fst s = i) (rg_wire w)) = 2
     | _ \<Rightarrow> True)"
proof -
  have ok: "call_ok i c (view i w)" by (rule own_call[OF reg_run_ok[OF new_registry_ok assms(1)] assms(2)])
  have s: "vw_sends (view i w) \<le> 2" using ok by (auto simp: call_ok_def pc_ok_def split: call_pc.splits)
  have k: "count_list (rg_cascades w) i \<le> 1" using ok by (auto simp: call_ok_def view_def split: if_splits)
  have "i \<notin> set (rg_cascades w)" if "cl_claim c = Some (ByDeliver m)" for m
    using ok that by (auto simp: call_ok_def view_def count_list_0_iff)
  moreover have "normalize_request_id (rm_id m) = i" if "cl_claim c = Some (ByDeliver m)" for m
    using ok that by (simp add: call_ok_def)
  moreover have "pc_ok i c (view i w)" using ok by (simp add: call_ok_def)
  ultimately show ?thesis using s k by (auto simp: pc_ok_def view_def split: call_pc.split call_outcome.split)
qed

text \<open>C23. The shutdown leaves no caller waiting: once the registry is closed and the claims it made are carried out,
every caller in its wait has its resolution in the channel and returns.\<close>

theorem stop_wakes_every_waiter:
  assumes "reg_run es (new_registry has_cascade) = Some w" "rg_closed w" "rg_actions w = []" "rg_calls w i = Some c" "cl_pc c = Waiting n"
  shows "\<exists>w' c' out. reg_step (Receive i) w = Some w' \<and> rg_calls w' i = Some c' \<and> cl_pc c' = Leaving out"
proof -
  have "call_ok i c (view i w)" by (rule own_call[OF reg_run_ok[OF new_registry_ok assms(1)] assms(4)])
  then have "reachable_call i c (view i w)" using assms(5) by (simp add: call_ok_def pc_ok_def)
  then obtain r where "cl_chan c = Some r" using assms(2,3) by (auto simp: reachable_call_def woken_def view_def)
  then show ?thesis using assms(4,5)
    by (cases "settle r") (simp add: with_pc_def upd_call_def)
qed

section \<open>What the interleavings allow\<close>

text \<open>The closed flag is read before the write, outside one critical section: a shutdown in between is followed by
a write.\<close>

lemma write_after_stop:
  "map_option (\<lambda>w. (rg_closed w, rg_wire w))
     (reg_run [NewCall ''a'' ''m'', CheckClosed ''a'', StopRegistry, SinkWrites ''a'' True] (new_registry True)) =
   Some (True, [(''a'', True)])"
  by code_simp

definition answer_a :: rpc_message where
  "answer_a = \<lparr>rm_jsonrpc = ''2.0'', rm_id = quoted_id ''a'', rm_method = [], rm_params = None, rm_result = Some JNull, rm_error = None\<rparr>"

text \<open>A context that dies when the answer is already in the channel: the answer is dropped, the call is
cancelled, but no counter moves and no notification is sent.\<close>

lemma cancel_uncounted:
  "map_option (\<lambda>w. (map_option cl_pc (rg_calls w ''a''), rg_cancels w, rg_cascades w))
     (reg_run [NewCall ''a'' ''m'', CheckClosed ''a'', SinkWrites ''a'' True, DeliverMsg answer_a, Do (Cas ''a'' (ByDeliver answer_a)),
        Do (Put ''a'' (ByDeliver answer_a)), CtxDone ''a'', Do (Cas ''a'' ByCaller), Unregister ''a''] (new_registry True)) =
   Some (Some (Returned CallCancelled), 0, [])"
  by code_simp

section \<open>Witnesses\<close>

definition answered_run :: "reg_event list" where
  "answered_run = [NewCall ''a'' ''m'', CheckClosed ''a'', SinkWrites ''a'' True, WindowEnds ''a'', CheckClosed ''a'', SinkWrites ''a'' True,
     DeliverMsg answer_a, Do (Cas ''a'' (ByDeliver answer_a)), Do (Put ''a'' (ByDeliver answer_a)), Receive ''a'', Unregister ''a'']"

lemma answered_runs:
  "map_option (\<lambda>w. map_option cl_pc (rg_calls w ''a'')) (reg_run answered_run (new_registry True)) = Some (Some (Returned (GotResponse answer_a)))"
  by code_simp

theorem outbound_call_resolves_once_witness:
  "normalize_request_id (rm_id answer_a) = ''a''"
proof -
  obtain w c where w: "reg_run answered_run (new_registry True) = Some w" "rg_calls w ''a'' = Some c" "cl_pc c = Returned (GotResponse answer_a)"
    using answered_runs by (auto simp: map_option_eq_Some)
  from outbound_call_resolves_once[OF w(1,2)] show ?thesis unfolding w(3) by simp
qed

definition stopped_run :: "reg_event list" where
  "stopped_run = [NewCall ''a'' ''m'', CheckClosed ''a'', SinkWrites ''a'' True, StopRegistry, Do (Cas ''a'' ByStop), Do (Put ''a'' ByStop), Do (CountCancel ''a'' ByStop)]"

lemma stopped_runs:
  "map_option (\<lambda>w. (rg_closed w, rg_actions w, map_option cl_pc (rg_calls w ''a''))) (reg_run stopped_run (new_registry True)) =
     Some (True, [], Some (Waiting 1))"
  by code_simp

theorem stop_wakes_every_waiter_witness:
  "\<exists>w w' c' out. reg_run stopped_run (new_registry True) = Some w \<and> reg_step (Receive ''a'') w = Some w' \<and>
     rg_calls w' ''a'' = Some c' \<and> cl_pc c' = Leaving out"
proof -
  obtain w c where w: "reg_run stopped_run (new_registry True) = Some w" "rg_closed w" "rg_actions w = []"
    "rg_calls w ''a'' = Some c" "cl_pc c = Waiting 1"
    using stopped_runs by (auto simp: map_option_eq_Some)
  from stop_wakes_every_waiter[OF w] w(1) show ?thesis by blast
qed

end
