(* ===== verification/Hookdag.thy ===== *)
theory Hookdag
  imports Routing
begin

text \<open>
  Declarative hooks, \<^verbatim>\<open>kit/hookdag\<close>: the layered configuration and its validation
  (\<^verbatim>\<open>config.go\<close>), the four kinds of steps (\<^verbatim>\<open>step.go\<close>), one execution and the
  guard against hooks that trigger themselves (\<^verbatim>\<open>executor.go\<close>). The YAML codec, duration parsing and what
  commands, turns and boundaries return are parameters.
\<close>

section \<open>Configuration\<close>

record hook_step =
  hs_name :: string
  hs_kind :: string
  hs_on_failure :: string
  hs_command :: string
  hs_args :: "string list"
  hs_prompt :: string
  hs_duration :: string

record hook =
  hk_name :: string
  hk_trigger :: string
  hk_steps :: "hook_step list"
  hk_on_failure :: string
  hk_reentrant :: bool

definition valid_on_failure :: "string \<Rightarrow> bool" where
  "valid_on_failure p = (p = ''halt'' \<or> p = ''continue'' \<or> p = ''ask'')"

definition valid_kind :: "string \<Rightarrow> bool" where
  "valid_kind k = (k \<in> set [''run-command'', ''send-prompt'', ''fresh-context'', ''wait''])"

datatype hook_violation =
    EmptyHookName nat
  | DuplicateHookName string
  | BadHookPolicy string string
  | EmptyTrigger string
  | BadKind string string string
  | BadStepPolicy string string string
  | EmptyStepName string nat
  | MissingCommand string string
  | MissingPrompt string string
  | MissingDuration string string
  | BadDuration string string string

definition step_violations :: "(string \<Rightarrow> int option) \<Rightarrow> hook \<Rightarrow> nat \<Rightarrow> hook_step \<Rightarrow> hook_violation list" where
  "step_violations dur h j s =
     (if \<not> valid_kind (hs_kind s) then [BadKind (hk_name h) (hs_name s) (hs_kind s)] else []) @
     (if hs_on_failure s \<noteq> [] \<and> \<not> valid_on_failure (hs_on_failure s)
      then [BadStepPolicy (hk_name h) (hs_name s) (hs_on_failure s)] else []) @
     (if hs_name s = [] then [EmptyStepName (hk_name h) j] else []) @
     (if hs_kind s = ''run-command'' then (if hs_command s = [] then [MissingCommand (hk_name h) (hs_name s)] else [])
      else if hs_kind s = ''send-prompt'' then (if hs_prompt s = [] then [MissingPrompt (hk_name h) (hs_name s)] else [])
      else if hs_kind s = ''wait'' then
        (if hs_duration s = [] then [MissingDuration (hk_name h) (hs_name s)]
         else if dur (hs_duration s) = None then [BadDuration (hk_name h) (hs_name s) (hs_duration s)] else [])
      else [])"

definition hook_violations :: "(string \<Rightarrow> int option) \<Rightarrow> string list \<Rightarrow> nat \<Rightarrow> hook \<Rightarrow> hook_violation list" where
  "hook_violations dur seen i h =
     (if hk_name h = [] then [EmptyHookName i] else if hk_name h \<in> set seen then [DuplicateHookName (hk_name h)] else []) @
     (if hk_on_failure h \<noteq> [] \<and> \<not> valid_on_failure (hk_on_failure h) then [BadHookPolicy (hk_name h) (hk_on_failure h)] else []) @
     (if hk_trigger h = [] then [EmptyTrigger (hk_name h)] else []) @
     concat (map (\<lambda>(j, s). step_violations dur h j s) (enumerate 0 (hk_steps h)))"

fun validate_from :: "(string \<Rightarrow> int option) \<Rightarrow> string list \<Rightarrow> nat \<Rightarrow> hook list \<Rightarrow> hook_violation list" where
  "validate_from dur seen i [] = []"
| "validate_from dur seen i (h # hs) = hook_violations dur seen i h @ validate_from dur (hk_name h # seen) (i + 1) hs"

definition validate_hooks :: "(string \<Rightarrow> int option) \<Rightarrow> hook list \<Rightarrow> hook_violation list" where
  "validate_hooks dur hs = validate_from dur [] 0 hs"

datatype load_error = ReadFailed string | DecodeFailed string | HookConfigError "hook_violation list"

fun merge_layers :: "(string \<Rightarrow> string option) \<Rightarrow> (string \<Rightarrow> yaml gomap option) \<Rightarrow> string list \<Rightarrow> yaml gomap \<Rightarrow> load_error + yaml gomap" where
  \<comment> \<open>reading a file and decoding it are parameters\<close>
  "merge_layers read decode [] merged = Ok merged"
| "merge_layers read decode (p # ps) merged =
     (case read p of
        None \<Rightarrow> Fail (ReadFailed p)
      | Some raw \<Rightarrow>
          (case decode raw of
             None \<Rightarrow> Fail (DecodeFailed p)
           | Some overlay \<Rightarrow> merge_layers read decode ps (deep_merge merged overlay)))"

definition load_hooks ::
  "(string \<Rightarrow> int option) \<Rightarrow> (string \<Rightarrow> string option) \<Rightarrow> (string \<Rightarrow> yaml gomap option) \<Rightarrow> (yaml gomap \<Rightarrow> hook list option) \<Rightarrow>
   yaml gomap \<Rightarrow> string list \<Rightarrow> load_error + hook list" where
  "load_hooks dur read decode typed seeded paths =
     (case merge_layers read decode paths seeded of
        Inl e \<Rightarrow> Fail e
      | Inr merged \<Rightarrow>
          (case typed merged of
             None \<Rightarrow> Fail (DecodeFailed [])
           | Some hs \<Rightarrow> (let v = validate_hooks dur hs in if v = [] then Ok hs else Fail (HookConfigError v))))"

section \<open>One step\<close>

record step_env =
  se_command :: "(string \<times> string \<times> int \<times> string option) option"  \<comment> \<open>stdout, stderr, exit code, runner error; \<open>None\<close> without a runner\<close>
  se_turn :: "(string \<times> string option) option"
  se_boundary :: "string option option"
  se_cancelled :: bool  \<comment> \<open>the context dies during a wait\<close>
  se_show :: "int \<Rightarrow> string"  \<comment> \<open>\<^verbatim>\<open>Duration.String\<close>\<close>

datatype step_error =
    NotConfigured
  | RunnerError string
  | ExitStatus int string
  | TurnError string
  | BoundaryError string
  | WaitCancelled
  | UnknownKind string

definition dispatch_step :: "(string \<Rightarrow> int option) \<Rightarrow> step_env \<Rightarrow> hook_step \<Rightarrow> step_error + string" where
  "dispatch_step dur env s =
     (if hs_kind s = ''run-command'' then
        (case se_command env of
           None \<Rightarrow> Fail NotConfigured
         | Some (out, err, code, e) \<Rightarrow>
             (case e of
                Some m \<Rightarrow> Fail (RunnerError m)
              | None \<Rightarrow> if code \<noteq> 0 then Fail (ExitStatus code err) else Ok out))
      else if hs_kind s = ''send-prompt'' then
        (case se_turn env of
           None \<Rightarrow> Fail NotConfigured
         | Some (stop, e) \<Rightarrow> (case e of Some m \<Rightarrow> Fail (TurnError m) | None \<Rightarrow> Ok (''stop='' @ stop)))
      else if hs_kind s = ''fresh-context'' then
        (case se_boundary env of
           None \<Rightarrow> Fail NotConfigured
         | Some (Some m) \<Rightarrow> Fail (BoundaryError m)
         | Some None \<Rightarrow> Ok (''fresh-context:'' @ hs_name s))
      else if hs_kind s = ''wait'' then
        (let d = (if hs_duration s = [] then 0 else case dur (hs_duration s) of Some d \<Rightarrow> d | None \<Rightarrow> 0)
         in if se_cancelled env then Fail WaitCancelled else Ok (''slept '' @ se_show env d))
      else Fail (UnknownKind (hs_kind s)))"

definition effective_on_failure :: "hook_step \<Rightarrow> hook \<Rightarrow> string" where
  "effective_on_failure s h =
     (if hs_on_failure s \<noteq> [] then hs_on_failure s else if hk_on_failure h \<noteq> [] then hk_on_failure h else ''halt'')"

section \<open>One execution\<close>

datatype hook_status = HookCompleted | HookHalted | HookAsked | HookSkippedReentrant | HookError

record hook_result =
  hr_status :: hook_status
  hr_steps_run :: nat
  hr_failed :: int
  hr_error :: "step_error option"

datatype progress = StepStart nat | StepFinish nat string | StepFailed nat step_error | StepAsks nat step_error | StepCancelled nat

fun run_steps ::
  "(string \<Rightarrow> int option) \<Rightarrow> hook \<Rightarrow> (nat \<Rightarrow> bool) \<Rightarrow> (nat \<Rightarrow> step_env) \<Rightarrow> nat \<Rightarrow> hook_step list \<Rightarrow> nat \<Rightarrow> hook_result \<times> progress list" where
  \<comment> \<open>\<open>dead i\<close>: the context is dead before step \<open>i\<close>; the last argument counts the steps that ran\<close>
  "run_steps dur h dead env i [] n = (\<lparr>hr_status = HookCompleted, hr_steps_run = n, hr_failed = - 1, hr_error = None\<rparr>, [])"
| "run_steps dur h dead env i (s # ss) n =
     (if dead i
      then (\<lparr>hr_status = HookError, hr_steps_run = n, hr_failed = int i, hr_error = Some WaitCancelled\<rparr>, [StepCancelled i])
      else
        (case dispatch_step dur (env i) s of
           Inr detail \<Rightarrow>
             (let (r, ps) = run_steps dur h dead env (i + 1) ss (n + 1) in (r, [StepStart i, StepFinish i detail] @ ps))
         | Inl e \<Rightarrow>
             (let policy = effective_on_failure s h
              in if policy = ''halt''
                 then (\<lparr>hr_status = HookHalted, hr_steps_run = n, hr_failed = int i, hr_error = Some e\<rparr>, [StepStart i, StepFailed i e])
                 else if policy = ''ask''
                 then (\<lparr>hr_status = HookAsked, hr_steps_run = n, hr_failed = int i, hr_error = Some e\<rparr>, [StepStart i, StepAsks i e])
                 else
                   (let (r, ps) = run_steps dur h dead env (i + 1) ss (n + 1)
                    in (r, [StepStart i] @ (if policy = ''continue'' then [StepFailed i e] else []) @ ps)))))"

definition execute_hook :: "(string \<Rightarrow> int option) \<Rightarrow> hook \<Rightarrow> (nat \<Rightarrow> bool) \<Rightarrow> (nat \<Rightarrow> step_env) \<Rightarrow> hook_result \<times> progress list" where
  \<comment> \<open>\<^verbatim>\<open>Execute\<close> between the guard's entry and its removal\<close>
  "execute_hook dur h dead env = run_steps dur h dead env 0 (hk_steps h) 0"

section \<open>The guard\<close>

definition in_flight_key :: "hook \<Rightarrow> string \<Rightarrow> string" where
  "in_flight_key h stage = hk_name h @ ''|'' @ stage"

record hook_guard =
  hg_keys :: "string list"  \<comment> \<open>the in-flight set\<close>
  hg_active :: "(hook \<times> string) list"  \<comment> \<open>the executions between \<^verbatim>\<open>begin\<close> and \<^verbatim>\<open>end\<close>, nested ones included\<close>

definition guard_begin :: "hook \<Rightarrow> string \<Rightarrow> string list \<Rightarrow> bool \<times> string list" where
  "guard_begin h stage keys =
     (let k = in_flight_key h stage
      in if k \<in> set keys \<and> \<not> hk_reentrant h then (False, keys) else (True, List.insert k keys))"

definition guard_end :: "hook \<Rightarrow> string \<Rightarrow> string list \<Rightarrow> string list" where
  "guard_end h stage keys = removeAll (in_flight_key h stage) keys"

datatype guard_event = BeginHook hook string | EndHook hook string

fun guard_step :: "guard_event \<Rightarrow> hook_guard \<Rightarrow> hook_guard option" where
  "guard_step (BeginHook h stage) g =
     (let (ok, keys) = guard_begin h stage (hg_keys g)
      in Some (if ok then \<lparr>hg_keys = keys, hg_active = hg_active g @ [(h, stage)]\<rparr> else g))"
| "guard_step (EndHook h stage) g =
     (if (h, stage) \<in> set (hg_active g)
      then Some \<lparr>hg_keys = guard_end h stage (hg_keys g), hg_active = remove1 (h, stage) (hg_active g)\<rparr>
      else None)"

fun guard_run :: "guard_event list \<Rightarrow> hook_guard \<Rightarrow> hook_guard option" where
  "guard_run [] g = Some g"
| "guard_run (e # es) g = (case guard_step e g of None \<Rightarrow> None | Some g' \<Rightarrow> guard_run es g')"

definition idle_guard :: hook_guard where
  "idle_guard = \<lparr>hg_keys = [], hg_active = []\<rparr>"

section \<open>Validation is a check of the configuration\<close>

definition step_valid :: "(string \<Rightarrow> int option) \<Rightarrow> hook_step \<Rightarrow> bool" where
  "step_valid dur s =
     (valid_kind (hs_kind s) \<and> hs_name s \<noteq> [] \<and> (if hs_on_failure s = [] then True else valid_on_failure (hs_on_failure s)) \<and>
      (if hs_kind s = ''run-command'' then hs_command s \<noteq> []
       else if hs_kind s = ''send-prompt'' then hs_prompt s \<noteq> []
       else if hs_kind s = ''wait'' then hs_duration s \<noteq> [] \<and> dur (hs_duration s) \<noteq> None else True))"

definition hook_valid :: "(string \<Rightarrow> int option) \<Rightarrow> hook \<Rightarrow> bool" where
  "hook_valid dur h =
     (hk_name h \<noteq> [] \<and> hk_trigger h \<noteq> [] \<and> (if hk_on_failure h = [] then True else valid_on_failure (hk_on_failure h)) \<and>
      list_all (step_valid dur) (hk_steps h))"

definition hooks_valid :: "(string \<Rightarrow> int option) \<Rightarrow> hook list \<Rightarrow> bool" where
  "hooks_valid dur hs = (distinct (map hk_name hs) \<and> list_all (hook_valid dur) hs)"

lemma step_violations_none: "step_violations dur h j s = [] \<longleftrightarrow> step_valid dur s"
  by (auto simp: step_violations_def step_valid_def)

lemma hook_violations_none: "hook_violations dur seen i h = [] \<longleftrightarrow> hk_name h \<notin> set seen \<and> hook_valid dur h"
proof -
  have "concat (map (\<lambda>(j, s). step_violations dur h j s) (enumerate n ss)) = [] \<longleftrightarrow> list_all (step_valid dur) ss" for n ss
    by (induction ss arbitrary: n) (auto simp: step_violations_none)
  then show ?thesis by (auto simp: hook_violations_def hook_valid_def)
qed

lemma validate_from_none:
  "validate_from dur seen i hs = [] \<longleftrightarrow> distinct (map hk_name hs) \<and> list_all (hook_valid dur) hs \<and> set (map hk_name hs) \<inter> set seen = {}"
  by (induction hs arbitrary: seen i) (auto simp: hook_violations_none)


section \<open>Where an execution stops\<close>

definition stops :: "(string \<Rightarrow> int option) \<Rightarrow> hook \<Rightarrow> step_env \<Rightarrow> hook_step \<Rightarrow> bool" where
  "stops dur h env s = (case dispatch_step dur env s of Inl _ \<Rightarrow> effective_on_failure s h \<in> {''halt'', ''ask''} | Inr _ \<Rightarrow> False)"

fun first_stop :: "(string \<Rightarrow> int option) \<Rightarrow> hook \<Rightarrow> (nat \<Rightarrow> bool) \<Rightarrow> (nat \<Rightarrow> step_env) \<Rightarrow> nat \<Rightarrow> hook_step list \<Rightarrow> nat option" where
  \<comment> \<open>the reference: the first step before which the context is dead or whose failure stops the chain\<close>
  "first_stop dur h dead env i [] = None"
| "first_stop dur h dead env i (s # ss) = (if dead i \<or> stops dur h (env i) s then Some i else first_stop dur h dead env (i + 1) ss)"

fun started :: "progress \<Rightarrow> nat option" where
  "started (StepStart i) = Some i"
| "started _ = None"

lemma run_steps_spec:
  "n = i \<Longrightarrow> (case run_steps dur h dead env i ss n of (r, ps) \<Rightarrow>
     (case first_stop dur h dead env i ss of
        None \<Rightarrow> hr_status r = HookCompleted \<and> hr_steps_run r = i + length ss \<and> hr_failed r = - 1 \<and>
          List.map_filter started ps = [i..<i + length ss]
      | Some k \<Rightarrow> hr_status r \<noteq> HookCompleted \<and> hr_steps_run r = k \<and> hr_failed r = int k \<and>
          List.map_filter started ps = [i..<(if dead k then k else k + 1)]))"
proof (induction dur h dead env i ss n rule: run_steps.induct)
  case (2 dur h dead env i s ss n)
  have le: "first_stop dur h dead env j ss = Some k \<Longrightarrow> j \<le> k" for j k
    by (induction ss arbitrary: j) (fastforce split: if_splits)+
  show ?case
  proof (cases "dead i")
    case True
    then show ?thesis using 2 by simp
  next
    case False
    have up: "i # [i + 1..<m] = [i..<m]" if "i < m" for m using that by (simp add: upt_conv_Cons)
    have s: "stops dur h (env i) s \<or> (case run_steps dur h dead env (i + 1) ss (n + 1) of (r, ps) \<Rightarrow>
        fst (run_steps dur h dead env i (s # ss) n) = r \<and>
        List.map_filter started (snd (run_steps dur h dead env i (s # ss) n)) = i # List.map_filter started ps)"
      using False by (auto simp: stops_def Let_def split: sum.split prod.split)
    show ?thesis
    proof (cases "stops dur h (env i) s")
      case True
      then show ?thesis using False 2(3)
        by (auto simp: stops_def Let_def split: sum.splits prod.split)
    next
      case go: False
      obtain r ps where r: "run_steps dur h dead env (i + 1) ss (n + 1) = (r, ps)" by fastforce
      have ih: "case first_stop dur h dead env (i + 1) ss of
          None \<Rightarrow> hr_status r = HookCompleted \<and> hr_steps_run r = i + 1 + length ss \<and> hr_failed r = - 1 \<and>
            List.map_filter started ps = [i + 1..<i + 1 + length ss]
        | Some k \<Rightarrow> hr_status r \<noteq> HookCompleted \<and> hr_steps_run r = k \<and> hr_failed r = int k \<and>
            List.map_filter started ps = [i + 1..<(if dead k then k else k + 1)]"
      proof (cases "dispatch_step dur (env i) s")
        case (Inr d)
        with 2(2)[OF False Inr] 2(3) r show ?thesis by simp
      next
        case (Inl e)
        then have "effective_on_failure s h \<noteq> ''halt''" "effective_on_failure s h \<noteq> ''ask''" using go by (auto simp: stops_def)
        with 2(1)[OF False Inl refl] 2(3) r show ?thesis by simp
      qed
      obtain r' ps' where r': "run_steps dur h dead env i (s # ss) n = (r', ps')" by fastforce
      then have e: "r' = r" "List.map_filter started ps' = i # List.map_filter started ps" using s go r by auto
      have f: "first_stop dur h dead env i (s # ss) = first_stop dur h dead env (i + 1) ss" using go False by simp
      show ?thesis
      proof (cases "first_stop dur h dead env (i + 1) ss")
        case None
        then have "List.map_filter started ps' = i # [i + 1..<i + 1 + length ss]" using ih e(2) by simp
        also have "\<dots> = [i..<i + length (s # ss)]" using up[of "i + 1 + length ss"] by simp
        finally show ?thesis unfolding r' f using None ih e(1) by simp
      next
        case (Some k)
        then have "List.map_filter started ps' = i # [i + 1..<(if dead k then k else k + 1)]" using ih e(2) by simp
        also have "\<dots> = [i..<(if dead k then k else k + 1)]" using le[OF Some] by (intro up) (auto split: if_splits)
        finally show ?thesis unfolding r' f using Some ih e(1) by simp
      qed
    qed
  qed
qed simp


section \<open>No hook inside itself\<close>

definition known_hooks :: "hook list \<Rightarrow> guard_event list \<Rightarrow> bool" where
  "known_hooks hs es = list_all (\<lambda>e. case e of BeginHook h _ \<Rightarrow> h \<in> set hs | EndHook _ _ \<Rightarrow> True) es"

definition bar_free :: "hook list \<Rightarrow> bool" where
  "bar_free hs = list_all (\<lambda>h. CHR ''|'' \<notin> set (hk_name h)) hs"

lemma key_injective:
  assumes "distinct (map hk_name hs)" "bar_free hs" "h \<in> set hs" "h' \<in> set hs" "in_flight_key h s = in_flight_key h' s'"
  shows "h = h' \<and> s = s'"
proof -
  have split: "takeWhile (\<lambda>c. c \<noteq> CHR ''|'') (n @ ''|'' @ s) = n" if "CHR ''|'' \<notin> set n" for n s
    using that by (induction n) auto
  have "CHR ''|'' \<notin> set (hk_name h)" "CHR ''|'' \<notin> set (hk_name h')" using assms(2-4) by (auto simp: bar_free_def list_all_iff)
  then have n: "hk_name h = hk_name h'" using split assms(5) unfolding in_flight_key_def by metis
  then have "h = h'" using assms(1,3,4) by (simp add: distinct_map inj_on_def)
  with n assms(5) show ?thesis by (simp add: in_flight_key_def)
qed

definition guard_ok :: "hook list \<Rightarrow> hook_guard \<Rightarrow> bool" where
  "guard_ok hs g =
     ((\<forall>x \<in> set (hg_active g). fst x \<in> set hs) \<and>
      set (hg_keys g) \<subseteq> (\<lambda>(h, s). in_flight_key h s) ` set (hg_active g) \<and>
      (\<forall>(h, s) \<in> set (hg_active g). \<not> hk_reentrant h \<longrightarrow> in_flight_key h s \<in> set (hg_keys g) \<and> count_list (hg_active g) (h, s) = 1))"

lemma count_remove1: "count_list (remove1 x xs) y = count_list xs y - (if x = y then 1 else 0)"
  by (induction xs) auto

lemma guard_step_ok:
  assumes "distinct (map hk_name hs)" "bar_free hs" "guard_ok hs g" "guard_step e g = Some g'" "known_hooks hs [e]"
  shows "guard_ok hs g'"
proof (cases e)
  case (BeginHook h s)
  have h: "h \<in> set hs" using assms(5) BeginHook by (simp add: known_hooks_def)
  show ?thesis
  proof (cases "in_flight_key h s \<in> set (hg_keys g) \<and> \<not> hk_reentrant h")
    case True
    then show ?thesis using assms(3,4) BeginHook by (simp add: guard_begin_def Let_def)
  next
    case False
    then have g': "g' = \<lparr>hg_keys = List.insert (in_flight_key h s) (hg_keys g), hg_active = hg_active g @ [(h, s)]\<rparr>"
      using assms(4) BeginHook by (auto simp: guard_begin_def Let_def)
    have "\<not> hk_reentrant h \<Longrightarrow> (h, s) \<notin> set (hg_active g)" using False assms(3) by (auto simp: guard_ok_def)
    then show ?thesis using assms(3) h unfolding g' by (auto simp: guard_ok_def count_list_0_iff)
  qed
next
  case (EndHook h s)
  then have a: "(h, s) \<in> set (hg_active g)"
    "g' = \<lparr>hg_keys = removeAll (in_flight_key h s) (hg_keys g), hg_active = remove1 (h, s) (hg_active g)\<rparr>"
    using assms(4) by (auto simp: guard_end_def split: if_splits)
  have sub: "x \<in> set (remove1 (h, s) (hg_active g)) \<Longrightarrow> x \<in> set (hg_active g)" for x using set_remove1_subset by fastforce
  have inj: "(h', s') \<in> set (hg_active g) \<Longrightarrow> in_flight_key h' s' = in_flight_key h s \<Longrightarrow> (h', s') = (h, s)" for h' s'
    proof -
    assume m: "(h', s') \<in> set (hg_active g)" "in_flight_key h' s' = in_flight_key h s"
    have "h' \<in> set hs" "h \<in> set hs" using m(1) a(1) assms(3) by (force simp: guard_ok_def)+
    from key_injective[OF assms(1,2) this m(2)] show "(h', s') = (h, s)" by simp
  qed
  have gone: "\<not> hk_reentrant h \<Longrightarrow> (h, s) \<notin> set (remove1 (h, s) (hg_active g))"
    using assms(3) a(1) count_remove1[of "(h, s)" "hg_active g" "(h, s)"] by (auto simp: guard_ok_def simp flip: count_list_0_iff)
  have keys: "set (hg_keys g') \<subseteq> (\<lambda>(h, s). in_flight_key h s) ` set (hg_active g')"
  proof
    fix k assume "k \<in> set (hg_keys g')"
    then have k: "k \<in> set (hg_keys g)" "k \<noteq> in_flight_key h s" using a(2) by auto
    then obtain h' s' where x: "(h', s') \<in> set (hg_active g)" "k = in_flight_key h' s'" using assms(3) by (auto simp: guard_ok_def)
    then have "(h', s') \<noteq> (h, s)" using k(2) by auto
    with x(1) have "(h', s') \<in> set (hg_active g')" using a(2) in_set_remove1 by simp
    with x(2) show "k \<in> (\<lambda>(h, s). in_flight_key h s) ` set (hg_active g')" by force
  qed
  have "in_flight_key h' s' \<in> set (hg_keys g') \<and> count_list (hg_active g') (h', s') = 1"
    if "(h', s') \<in> set (hg_active g')" "\<not> hk_reentrant h'" for h' s'
  proof -
    have m: "(h', s') \<in> set (hg_active g)" using that(1) sub a(2) by simp
    have ne: "(h', s') \<noteq> (h, s)" using gone that a(2) by auto
    then show ?thesis using m inj[OF m] that(2) assms(3) a(2) count_remove1[of "(h, s)" "hg_active g" "(h', s')"]
      by (auto simp: guard_ok_def)
  qed
  then show ?thesis using keys assms(3) sub a(2) by (auto simp: guard_ok_def)
qed

lemma guard_run_ok:
  assumes "distinct (map hk_name hs)" "bar_free hs"
  shows "guard_ok hs g \<Longrightarrow> guard_run es g = Some g' \<Longrightarrow> known_hooks hs es \<Longrightarrow> guard_ok hs g'"
proof (induction es arbitrary: g)
  case (Cons e es)
  then obtain u where u: "guard_step e g = Some u" "guard_run es u = Some g'" by (auto split: option.splits)
  have "known_hooks hs [e]" "known_hooks hs es" using Cons.prems(3) by (simp_all add: known_hooks_def)
  with u Cons guard_step_ok[OF assms] show ?case by blast
qed simp


section \<open>Witness and a collision\<close>

definition plain_hook :: "string \<Rightarrow> hook" where
  "plain_hook n =
     \<lparr>hk_name = n, hk_trigger = ''post-phase'',
      hk_steps = [\<lparr>hs_name = ''p'', hs_kind = ''send-prompt'', hs_on_failure = ''continue'', hs_command = [], hs_args = [], hs_prompt = ''x'', hs_duration = []\<rparr>],
      hk_on_failure = ''continue'', hk_reentrant = False\<rparr>"


text \<open>The bar is part of the key: another hook with another stage is taken for the one in flight.\<close>

lemma bar_collision:
  "in_flight_key (plain_hook ''a|b'') ''c'' = in_flight_key (plain_hook ''a'') ''b|c''"
  "map_option hg_active (guard_run [BeginHook (plain_hook ''a|b'') ''c'', BeginHook (plain_hook ''a'') ''b|c''] idle_guard) =
     Some [(plain_hook ''a|b'', ''c'')]"
  by code_simp+

end
