(* ===== verification/Checkpoint.thy ===== *)
theory Checkpoint
  imports Routing
begin

text \<open>
  Checkpoints and undo: the shadow store of \<^verbatim>\<open>kit/checkpoint/store.go\<close> (ids, listing, snapshots,
  retention, the user's exclude file, nested repositories) and the \<^verbatim>\<open>/undo\<close> walk of
  \<^verbatim>\<open>kit/runtime/commands.go\<close>. Git is a parameter: a record of the commands the store runs, on a state
  of its own, that may fail; \<open>git_lawful\<close> states what the code relies on.
\<close>

section \<open>Checkpoint ids\<close>

definition default_keep :: nat where
  "default_keep = 50"

definition ref_prefix :: string where
  "ref_prefix = ''refs/checkpoints/''"

definition last_ref :: string where
  "last_ref = ''refs/checkpoints/last''"

definition id_char :: "char \<Rightarrow> bool" where
  "id_char c = ((CHR ''A'' \<le> c \<and> c \<le> CHR ''Z'') \<or> (CHR ''a'' \<le> c \<and> c \<le> CHR ''z'') \<or> is_digit c \<or> c = CHR ''_'' \<or> c = CHR ''-'')"

definition match_id :: "string \<Rightarrow> (string \<times> string \<times> string) option" where
  \<comment> \<open>\<^verbatim>\<open>^[A-Za-z0-9_-]+-(turn|pre)-(\d{3,})$\<close>: what is before the family, the family, the digits\<close>
  "match_id s =
     (let ds = rev (takeWhile (\<lambda>c. c \<noteq> CHR ''-'') (rev s)); front = take (length s - length ds) s;
          cand = (\<lambda>family. case cut_suffix front (''-'' @ family @ ''-'') of
                   Some p \<Rightarrow> if p \<noteq> [] \<and> list_all id_char p then Some (p, family, ds) else None
                 | None \<Rightarrow> None)
      in if 3 \<le> length ds \<and> list_all is_digit ds
         then (case cand ''turn'' of Some x \<Rightarrow> Some x | None \<Rightarrow> cand ''pre'')
         else None)"

datatype ckpt_error =
    ErrEmptySession
  | ErrInvalidId string
  | ErrForeignId string string
  | ErrGit string
  | ErrNotRepo
  | ErrWorktree

definition validate_turn_id :: "string \<Rightarrow> string \<Rightarrow> ckpt_error option" where
  "validate_turn_id session turn =
     (if session = [] then Some ErrEmptySession
      else case match_id turn of
             None \<Rightarrow> Some (ErrInvalidId turn)
           | Some (p, family, ds) \<Rightarrow>
               if has_prefix turn (session @ ''-'' @ family @ ''-'') then None else Some (ErrForeignId turn session))"

record ckpt_entry =
  ce_session :: string
  ce_num :: int
  ce_ref :: string
  ce_at :: int
  ce_kind :: string

definition parse_ref :: "string \<times> int \<Rightarrow> ckpt_entry option" where
  \<comment> \<open>one line of \<^verbatim>\<open>for-each-ref\<close>, split into its fields\<close>
  "parse_ref r =
     (let (ref, at') = r; id' = (case cut_prefix ref ref_prefix of Some x \<Rightarrow> x | None \<Rightarrow> ref)
      in if ref = last_ref then None
         else case match_id id' of
                None \<Rightarrow> None
              | Some (p, family, ds) \<Rightarrow>
                  (case parse_int64 ds of
                     None \<Rightarrow> None
                   | Some n \<Rightarrow> Some \<lparr>ce_session = p, ce_num = n, ce_ref = ref, ce_at = at', ce_kind = family\<rparr>))"

section \<open>Git\<close>

record ('g, 'w) git =
  gt_refs :: "'g \<Rightarrow> (string \<times> int) list"  \<comment> \<open>\<^verbatim>\<open>for-each-ref refs/checkpoints/\<close>\<close>
  gt_readable :: "'g \<Rightarrow> bool"  \<comment> \<open>that command succeeds\<close>
  gt_commit :: "'w \<Rightarrow> int \<Rightarrow> string \<Rightarrow> 'g \<Rightarrow> ('g \<times> string) option"  \<comment> \<open>add, write-tree, rev-parse, commit-tree\<close>
  gt_point :: "string \<Rightarrow> string \<Rightarrow> 'g \<Rightarrow> 'g option"  \<comment> \<open>update-ref\<close>
  gt_drop :: "string \<Rightarrow> 'g \<Rightarrow> 'g option"  \<comment> \<open>update-ref -d\<close>
  gt_expire :: "'g \<Rightarrow> 'g option"  \<comment> \<open>reflog expire, gc\<close>
  gt_checkout :: "string \<Rightarrow> 'w \<Rightarrow> 'g \<Rightarrow> 'w \<times> bool"  \<comment> \<open>checkout --no-overlay, clean: the workspace after it, also when one fails\<close>
  gt_object :: "'g \<Rightarrow> string \<Rightarrow> ('w \<times> int) option"  \<comment> \<open>the tree and the time of a commit\<close>
  gt_at :: "'g \<Rightarrow> string \<Rightarrow> ('w \<times> int) option"  \<comment> \<open>the tree and the time of the commit a ref names\<close>

definition git_lawful :: "('g, 'w) git \<Rightarrow> bool" where
  "git_lawful gt =
     ((\<forall>g. distinct (map fst (gt_refs gt g)) \<and> (\<forall>r t. (r, t) \<in> set (gt_refs gt g) \<longleftrightarrow> (\<exists>w. gt_at gt g r = Some (w, t)))) \<and>
      (\<forall>w t m g g' sha. gt_commit gt w t m g = Some (g', sha) \<longrightarrow> gt_object gt g' sha = Some (w, t) \<and> gt_at gt g' = gt_at gt g) \<and>
      (\<forall>r sha g g' x. gt_point gt r sha g = Some g' \<longrightarrow> gt_object gt g sha = Some x \<longrightarrow> gt_at gt g' = (gt_at gt g)(r \<mapsto> x)) \<and>
      (\<forall>r g g'. gt_drop gt r g = Some g' \<longrightarrow> gt_at gt g' = (gt_at gt g)(r := None)) \<and>
      (\<forall>g g'. gt_expire gt g = Some g' \<longrightarrow> gt_at gt g' = gt_at gt g) \<and>
      (\<forall>r w w' g. gt_checkout gt r w g = (w', True) \<longrightarrow> (\<exists>t. gt_at gt g r = Some (w', t))))"

section \<open>The store\<close>

definition sort_entries :: "ckpt_entry list \<Rightarrow> ckpt_entry list" where
  "sort_entries es = sort_key ce_session (sort_key ce_num (sort_key ce_kind es))"

definition list_refs :: "('g, 'w) git \<Rightarrow> 'g \<Rightarrow> ckpt_entry list" where
  "list_refs gt g = sort_entries (List.map_filter parse_ref (gt_refs gt g))"

fun drop_refs :: "('g, 'w) git \<Rightarrow> string list \<Rightarrow> 'g \<Rightarrow> 'g \<times> bool" where
  \<comment> \<open>stops at the first failure\<close>
  "drop_refs gt [] g = (g, True)"
| "drop_refs gt (r # rs) g = (case gt_drop gt r g of None \<Rightarrow> (g, False) | Some g' \<Rightarrow> drop_refs gt rs g')"

definition prune :: "('g, 'w) git \<Rightarrow> 'g \<Rightarrow> 'g \<times> bool" where
  "prune gt g =
     (if \<not> gt_readable gt g then (g, False)
      else (let es = list_refs gt g in drop_refs gt (map ce_ref (take (length es - default_keep) es)) g))"

definition commit_and_point :: "('g, 'w) git \<Rightarrow> string \<Rightarrow> 'w \<Rightarrow> int \<Rightarrow> 'g \<Rightarrow> 'g \<times> ckpt_error option" where
  \<comment> \<open>the ref appears only after its commit; then the retention\<close>
  "commit_and_point gt id' w now g =
     (case gt_commit gt w now id' g of
        None \<Rightarrow> (g, Some (ErrGit ''commit''))
      | Some (g, sha) \<Rightarrow>
          if sha = [] then (g, Some (ErrGit ''commit-tree''))
          else (case gt_point gt (ref_prefix @ id') sha g of
                  None \<Rightarrow> (g, Some (ErrGit ''update-ref''))
                | Some g \<Rightarrow> (let (g, ok) = prune gt g in (g, if ok then None else Some (ErrGit ''prune'')))))"

definition snapshot :: "('g, 'w) git \<Rightarrow> string \<Rightarrow> string \<Rightarrow> 'w \<Rightarrow> int \<Rightarrow> 'g \<Rightarrow> 'g \<times> ckpt_error option" where
  "snapshot gt session turn w now g =
     (case validate_turn_id session turn of Some e \<Rightarrow> (g, Some e) | None \<Rightarrow> commit_and_point gt turn w now g)"

definition max_pre :: "string \<Rightarrow> ckpt_entry list \<Rightarrow> int" where
  "max_pre session es = fold max (map ce_num (filter (\<lambda>e. ce_session e = session \<and> ce_kind e = ''pre'') es)) 0"

definition pre_id :: "string \<Rightarrow> int \<Rightarrow> string" where
  "pre_id session n = session @ ''-pre-'' @ show_int03 (sint (word_of_int (n + 1) :: 64 word))"

definition snapshot_pre_restore :: "('g, 'w) git \<Rightarrow> string \<Rightarrow> 'w \<Rightarrow> int \<Rightarrow> 'g \<Rightarrow> 'g \<times> (ckpt_error + string)" where
  "snapshot_pre_restore gt session w now g =
     (if session = [] then (g, Fail ErrEmptySession)
      else if \<not> gt_readable gt g then (g, Fail (ErrGit ''list''))
      else (let id' = pre_id session (max_pre session (list_refs gt g))
            in case validate_turn_id session id' of
                 Some e \<Rightarrow> (g, Fail e)
               | None \<Rightarrow>
                   (let (g', e) = commit_and_point gt id' w now g
                    in (g', case e of Some e \<Rightarrow> Fail e | None \<Rightarrow> Ok id'))))"

fun drop_all :: "('g, 'w) git \<Rightarrow> string list \<Rightarrow> 'g \<Rightarrow> 'g \<times> string list" where
  \<comment> \<open>goes on after a failure; the refs that could not be deleted\<close>
  "drop_all gt [] g = (g, [])"
| "drop_all gt (r # rs) g =
     (case gt_drop gt r g of
        None \<Rightarrow> (let (g, bad) = drop_all gt rs g in (g, r # bad))
      | Some g' \<Rightarrow> drop_all gt rs g')"

definition delete_session :: "('g, 'w) git \<Rightarrow> string \<Rightarrow> 'g \<Rightarrow> 'g \<times> ckpt_error option" where
  "delete_session gt session g =
     (if session = [] then (g, Some ErrEmptySession)
      else if \<not> gt_readable gt g then (g, Some (ErrGit ''list''))
      else (let (g, bad) = drop_all gt (map ce_ref (filter (\<lambda>e. ce_session e = session) (list_refs gt g))) g
            in (g, if bad = [] then None else Some (ErrGit ''delete''))))"

definition expire_by_age :: "ckpt_entry list \<Rightarrow> int \<Rightarrow> int \<Rightarrow> ckpt_entry list" where
  "expire_by_age es now max_age = (if max_age \<le> 0 then [] else filter (\<lambda>e. ce_at e < now - max_age) es)"

fun overflow :: "nat \<Rightarrow> (string \<Rightarrow> nat) \<Rightarrow> ckpt_entry list \<Rightarrow> ckpt_entry list" where
  "overflow k kept [] = []"
| "overflow k kept (e # es) =
     (let n = kept (ce_session e) + 1; rest = overflow k (kept(ce_session e := n)) es in if k < n then e # rest else rest)"

definition newest_first :: "ckpt_entry list \<Rightarrow> ckpt_entry list" where
  "newest_first es = sort_key (\<lambda>e. - ce_at e) (sort_key (\<lambda>e. - ce_num e) (rev (sort_key ce_ref es)))"

definition expire_by_count :: "ckpt_entry list \<Rightarrow> int \<Rightarrow> ckpt_entry list" where
  "expire_by_count es per = (if per \<le> 0 then [] else overflow (nat per) (\<lambda>_. 0) (newest_first es))"

definition sweep :: "('g, 'w) git \<Rightarrow> int \<Rightarrow> int \<Rightarrow> int \<Rightarrow> 'g \<Rightarrow> 'g \<times> ckpt_error option" where
  \<comment> \<open>times in seconds of UTC; \<open>now\<close> as the clock reads\<close>
  "sweep gt max_age per now g =
     (if \<not> gt_readable gt g then (g, Some (ErrGit ''list''))
      else
        (let per = (if per \<le> 0 then int default_keep else per); es = list_refs gt g;
             aged = expire_by_age es now max_age;
             young = filter (\<lambda>e. ce_ref e \<notin> set (map ce_ref aged)) es;
             victims = aged @ expire_by_count young per;
             (g, ok) = drop_refs gt (map ce_ref victims) g
         in if \<not> ok then (g, Some (ErrGit ''sweep''))
            else case gt_expire gt g of None \<Rightarrow> (g, Some (ErrGit ''gc'')) | Some g \<Rightarrow> (g, None)))"

definition ckpt_restore :: "('g, 'w) git \<Rightarrow> string \<Rightarrow> 'w \<Rightarrow> 'g \<Rightarrow> 'w \<times> ckpt_error option" where
  \<comment> \<open>a restore that fails half way leaves the workspace as the failed command did\<close>
  "ckpt_restore gt id' w g =
     (if match_id id' = None then (w, Some (ErrInvalidId id'))
      else (let (w', ok) = gt_checkout gt (ref_prefix @ id') w g in (w', if ok then None else Some (ErrGit ''restore''))))"

section \<open>The user's repository\<close>

datatype dot_git = NoGit | GitFile | GitDir "string option"  \<comment> \<open>\<^verbatim>\<open>.git\<close> of the workspace, with \<^verbatim>\<open>info/exclude\<close>\<close>

definition exclude_rule :: string where
  "exclude_rule = ''.ass-guard/''"

definition ensure_user_exclude :: "dot_git \<Rightarrow> dot_git \<times> ckpt_error option" where
  "ensure_user_exclude d =
     (case d of
        NoGit \<Rightarrow> (d, Some ErrNotRepo)
      | GitFile \<Rightarrow> (d, Some ErrWorktree)
      | GitDir ex \<Rightarrow>
          (let old = (case ex of Some s \<Rightarrow> s | None \<Rightarrow> [])
           in if ex \<noteq> None \<and> exclude_rule \<in> set (split_char (CHR 10) old) then (d, None)
              else (GitDir (Some (old @ exclude_rule @ [CHR 10])), None)))"

datatype ws_node = WsFile | WsDir "(string \<times> ws_node) list"

fun nested_repos :: "string \<Rightarrow> string \<times> ws_node \<Rightarrow> string list" where
  \<comment> \<open>one entry of the directory \<open>rel\<close>, the empty path being the workspace\<close>
  "nested_repos rel (n, WsFile) = (if n = ''.git'' \<and> rel \<noteq> [] then [rel] else [])"
| "nested_repos rel (n, WsDir es) =
     (if rel = [] \<and> n = ''.ass-guard'' then []
      else if n = ''.git'' then (if rel \<noteq> [] then [rel] else [])
      else concat (map (nested_repos (if rel = [] then n else rel @ ''/'' @ n)) es))"

definition restore_guard :: "(string \<times> ws_node) list \<Rightarrow> string list" where
  "restore_guard ws = concat (map (nested_repos []) ws)"

section \<open>Undo\<close>

definition parse_undo_depth :: "string \<Rightarrow> int option" where
  "parse_undo_depth args =
     (let s = trim_space args
      in if s = [] then Some 1 else case atoi s of None \<Rightarrow> None | Some n \<Rightarrow> if n < 1 then Some 1 else Some n)"

definition undo_order :: "ckpt_entry list \<Rightarrow> ckpt_entry list" where
  \<comment> \<open>newest first; on ties the pre-restore family, then the higher number, then the greater ref\<close>
  "undo_order es = sort_key (\<lambda>e. - ce_at e) (sort_key ce_kind (sort_key (\<lambda>e. - ce_num e) (rev (sort_key ce_ref es))))"

definition undo_walk_target :: "ckpt_entry list \<Rightarrow> string \<Rightarrow> int \<Rightarrow> ckpt_entry option" where
  "undo_walk_target es session depth =
     (let mine = undo_order (filter (\<lambda>e. ce_session e = session) es); idx = depth - 1
      in if mine = [] then None
         else Some (mine ! nat (if int (length mine) \<le> idx then int (length mine) - 1 else idx)))"

datatype undo_outcome =
    UndoUnavailable
  | UndoBadDepth
  | UndoNested "string list"
  | UndoListFailed
  | UndoNothing
  | UndoBusy
  | UndoSnapshotFailed ckpt_error
  | UndoRestoreFailed string string
  | UndoDone string string  \<comment> \<open>the restored id, the id of the pre-restore snapshot\<close>

definition undo :: "('g, 'w) git \<Rightarrow> bool \<Rightarrow> ('w \<Rightarrow> (string \<times> ws_node) list) \<Rightarrow> bool \<Rightarrow> string \<Rightarrow> string \<Rightarrow> int \<Rightarrow>
    'w \<times> 'g \<Rightarrow> undo_outcome \<times> 'w \<times> 'g" where
  \<comment> \<open>the idle \<^verbatim>\<open>/undo\<close>: store enabled, the workspace as a tree, another session busy, session, arguments, clock\<close>
  "undo gt enabled tree busy session args now wg =
     (let (w, g) = wg
      in if \<not> enabled then (UndoUnavailable, w, g)
         else case parse_undo_depth args of
           None \<Rightarrow> (UndoBadDepth, w, g)
         | Some depth \<Rightarrow>
             if restore_guard (tree w) \<noteq> [] then (UndoNested (restore_guard (tree w)), w, g)
             else if \<not> gt_readable gt g then (UndoListFailed, w, g)
             else case undo_walk_target (list_refs gt g) session depth of
               None \<Rightarrow> (UndoNothing, w, g)
             | Some target \<Rightarrow>
                 (let id' = (case cut_prefix (ce_ref target) ref_prefix of Some x \<Rightarrow> x | None \<Rightarrow> ce_ref target)
                  in if busy then (UndoBusy, w, g)
                     else case snapshot_pre_restore gt session w now g of
                       (g, Inl e) \<Rightarrow> (UndoSnapshotFailed e, w, g)
                     | (g, Inr pre) \<Rightarrow>
                         (case ckpt_restore gt id' w g of
                            (w', Some e) \<Rightarrow> (UndoRestoreFailed id' pre, w', g)
                          | (w', None) \<Rightarrow> (UndoDone id' pre, w', g))))"

end
