(* ===== verification/CheckpointProps.thy ===== *)
theory CheckpointProps
  imports Checkpoint
begin

text \<open>
  What the checkpoint store and undo promise, over any lawful git: a snapshot restores to its workspace while the
  store is below its bound, retention by the sweep is per session and by recency, an undo never mutates
  without a safety snapshot and can itself be undone; and where the prune after a snapshot breaks these.
\<close>

section \<open>Ids\<close>

lemma match_id_built:
  assumes "p \<noteq> []" "list_all id_char p" "family = ''turn'' \<or> family = ''pre''" "3 \<le> length ds" "list_all is_digit ds"
  shows "match_id (p @ ''-'' @ family @ ''-'' @ ds) = Some (p, family, ds)"
proof -
  have nd: "CHR ''-'' \<notin> set ds" using assms(5) by (auto simp: list_all_iff is_digit_def dest!: bspec)
  have tw: "takeWhile (\<lambda>c. c \<noteq> CHR ''-'') (rev ds @ CHR ''-'' # r) = rev ds" for r
    using nd by (subst takeWhile_append2) auto
  let ?s = "p @ ''-'' @ family @ ''-'' @ ds"
  have d: "rev (takeWhile (\<lambda>c. c \<noteq> CHR ''-'') (rev ?s)) = ds" using tw by simp
  have f: "take (length ?s - length ds) ?s = p @ ''-'' @ family @ ''-''" by simp
  have no: "cut_suffix (p @ ''-pre-'') ''-turn-'' = None"
    by (simp add: cut_suffix_None has_suffix_def suffix_def append_eq_append_conv2)
  show ?thesis using assms no cut_suffix_append[of p "''-'' @ family @ ''-''"]
    unfolding match_id_def Let_def d f by auto
qed

lemma match_idD:
  assumes "match_id s = Some (p, family, ds)"
  shows "s = p @ ''-'' @ family @ ''-'' @ ds" "p \<noteq> []" "list_all id_char p" "family = ''turn'' \<or> family = ''pre''" "3 \<le> length ds" "list_all is_digit ds"
proof -
  let ?d = "rev (takeWhile (\<lambda>c. c \<noteq> CHR ''-'') (rev s))"
  let ?f = "take (length s - length ?d) s"
  have s: "s = ?f @ ?d"
  proof -
    have "suffix ?d s" by (metis rev_rev_ident suffix_to_prefix takeWhile_is_prefix)
    then show ?thesis by (metis append_take_drop_id suffix_take suffix_drop suffixE append_same_eq same_append_eq)
  qed
  have "\<exists>fam. (fam = ''turn'' \<or> fam = ''pre'') \<and> cut_suffix ?f (''-'' @ fam @ ''-'') = Some p \<and> p \<noteq> [] \<and> list_all id_char p \<and> family = fam \<and>
      ds = ?d \<and> 3 \<le> length ?d \<and> list_all is_digit ?d"
    using assms by (auto simp: match_id_def Let_def split: if_splits option.splits)
  then show "s = p @ ''-'' @ family @ ''-'' @ ds" "p \<noteq> []" "list_all id_char p" "family = ''turn'' \<or> family = ''pre''" "3 \<le> length ds" "list_all is_digit ds"
    using s by (auto simp: cut_suffix_Some)
qed

lemma last_dash:
  assumes "a @ CHR ''-'' # ds = b @ CHR ''-'' # ds'" "CHR ''-'' \<notin> set ds" "CHR ''-'' \<notin> set ds'"
  shows "a = b" "ds = ds'"
proof -
  have t: "takeWhile (\<lambda>c. c \<noteq> CHR ''-'') (rev (x @ CHR ''-'' # d)) = rev d" if "CHR ''-'' \<notin> set d" for x d
    using that by (simp, subst takeWhile_append2) auto
  have "rev ds = rev ds'" using t[OF assms(2), of a] t[OF assms(3), of b] assms(1) by simp
  then show "ds = ds'" by simp
  with assms(1) show "a = b" by simp
qed

lemma digits_no_dash: "list_all is_digit ds \<Longrightarrow> CHR ''-'' \<notin> set ds"
  by (auto simp: list_all_iff is_digit_def dest!: bspec)

lemma match_pre:
  assumes "match_id (s @ ''-pre-'' @ ds) = Some (p, family, ds')" "CHR ''-'' \<notin> set ds"
  shows "p = s" "family = ''pre''" "ds' = ds"
proof -
  note m = match_idD[OF assms(1)]
  have "(s @ ''-pre'') @ CHR ''-'' # ds = (p @ ''-'' @ family) @ CHR ''-'' # ds'" using m(1) by simp
  from last_dash[OF this assms(2) digits_no_dash[OF m(6)]]
  have e: "s @ ''-pre'' = p @ ''-'' @ family" "ds' = ds" by simp_all
  then have l: "last (s @ ''-pre'') = last (p @ ''-'' @ family)" by simp
  then have "family \<noteq> ''turn''" by auto
  then show "family = ''pre''" using m(4) by simp
  with e show "p = s" "ds' = ds" by simp_all
qed

section \<open>Listing\<close>

lemma set_map_filter: "set (List.map_filter f xs) = {y. \<exists>x \<in> set xs. f x = Some y}"
  by (induction xs) (auto split: option.splits)

lemma set_list_refs: "e \<in> set (list_refs gt g) \<longleftrightarrow> (\<exists>r \<in> set (gt_refs gt g). parse_ref r = Some e)"
  by (simp add: list_refs_def sort_entries_def set_map_filter)

lemma list_refsE:
  assumes "e \<in> set (list_refs gt g)"
  obtains r t where "(r, t) \<in> set (gt_refs gt g)" "parse_ref (r, t) = Some e"
  using assms by (auto simp: set_list_refs)

lemma parse_ref_fields: "parse_ref (r, t) = Some e \<Longrightarrow> ce_ref e = r \<and> ce_at e = t"
  by (auto simp: parse_ref_def Let_def split: if_splits option.splits)

lemma parse_ref_time: "(parse_ref (r, t) = None) = (parse_ref (r, 0) = None)"
  by (auto simp: parse_ref_def Let_def split: if_splits option.splits)

lemma distinct_refs_filter:
  "distinct (map fst rs) \<Longrightarrow> distinct (map ce_ref (List.map_filter parse_ref rs))"
proof (induction rs)
  case (Cons r rs)
  have "ce_ref ` set (List.map_filter parse_ref rs) \<subseteq> fst ` set rs"
    using parse_ref_fields by (force simp: set_map_filter)
  with Cons show ?case
    using parse_ref_fields[of "fst r" "snd r"] by (auto split: option.split)
qed simp

definition listed :: "('g, 'w) git \<Rightarrow> 'g \<Rightarrow> string set" where
  "listed gt g = {r. gt_at gt g r \<noteq> None \<and> parse_ref (r, 0) \<noteq> None}"

lemma refs_lawful:
  assumes "git_lawful gt"
  shows "distinct (map fst (gt_refs gt g))" "(r, t) \<in> set (gt_refs gt g) \<longleftrightarrow> (\<exists>w. gt_at gt g r = Some (w, t))"
  using assms by (simp_all add: git_lawful_def)

lemma listed_refs:
  assumes "git_lawful gt"
  shows "ce_ref ` set (list_refs gt g) = listed gt g"
proof
  show "ce_ref ` set (list_refs gt g) \<subseteq> listed gt g"
  proof
    fix r assume "r \<in> ce_ref ` set (list_refs gt g)"
    then obtain e x where e: "r = ce_ref e" "x \<in> set (gt_refs gt g)" "parse_ref x = Some e" by (auto simp: set_list_refs)
    obtain r' t where x: "x = (r', t)" by (cases x)
    then have "r' = r" using parse_ref_fields e by fastforce
    moreover have "\<exists>w. gt_at gt g r' = Some (w, t)" using e(2) refs_lawful(2)[OF assms] unfolding x by blast
    moreover have "parse_ref (r', 0) \<noteq> None" using parse_ref_time[of r' t] e(3) x by simp
    ultimately show "r \<in> listed gt g" by (auto simp: listed_def)
  qed
  show "listed gt g \<subseteq> ce_ref ` set (list_refs gt g)"
  proof
    fix r assume "r \<in> listed gt g"
    then obtain w t where wt: "gt_at gt g r = Some (w, t)" "parse_ref (r, t) \<noteq> None" using parse_ref_time[of r] unfolding listed_def by fastforce
    then obtain e where "parse_ref (r, t) = Some e" by auto
    moreover have "(r, t) \<in> set (gt_refs gt g)" using wt(1) by (auto simp: refs_lawful(2)[OF assms])
    ultimately show "r \<in> ce_ref ` set (list_refs gt g)" using parse_ref_fields by (force simp: set_list_refs)
  qed
qed

lemma distinct_list_refs: "git_lawful gt \<Longrightarrow> distinct (map ce_ref (list_refs gt g))"
  using distinct_refs_filter[OF refs_lawful(1)]
  by (simp add: list_refs_def sort_entries_def distinct_map inj_on_def)

lemma length_list_refs: "git_lawful gt \<Longrightarrow> length (list_refs gt g) = card (listed gt g)"
  by (metis distinct_card distinct_list_refs length_map list.set_map listed_refs)

lemma finite_listed: "git_lawful gt \<Longrightarrow> finite (listed gt g)"
  by (metis finite_imageI finite_set listed_refs)

lemma drop_refs_at:
  assumes "git_lawful gt" "drop_refs gt rs g = (g', True)"
  shows "gt_at gt g' = (\<lambda>r. if r \<in> set rs then None else gt_at gt g r)"
  using assms(2)
proof (induction rs arbitrary: g)
  case (Cons r rs)
  then obtain u where u: "gt_drop gt r g = Some u" "drop_refs gt rs u = (g', True)" by (auto split: option.splits)
  then have "gt_at gt u = (gt_at gt g)(r := None)" using assms(1) by (simp add: git_lawful_def)
  with Cons.IH[OF u(2)] show ?case by auto
qed simp

section \<open>A snapshot below the bound\<close>

lemma commit_and_point_at:
  assumes "git_lawful gt" "commit_and_point gt id' w now g = (g', None)"
  shows "\<exists>g1. gt_at gt g1 = (gt_at gt g)(ref_prefix @ id' \<mapsto> (w, now)) \<and> prune gt g1 = (g', True)"
proof -
  obtain g0 sha g1 where c: "gt_commit gt w now id' g = Some (g0, sha)" "gt_point gt (ref_prefix @ id') sha g0 = Some g1" "prune gt g1 = (g', True)"
    using assms(2) by (auto simp: commit_and_point_def Let_def split: option.splits prod.splits if_splits)
  then have "gt_object gt g0 sha = Some (w, now)" "gt_at gt g0 = gt_at gt g" using assms(1) by (auto simp: git_lawful_def)
  then have "gt_at gt g1 = (gt_at gt g)(ref_prefix @ id' \<mapsto> (w, now))" using assms(1) c(2) by (auto simp: git_lawful_def)
  with c(3) show ?thesis by blast
qed

lemma commit_below_bound:
  assumes "git_lawful gt" "commit_and_point gt id' w now g = (g', None)" "length (list_refs gt g) < default_keep"
  shows "gt_at gt g' = (gt_at gt g)(ref_prefix @ id' \<mapsto> (w, now))" "length (list_refs gt g') \<le> length (list_refs gt g) + 1"
proof -
  obtain g1 where g1: "gt_at gt g1 = (gt_at gt g)(ref_prefix @ id' \<mapsto> (w, now))" "prune gt g1 = (g', True)"
    using commit_and_point_at[OF assms(1,2)] by blast
  have "listed gt g1 \<subseteq> insert (ref_prefix @ id') (listed gt g)" using g1(1) by (auto simp: listed_def split: if_splits)
  then have "card (listed gt g1) \<le> card (insert (ref_prefix @ id') (listed gt g))"
    using finite_listed[OF assms(1)] by (intro card_mono) simp_all
  also have "\<dots> \<le> card (listed gt g) + 1" using finite_listed[OF assms(1)] by (simp add: card_insert_if)
  finally have "card (listed gt g1) \<le> card (listed gt g) + 1" .
  then have l: "length (list_refs gt g1) \<le> length (list_refs gt g) + 1" using length_list_refs[OF assms(1)] by simp
  then have "g' = g1" using g1(2) assms(3) by (simp add: prune_def Let_def split: if_splits)
  with g1(1) l show "gt_at gt g' = (gt_at gt g)(ref_prefix @ id' \<mapsto> (w, now))" "length (list_refs gt g') \<le> length (list_refs gt g) + 1" by simp_all
qed

lemma restore_at: "git_lawful gt \<Longrightarrow> ckpt_restore gt id' w g = (w', None) \<Longrightarrow> \<exists>t. gt_at gt g (ref_prefix @ id') = Some (w', t)"
  by (auto simp: ckpt_restore_def git_lawful_def split: if_splits prod.splits)

text \<open>A snapshot that succeeds while the store holds fewer than fifty checkpoints makes its ref, and only its ref, name the
workspace as it was, and a restore of it that succeeds brings back exactly this workspace.\<close>

theorem snapshot_restores:
  assumes "git_lawful gt" "length (list_refs gt g) < default_keep" "snapshot gt session turn w now g = (g', None)"
  shows "gt_at gt g' = (gt_at gt g)(ref_prefix @ turn \<mapsto> (w, now)) \<and>
    (case ckpt_restore gt turn w0 g' of (w1, None) \<Rightarrow> w1 = w | _ \<Rightarrow> True)"
proof -
  have "commit_and_point gt turn w now g = (g', None)" using assms(3) by (auto simp: snapshot_def split: option.splits)
  then have a: "gt_at gt g' = (gt_at gt g)(ref_prefix @ turn \<mapsto> (w, now))" by (rule commit_below_bound(1)[OF assms(1) _ assms(2)])
  then show ?thesis using restore_at[OF assms(1), of turn w0 g'] by (auto split: prod.split option.split)
qed

section \<open>Heads of stable sorts\<close>

lemma hd_sort_key:
  assumes "m \<in> set xs" "\<And>y. y \<in> set xs \<Longrightarrow> k m \<le> k y"
  shows "hd (sort_key k xs) = hd (filter (\<lambda>y. k y = k m) xs)"
proof -
  obtain z zs where z: "sort_key k xs = z # zs" using assms(1) by (cases "sort_key k xs") (use assms(1) set_sort[of k xs] in auto)
  have "k z = k m"
  proof (rule order.antisym)
    have "m \<in> set (z # zs)" using assms(1) z by (metis set_sort)
    moreover have "sorted (map k (z # zs))" by (metis sorted_sort_key z)
    ultimately show "k z \<le> k m" by auto
    have "z \<in> set xs" by (metis list.set_intros(1) set_sort z)
    then show "k m \<le> k z" by (rule assms(2))
  qed
  then have "hd (filter (\<lambda>y. k y = k m) (sort_key k xs)) = z" unfolding z by simp
  then have "hd (filter (\<lambda>y. k y = k m) xs) = z" by (simp only: sort_key_stable)
  then show ?thesis using z by simp
qed

section \<open>Undo can be undone\<close>

lemma filter_sort_key: "filter P (sort_key k xs) = sort_key k (filter P xs)"
  by (rule filter_sort)

lemma hd_undo_order:
  assumes "e \<in> set es" "distinct (map ce_ref es)"
    and "\<And>x. x \<in> set es \<Longrightarrow> x = e \<or> ce_at x < ce_at e \<or> (ce_at x = ce_at e \<and> (ce_kind e < ce_kind x \<or> (ce_kind x = ce_kind e \<and> ce_num x < ce_num e)))"
  shows "hd (undo_order es) = e"
proof -
  let ?r = "rev (sort_key ce_ref es)"
  let ?a = "filter (\<lambda>x. - ce_at x = - ce_at e)" and ?k = "filter (\<lambda>x. ce_kind x = ce_kind e)" and ?n = "filter (\<lambda>x. - ce_num x = - ce_num e)"
  have 1: "hd (undo_order es) = hd (sort_key ce_kind (sort_key (\<lambda>x. - ce_num x) (?a ?r)))"
    unfolding undo_order_def using assms(1,3)
    by (subst hd_sort_key[of e]) (force simp: filter_sort_key)+
  have 2: "\<dots> = hd (sort_key (\<lambda>x. - ce_num x) (?k (?a ?r)))"
    using assms(1,3) by (subst hd_sort_key[of e]) (force simp: filter_sort_key)+
  have 3: "\<dots> = hd (?n (?k (?a ?r)))"
    using assms(1,3) by (subst hd_sort_key[of e]) (force simp: filter_sort_key)+
  have "hd (?n (?k (?a ?r))) \<in> set (?n (?k (?a ?r)))" using assms(1) by (intro hd_in_set) (auto simp: filter_empty_conv)
  then have "hd (?n (?k (?a ?r))) = e" using assms(3) by fastforce
  then show ?thesis using 1 2 3 by simp
qed

lemma max_pre_Max: "max_pre s es = Max (insert 0 (ce_num ` {e \<in> set es. ce_session e = s \<and> ce_kind e = ''pre''}))"
  unfolding max_pre_def by (subst Max.set_eq_fold[symmetric]) (simp add: image_def)

lemma max_pre_ge: "e \<in> set es \<Longrightarrow> ce_session e = s \<Longrightarrow> ce_kind e = ''pre'' \<Longrightarrow> ce_num e \<le> max_pre s es"
  unfolding max_pre_Max by (intro Max_ge) auto

lemma max_pre_nonneg: "0 \<le> max_pre s es"
  unfolding max_pre_Max by (intro Max_ge) auto

lemma parse_int64_bound: "parse_int64 s = Some n \<Longrightarrow> n < 2 ^ 63"
  by (simp add: parse_int64_def Let_def split: if_splits)

lemma num_bounds: "e \<in> set (list_refs gt g) \<Longrightarrow> ce_num e < 2 ^ 63"
  using parse_int64_bound by (auto simp: set_list_refs parse_ref_def Let_def simp del: power_numeral split: if_splits option.splits)

lemma max_pre_bound: "max_pre s (list_refs gt g) < 2 ^ 63"
  unfolding max_pre_Max using num_bounds by (subst Max_less_iff) auto

lemma pre_id_matches:
  assumes "0 \<le> n" "n < 2 ^ 63" "validate_turn_id s (pre_id s n) = None"
  shows "n + 1 < 2 ^ 63" "match_id (pre_id s n) = Some (s, ''pre'', show_int03 (n + 1))"
    "parse_int64 (show_int03 (n + 1)) = Some (n + 1)"
proof -
  have m: "match_id (pre_id s n) \<noteq> None" using assms(3) by (auto simp: validate_turn_id_def split: if_splits option.splits)
  show lt: "n + 1 < 2 ^ 63"
  proof (rule ccontr)
    assume "\<not> n + 1 < 2 ^ 63"
    then have "n = 2 ^ 63 - 1" using assms(2) by simp
    then have "sint (word_of_int (n + 1) :: 64 word) = - (2 ^ 63)" by simp
    then have e: "pre_id s n = s @ ''-pre-'' @ show_int03 (- (2 ^ 63))" by (simp add: pre_id_def)
    obtain r where r: "show_int03 (- (2 ^ 63)) = CHR ''-'' # r" "CHR ''-'' \<notin> set r"
      using digits_no_dash[OF decimal_digits[of "nat (2 ^ 63)"]] by (simp add: show_int03_def)
    then have e: "pre_id s n = (s @ ''-pre-'') @ CHR ''-'' # r" using e by simp
    obtain p family ds where x: "match_id (pre_id s n) = Some (p, family, ds)" using m by auto
    note y = match_idD[OF x]
    have "(s @ ''-pre-'') @ CHR ''-'' # r = (p @ ''-'' @ family) @ CHR ''-'' # ds" using y(1) e by simp
    from last_dash(1)[OF this r(2) digits_no_dash[OF y(6)]] have "s @ ''-pre-'' = p @ ''-'' @ family" by simp
    then have "last (s @ ''-pre-'') = last (p @ ''-'' @ family)" by simp
    with y(4) show False by auto
  qed
  have w: "sint (word_of_int (n + 1) :: 64 word) = n + 1"
    using lt assms(1) by (intro sint_word_of_int63) auto
  have d: "3 \<le> length (show_int03 (n + 1))" "list_all is_digit (show_int03 (n + 1))" "parse_digits (show_int03 (n + 1)) = nat (n + 1)"
    using assms(1) pad3_length pad3_digits by (simp_all add: show_int03_def)
  show "parse_int64 (show_int03 (n + 1)) = Some (n + 1)" using lt assms(1) by (simp add: parse_int64_def d(3))
  have id': "pre_id s n = s @ ''-pre-'' @ show_int03 (n + 1)" by (simp only: pre_id_def w)
  obtain p family ds where x: "match_id (pre_id s n) = Some (p, family, ds)" using m by auto
  from match_pre[OF x[unfolded id'] digits_no_dash[OF d(2)]] x
  show "match_id (pre_id s n) = Some (s, ''pre'', show_int03 (n + 1))" by simp
qed

lemma cut_ref_prefix [simp]: "cut_prefix (ref_prefix @ x) ref_prefix = Some x"
  by (simp add: cut_prefix_Some)

lemma ref_not_last: "match_id x \<noteq> None \<Longrightarrow> ref_prefix @ x \<noteq> last_ref"
proof
  assume m: "match_id x \<noteq> None" and "ref_prefix @ x = last_ref"
  then have "x = ''last''" by (simp add: ref_prefix_def last_ref_def)
  moreover have "match_id ''last'' = None" by code_simp
  ultimately show False using m by simp
qed

lemma parse_built:
  "match_id x = Some (p, family, ds) \<Longrightarrow> parse_int64 ds = Some n \<Longrightarrow>
   parse_ref (ref_prefix @ x, t) = Some \<lparr>ce_session = p, ce_num = n, ce_ref = ref_prefix @ x, ce_at = t, ce_kind = family\<rparr>"
  using ref_not_last[of x] by (simp add: parse_ref_def)

lemma kinds: "e \<in> set (list_refs gt g) \<Longrightarrow> ce_kind e = ''turn'' \<or> ce_kind e = ''pre''"
  using match_idD(4) by (fastforce simp: set_list_refs parse_ref_def Let_def split: if_splits option.splits)

definition safety_entry :: "string \<Rightarrow> int \<Rightarrow> int \<Rightarrow> ckpt_entry" where
  "safety_entry s n now = \<lparr>ce_session = s, ce_num = n + 1, ce_ref = ref_prefix @ pre_id s n, ce_at = now, ce_kind = ''pre''\<rparr>"

lemma snapshot_pre_restore_at:
  assumes "git_lawful gt" "snapshot_pre_restore gt s w now g = (g', Inr pre)" "length (list_refs gt g) < default_keep"
  defines "n \<equiv> max_pre s (list_refs gt g)"
  shows "pre = pre_id s n" "gt_at gt g' = (gt_at gt g)(ref_prefix @ pre \<mapsto> (w, now))" "length (list_refs gt g') \<le> length (list_refs gt g) + 1"
    "validate_turn_id s pre = None" "safety_entry s n now \<in> set (list_refs gt g')"
proof -
  have v: "validate_turn_id s (pre_id s n) = None" and c: "commit_and_point gt (pre_id s n) w now g = (g', None)" and p: "pre = pre_id s n"
    using assms(2) by (auto simp: snapshot_pre_restore_def n_def Let_def split: if_splits option.splits prod.splits)
  show "pre = pre_id s n" "validate_turn_id s pre = None" using p v by simp_all
  show at: "gt_at gt g' = (gt_at gt g)(ref_prefix @ pre \<mapsto> (w, now))" "length (list_refs gt g') \<le> length (list_refs gt g) + 1"
    using commit_below_bound[OF assms(1) c assms(3)] p by simp_all
  have "0 \<le> n" "n < 2 ^ 63" using max_pre_nonneg max_pre_bound by (auto simp: n_def)
  note m = pre_id_matches[OF this v]
  have "(ref_prefix @ pre_id s n, now) \<in> set (gt_refs gt g')" using at(1) p by (simp add: refs_lawful(2)[OF assms(1)])
  then show "safety_entry s n now \<in> set (list_refs gt g')"
    using parse_built[OF m(2,3), of now] by (auto simp: set_list_refs safety_entry_def)
qed

lemma undo_doneD:
  assumes "undo gt en tree busy s args now (w, g) = (UndoDone id' pre, w', g')"
  shows "\<exists>depth target. parse_undo_depth args = Some depth \<and> undo_walk_target (list_refs gt g) s depth = Some target \<and>
    id' = (case cut_prefix (ce_ref target) ref_prefix of Some x \<Rightarrow> x | None \<Rightarrow> ce_ref target) \<and>
    snapshot_pre_restore gt s w now g = (g', Inr pre) \<and> ckpt_restore gt id' w g' = (w', None)"
  using assms by (auto simp: undo_def Let_def split: if_splits option.splits prod.splits sum.splits)

lemma safety_entry_first:
  assumes "git_lawful gt" "gt_at gt g' = (gt_at gt g)(ref_prefix @ pre_id s n \<mapsto> (w, now))" "safety_entry s n now \<in> set (list_refs gt g')"
    and "n = max_pre s (list_refs gt g)" "\<And>e. e \<in> set (list_refs gt g) \<Longrightarrow> ce_at e \<le> now"
  shows "undo_walk_target (list_refs gt g') s 1 = Some (safety_entry s n now)"
proof -
  let ?e = "safety_entry s n now" and ?mine = "filter (\<lambda>e. ce_session e = s) (list_refs gt g')"
  have d: "distinct (map ce_ref (list_refs gt g'))" by (rule distinct_list_refs[OF assms(1)])
  have old: "x = ?e \<or> x \<in> set (list_refs gt g)" if mem: "x \<in> set (list_refs gt g')" for x
  proof -
    obtain r t where x: "(r, t) \<in> set (gt_refs gt g')" "parse_ref (r, t) = Some x" by (rule list_refsE[OF mem])
    show ?thesis
    proof (cases "r = ref_prefix @ pre_id s n")
      case True
      then have "ce_ref x = ce_ref ?e" using parse_ref_fields[OF x(2)] by (simp add: safety_entry_def)
      then show ?thesis using d mem assms(3) by (auto simp: distinct_map dest: inj_onD)
    next
      case False
      then have "(r, t) \<in> set (gt_refs gt g)" using x(1) assms(2) by (simp add: refs_lawful(2)[OF assms(1)])
      then show ?thesis using x(2) by (auto simp: set_list_refs)
    qed
  qed
  have pt: "''pre'' < (''turn'' :: string)" by code_simp
  have "hd (undo_order ?mine) = ?e"
  proof (rule hd_undo_order)
    show "?e \<in> set ?mine" using assms(3) by (simp add: safety_entry_def)
    show "distinct (map ce_ref ?mine)" using d by (rule distinct_map_filter)
    fix x assume "x \<in> set ?mine"
    then have x: "x \<in> set (list_refs gt g')" "ce_session x = s" by auto
    show "x = ?e \<or> ce_at x < ce_at ?e \<or> ce_at x = ce_at ?e \<and> (ce_kind ?e < ce_kind x \<or> ce_kind x = ce_kind ?e \<and> ce_num x < ce_num ?e)"
    proof (cases "x = ?e")
      case False
      then have o: "x \<in> set (list_refs gt g)" using old x(1) by blast
      have "ce_at x \<le> now" by (rule assms(5)[OF o])
      moreover have "ce_kind x = ''turn'' \<or> ce_kind x = ''pre'' \<and> ce_num x \<le> n" using kinds[OF o] max_pre_ge[OF o x(2)] assms(4) by auto
      ultimately show ?thesis using pt by (auto simp: safety_entry_def)
    qed simp
  qed
  moreover have "set (undo_order ?mine) = set ?mine" by (simp add: undo_order_def)
  moreover have "?e \<in> set ?mine" using assms(3) by (simp add: safety_entry_def)
  ultimately have "hd (undo_order ?mine) = ?e" "undo_order ?mine \<noteq> []" by force+
  then show ?thesis by (simp add: undo_walk_target_def hd_conv_nth Let_def)
qed



section \<open>Retention\<close>

lemma overflow_filter:
  "filter (\<lambda>e. ce_session e = s) (overflow k kept es) = drop (k - kept s) (filter (\<lambda>e. ce_session e = s) es)"
proof (induction es arbitrary: kept)
  case (Cons e es)
  show ?case
  proof (cases "ce_session e = s")
    case True
    have "k - Suc (kept s) = k - kept s - 1" by simp
    then show ?thesis using True Cons.IH[of "kept(s := kept s + 1)"] by (cases "k - kept s") (auto simp: Let_def fun_upd_def)
  next
    case False
    then show ?thesis using Cons.IH[of "kept(ce_session e := kept (ce_session e) + 1)"] by (simp add: Let_def fun_upd_def)
  qed
qed simp

lemma newest_first_filter: "filter P (newest_first es) = newest_first (filter P es)"
  by (simp add: newest_first_def filter_sort_key rev_filter[symmetric] flip: rev_filter)

definition aged :: "int \<Rightarrow> int \<Rightarrow> ckpt_entry \<Rightarrow> bool" where
  "aged max_age now e = (0 < max_age \<and> ce_at e < now - max_age)"

lemma expire_by_age_aged: "expire_by_age es now max_age = filter (aged max_age now) es"
  by (cases "max_age \<le> 0") (auto simp: expire_by_age_def aged_def[abs_def])

lemma sweep_at:
  assumes "git_lawful gt" "sweep gt max_age per now g = (g', None)"
  defines "es \<equiv> list_refs gt g" and "k \<equiv> (if per \<le> 0 then default_keep else nat per)"
  shows "gt_at gt g' = (\<lambda>r. if r \<in> ce_ref ` ({e \<in> set es. aged max_age now e} \<union>
      set (overflow k (\<lambda>_. 0) (newest_first (filter (\<lambda>e. \<not> aged max_age now e) es)))) then None else gt_at gt g r)"
proof -
  let ?aged = "filter (aged max_age now) es"
  have "filter (\<lambda>e. ce_ref e \<notin> set (map ce_ref ?aged)) es = filter (\<lambda>e. \<not> aged max_age now e) es"
    using distinct_list_refs[OF assms(1), of g] by (intro filter_cong) (auto simp: es_def distinct_map dest: inj_onD)
  moreover have "expire_by_count xs (if per \<le> 0 then int default_keep else per) = overflow k (\<lambda>_. 0) (newest_first xs)" for xs
    by (auto simp: expire_by_count_def k_def default_keep_def)
  ultimately obtain g1 where "drop_refs gt (map ce_ref (?aged @ overflow k (\<lambda>_. 0) (newest_first (filter (\<lambda>e. \<not> aged max_age now e) es)))) g = (g1, True)"
    "gt_expire gt g1 = Some g'"
    using assms(2) unfolding sweep_def Let_def expire_by_age_aged es_def[symmetric]
    by (auto split: prod.splits if_splits option.splits)
  moreover from this(2) have "gt_at gt g' = gt_at gt g1" using assms(1) by (simp add: git_lawful_def)
  ultimately show ?thesis using drop_refs_at[OF assms(1)] by (simp add: image_Un)
qed

text \<open>C31. A sweep that succeeds removes a checkpoint exactly when it is older than the age bound, or when its own session
has the bound's number of newer ones left: no session's checkpoints push out another's.\<close>

theorem sweep_is_per_session:
  assumes "git_lawful gt" "sweep gt max_age per now g = (g', None)" "e \<in> set (list_refs gt g)"
  shows "(gt_at gt g' (ce_ref e) = None) =
    (aged max_age now e \<or>
     e \<in> set (drop (if per \<le> 0 then default_keep else nat per)
       (newest_first (filter (\<lambda>x. ce_session x = ce_session e \<and> \<not> aged max_age now x) (list_refs gt g)))))"
proof -
  let ?es = "list_refs gt g" and ?k = "if per \<le> 0 then default_keep else nat per"
  let ?over = "overflow ?k (\<lambda>_. 0) (newest_first (filter (\<lambda>e. \<not> aged max_age now e) ?es))"
  have sub: "set (overflow k kept xs) \<subseteq> set xs" for k kept xs
  proof (induction xs arbitrary: kept)
    case (Cons x xs)
    show ?case using Cons.IH[of "kept(ce_session x := kept (ce_session x) + 1)"] by (auto simp: Let_def fun_upd_def)
  qed simp
  have "set ?over \<subseteq> set ?es" using sub[of ?k "\<lambda>_. 0"] by (fastforce simp: newest_first_def)
  then have inj: "ce_ref e \<in> ce_ref ` ({x \<in> set ?es. aged max_age now x} \<union> set ?over) \<longleftrightarrow> aged max_age now e \<or> e \<in> set ?over"
    using inj_on_image_mem_iff[of ce_ref "set ?es" e "{x \<in> set ?es. aged max_age now x} \<union> set ?over"]
      distinct_list_refs[OF assms(1), of g] assms(3) by (simp add: distinct_map)
  have "e \<in> set ?over \<longleftrightarrow> e \<in> set (filter (\<lambda>x. ce_session x = ce_session e) ?over)" by simp
  also have "\<dots> \<longleftrightarrow> e \<in> set (drop ?k (newest_first (filter (\<lambda>x. ce_session x = ce_session e \<and> \<not> aged max_age now x) ?es)))"
    by (simp only: overflow_filter newest_first_filter filter_filter diff_zero) (simp add: conj_commute)
  finally have o: "e \<in> set ?over \<longleftrightarrow> e \<in> set (drop ?k (newest_first (filter (\<lambda>x. ce_session x = ce_session e \<and> \<not> aged max_age now x) ?es)))" .
  have "ce_ref e \<in> listed gt g" using listed_refs[OF assms(1), of g] assms(3) by blast
  then have "gt_at gt g (ce_ref e) \<noteq> None" by (simp add: listed_def)
  then show ?thesis unfolding sweep_at[OF assms(1,2)] using inj o by auto
qed

section \<open>The prune after a snapshot\<close>

text \<open>The prune takes the first refs of the listing, which is ordered by session and not by time: in a store that is full
with checkpoints of sessions that sort later, a snapshot that reports success has already lost its ref.\<close>

lemma fresh_snapshot_pruned:
  assumes "git_lawful gt" "default_keep \<le> length (list_refs gt g)" "\<And>e. e \<in> set (list_refs gt g) \<Longrightarrow> s < ce_session e"
    and "match_id turn = Some (s, family, ds)" "parse_int64 ds = Some k" "snapshot gt s turn w now g = (g', None)"
  shows "gt_at gt g' (ref_prefix @ turn) = None"
proof -
  have "commit_and_point gt turn w now g = (g', None)" using assms(6) by (auto simp: snapshot_def split: option.splits)
  then obtain g1 where g1: "gt_at gt g1 = (gt_at gt g)(ref_prefix @ turn \<mapsto> (w, now))" "prune gt g1 = (g', True)"
    using commit_and_point_at[OF assms(1)] by blast
  let ?e = "\<lparr>ce_session = s, ce_num = k, ce_ref = ref_prefix @ turn, ce_at = now, ce_kind = family\<rparr>"
  note p = parse_built[OF assms(4,5)]
  have new: "?e \<in> set (list_refs gt g1)" using g1(1) p[of now] by (force simp: set_list_refs refs_lawful(2)[OF assms(1)])
  have "ref_prefix @ turn \<notin> listed gt g"
  proof
    assume "ref_prefix @ turn \<in> listed gt g"
    then have "ref_prefix @ turn \<in> ce_ref ` set (list_refs gt g)" by (simp only: listed_refs[OF assms(1)])
    then obtain x where x: "x \<in> set (list_refs gt g)" "ce_ref x = ref_prefix @ turn" by auto
    obtain r t where "parse_ref (r, t) = Some x" using list_refsE[OF x(1)] .
    then have "ce_session x = s" using x(2) p[of t] parse_ref_fields by fastforce
    with assms(3)[OF x(1)] show False by simp
  qed
  moreover have "listed gt g1 = insert (ref_prefix @ turn) (listed gt g)" using g1(1) p[of 0] by (auto simp: listed_def)
  ultimately have len: "default_keep < length (list_refs gt g1)"
    using assms(2) finite_listed[OF assms(1)] by (simp add: length_list_refs[OF assms(1)])
  have old: "x = ?e \<or> s < ce_session x" if mem: "x \<in> set (list_refs gt g1)" for x
  proof -
    obtain r t where x: "(r, t) \<in> set (gt_refs gt g1)" "parse_ref (r, t) = Some x" by (rule list_refsE[OF mem])
    show ?thesis
    proof (cases "r = ref_prefix @ turn")
      case True
      then have "t = now" using x(1) g1(1) by (simp add: refs_lawful(2)[OF assms(1)])
      with True x(2) p[of now] show ?thesis by simp
    next
      case False
      then have "(r, t) \<in> set (gt_refs gt g)" using x(1) g1(1) by (simp add: refs_lawful(2)[OF assms(1)])
      with x(2) assms(3) show ?thesis by (auto simp: set_list_refs)
    qed
  qed
  have "hd (list_refs gt g1) = ?e"
  proof -
    let ?xs = "sort_key ce_num (sort_key ce_kind (List.map_filter parse_ref (gt_refs gt g1)))"
    have xs: "set ?xs = set (list_refs gt g1)" by (simp add: list_refs_def sort_entries_def)
    have "hd (list_refs gt g1) = hd (filter (\<lambda>y. ce_session y = ce_session ?e) ?xs)"
      unfolding list_refs_def sort_entries_def
      by (rule hd_sort_key) (use new old xs in \<open>force simp: less_imp_le\<close>)+
    moreover have "filter (\<lambda>y. ce_session y = ce_session ?e) ?xs \<noteq> []" unfolding filter_empty_conv xs using new by blast
    then have "hd (filter (\<lambda>y. ce_session y = ce_session ?e) ?xs) \<in> set (filter (\<lambda>y. ce_session y = ce_session ?e) ?xs)" by (rule hd_in_set)
    ultimately show ?thesis using old xs by fastforce
  qed
  moreover obtain m where "length (list_refs gt g1) - default_keep = Suc m" using len by (metis Suc_diff_Suc)
  ultimately have "?e \<in> set (take (length (list_refs gt g1) - default_keep) (list_refs gt g1))"
    using new by (cases "list_refs gt g1") auto
  then have "ref_prefix @ turn \<in> set (map ce_ref (take (length (list_refs gt g1) - default_keep) (list_refs gt g1)))" by force
  then show ?thesis using drop_refs_at[OF assms(1), of _ g1 g'] g1(2) by (simp add: prune_def Let_def split: if_splits)
qed

text \<open>The rule appended to the user's exclude file joins an unfinished last line.\<close>

lemma exclude_joins_last_line:
  "ensure_user_exclude (GitDir (Some ''*.log'')) = (GitDir (Some (''*.log.ass-guard/'' @ [CHR 10])), None)"
  by code_simp

section \<open>Witnesses\<close>

type_synonym list_git = "(string \<times> nat \<times> int) list \<times> (string \<times> nat \<times> int) list"

definition sample_git :: "(list_git, nat) git" where
  \<comment> \<open>refs and objects as association lists\<close>
  "sample_git =
     \<lparr>gt_refs = (\<lambda>g. map (\<lambda>(r, w, t). (r, t)) (AList.clearjunk (fst g))),
      gt_readable = (\<lambda>g. True),
      gt_commit = (\<lambda>w t m g. let sha = replicate (length (snd g) + 1) (CHR ''x'') in Some ((fst g, (sha, w, t) # snd g), sha)),
      gt_point = (\<lambda>r sha g. map_option (\<lambda>x. ((r, x) # fst g, snd g)) (map_of (snd g) sha)),
      gt_drop = (\<lambda>r g. Some (AList.delete r (fst g), snd g)),
      gt_expire = Some,
      gt_checkout = (\<lambda>r w g. case map_of (fst g) r of Some (w', t) \<Rightarrow> (w', True) | None \<Rightarrow> (w, False)),
      gt_object = (\<lambda>g. map_of (snd g)), gt_at = (\<lambda>g. map_of (fst g))\<rparr>"

lemma sample_git_lawful: "git_lawful sample_git"
proof -
  have "fst \<circ> (\<lambda>(r, w, t). (r, t)) = (fst :: string \<times> nat \<times> int \<Rightarrow> string)" by auto
  then have "distinct (map (fst \<circ> (\<lambda>(r, w, t). (r, t))) (AList.clearjunk xs))" for xs :: "(string \<times> nat \<times> int) list"
    by (simp only: distinct_clearjunk)
  moreover have "(r, t) \<in> set (map (\<lambda>(r, w, t). (r, t)) (AList.clearjunk xs)) \<longleftrightarrow> (\<exists>w. map_of xs r = Some (w, t))"
    for r t and xs :: "(string \<times> nat \<times> int) list"
  proof -
    have "map_of xs r = Some (w, t) \<longleftrightarrow> (r, w, t) \<in> set (AList.clearjunk xs)" for w
      using map_of_eq_Some_iff[OF distinct_clearjunk, of xs r "(w, t)"] by (simp add: map_of_clearjunk)
    then show ?thesis by (force simp: image_iff)
  qed
  ultimately show ?thesis
    by (auto simp: git_lawful_def sample_git_def distinct_clearjunk Let_def delete_conv' split: option.splits)
qed

definition one_checkpoint :: list_git where
  "one_checkpoint = fst (snapshot sample_git ''a'' ''a-turn-001'' 7 1 ([], []))"

theorem snapshot_restores_witness:
  "fst (ckpt_restore sample_git ''a-turn-001'' 9 one_checkpoint) = 7"
proof -
  have s: "snapshot sample_git ''a'' ''a-turn-001'' 7 1 ([], []) = (one_checkpoint, None)" "length (list_refs sample_git ([], [])) < default_keep"
    "snd (ckpt_restore sample_git ''a-turn-001'' 9 one_checkpoint) = None"
    by code_simp+
  from snapshot_restores[OF sample_git_lawful s(2,1), of 9] s(3) show ?thesis by (auto split: prod.splits option.splits)
qed

definition undone :: "undo_outcome \<times> nat \<times> list_git" where
  "undone = undo sample_git True (\<lambda>_. []) False ''a'' [] 2 (8, one_checkpoint)"



definition swept_store :: list_git where
  "swept_store = fst (snapshot sample_git ''a'' ''a-turn-002'' 8 5 one_checkpoint)"

theorem sweep_is_per_session_witness:
  "gt_at sample_git (fst (sweep sample_git 0 1 9 swept_store)) ''refs/checkpoints/a-turn-001'' = None"
proof -
  define e where "e = \<lparr>ce_session = ''a'', ce_num = 1, ce_ref = ''refs/checkpoints/a-turn-001'', ce_at = 1, ce_kind = ''turn''\<rparr>"
  have s: "sweep sample_git 0 1 9 swept_store = (fst (sweep sample_git 0 1 9 swept_store), None)" by code_simp
  have m: "e \<in> set (list_refs sample_git swept_store)" unfolding e_def by code_simp
  have d: "e \<in> set (drop (if (1::int) \<le> 0 then default_keep else nat 1)
       (newest_first (filter (\<lambda>x. ce_session x = ce_session e \<and> \<not> aged 0 9 x) (list_refs sample_git swept_store))))"
    unfolding e_def by code_simp
  from sweep_is_per_session[OF sample_git_lawful s m] d have "gt_at sample_git (fst (sweep sample_git 0 1 9 swept_store)) (ce_ref e) = None" by blast
  then show ?thesis by (simp add: e_def)
qed

end
