(* ===== verification/Spec2Isabelle.thy ===== *)
theory Spec2Isabelle
  imports PermStore SteerQueue AskQueue Manager Reconcile Window Answers Outcomes DispatchProps TaskProps EmitterProps RegistryProps Hookdag CheckpointProps
begin

text \<open>
  ass-guard-agent: a coding agent behind the Agent Client Protocol. This library models the session
  core of \<^verbatim>\<open>kit/session\<close> with the parts it rests on: the permission rules
  (\<^verbatim>\<open>internal/perm\<close>), the tool catalog and batches (\<^verbatim>\<open>kit/toolcat\<close>,
  \<^verbatim>\<open>kit/toolexec\<close>), the redaction of the transcript (\<^verbatim>\<open>kit/redact\<close>).

  \<^bold>\<open>Reading order.\<close>
  \<^item> \<open>Prelude\<close>: lists, strings, decimal numbers and the laws of a log (locale).
  \<^item> \<open>PermRules\<close>: \<^verbatim>\<open>internal/perm/rules.go\<close>.
  \<^item> \<open>SteerQueue\<close>, \<open>AskQueue\<close>: \<^verbatim>\<open>steerqueue.go\<close> and \<^verbatim>\<open>askqueue.go\<close>.
  \<^item> \<open>Json\<close>, \<open>Redact\<close>: JSON values, and \<^verbatim>\<open>kit/redact\<close>.
  \<^item> \<open>Transcript\<close>, \<open>Manager\<close>, \<open>TurnIds\<close>, \<open>Reconcile\<close>: the transcript and its recovery.
  \<^item> \<open>Utf8\<close>, \<open>Projector\<close>, \<open>Window\<close>: the projection of the transcript to the model's window.
  \<^item> \<open>Toolcat\<close>, \<open>Batch\<close>: the tool catalog and one batch of calls.
  \<^item> \<open>Gate\<close>, \<open>Asks\<close>: the permission gate, plan mode, questions and dialogs.
  \<^item> \<open>Compaction\<close>: the summarizer's input.
  \<^item> \<open>SessionState\<close>, \<open>Subagent\<close>: the session's state and its nested loop.
\<close>

end
